(* ===== verification/Mesh_Prelude.thy ===== *)
theory Mesh_Prelude
  imports Main "HOL-Library.Word" "HOL-Library.Monad_Syntax"
begin

text \<open>
  Shared vocabulary of the development: the machine integer types of the C sources, the error
  numbers they return, and the generic facts on options, arrays (lists updated by index) and words
  that the component theories rest on.

  \<^item> \<open>u8\<close>, \<open>u16\<close>, \<open>u32\<close>, \<open>u64\<close> are \<^verbatim>\<open>uint8_t\<close> .. \<^verbatim>\<open>uint64_t\<close>; arithmetic wraps.
  \<^item> A C function that returns 0 or a negative error number is modelled with \<open>errno + 'a\<close>, the
    error on the left.
  \<^item> \<open>ETRUE\<close> is the positive value 1: what the caller of a function declared \<^verbatim>\<open>bool\<close> sees of an error.
  \<^item> \<open>find_idx P xs\<close> is the loop \<^verbatim>\<open>for (i = 0; i < ARRAY_SIZE(xs); i++) if (P(xs[i])) return &xs[i];\<close>:
    a pointer into a static array is the index of its slot, \<^verbatim>\<open>NULL\<close> is \<open>None\<close>.
  \<^item> \<open>find_last_idx P xs\<close> is the same loop without the \<^verbatim>\<open>return\<close>, which remembers the last match.
\<close>

type_synonym u8 = "8 word"
type_synonym u16 = "16 word"
type_synonym u32 = "32 word"
type_synonym u64 = "64 word"
type_synonym bytes = "u8 list"

unbundle bit_operations_syntax

named_theorems mesh_defs \<open>definitions unfolded when a component is evaluated on a concrete state\<close>

datatype errno =
    EINVAL | ENOMEM | ENOENT | EAGAIN | EBUSY | EALREADY | EBADMSG | EMSGSIZE
  | ENOBUFS | ENOTSUP | EADDRNOTAVAIL | ENODEV | ENOEXEC | EIO | ETIMEDOUT | ECANCELED | EACCES
  | EEXIST | ENOSPC | ENOTCONN | E2BIG | ETRUE

section \<open>Mesh addresses\<close>

text \<open>The address classes of include/bluetooth/mesh/main.h and access.h.\<close>

definition BT_MESH_ADDR_UNASSIGNED :: u16 where
  "BT_MESH_ADDR_UNASSIGNED = 0x0000"

definition BT_MESH_ADDR_IS_UNICAST :: "u16 \<Rightarrow> bool" where
  "BT_MESH_ADDR_IS_UNICAST addr \<longleftrightarrow> addr \<noteq> 0 \<and> addr < 0x8000"

definition BT_MESH_ADDR_IS_GROUP :: "u16 \<Rightarrow> bool" where
  "BT_MESH_ADDR_IS_GROUP addr \<longleftrightarrow> addr \<ge> 0xc000 \<and> addr \<le> 0xff00"

definition BT_MESH_ADDR_IS_VIRTUAL :: "u16 \<Rightarrow> bool" where
  "BT_MESH_ADDR_IS_VIRTUAL addr \<longleftrightarrow> addr \<ge> 0x8000 \<and> addr < 0xc000"

definition BT_MESH_ADDR_IS_RFU :: "u16 \<Rightarrow> bool" where
  "BT_MESH_ADDR_IS_RFU addr \<longleftrightarrow> addr \<ge> 0xff00 \<and> addr \<le> 0xfffb"

section \<open>Searching an array\<close>

primrec find_idx :: "('a \<Rightarrow> bool) \<Rightarrow> 'a list \<Rightarrow> nat option" where
  "find_idx P [] = None"
| "find_idx P (x # xs) = (if P x then Some 0 else map_option Suc (find_idx P xs))"

primrec find_last_idx :: "('a \<Rightarrow> bool) \<Rightarrow> 'a list \<Rightarrow> nat option" where
  "find_last_idx P [] = None"
| "find_last_idx P (x # xs) =
     (case find_last_idx P xs of Some i \<Rightarrow> Some (Suc i) | None \<Rightarrow> if P x then Some 0 else None)"

lemma find_idx_SomeD:
  "find_idx P xs = Some i \<Longrightarrow> i < length xs \<and> P (xs ! i) \<and> (\<forall>j < i. \<not> P (xs ! j))"
proof (induction xs arbitrary: i)
  case Nil
  then show ?case by simp
next
  case (Cons x xs)
  show ?case
  proof (cases "P x")
    case True
    with Cons.prems show ?thesis by auto
  next
    case False
    with Cons.prems obtain k where k: "find_idx P xs = Some k" "i = Suc k" by auto
    from Cons.IH [OF k(1)] False k(2) show ?thesis
      by (auto simp: nth_Cons split: nat.splits)
  qed
qed

lemma find_idx_None_iff: "find_idx P xs = None \<longleftrightarrow> (\<forall>x \<in> set xs. \<not> P x)"
  by (induction xs) auto

lemma find_idx_Some_iff:
  "find_idx P xs = Some i \<longleftrightarrow> i < length xs \<and> P (xs ! i) \<and> (\<forall>j < i. \<not> P (xs ! j))"
proof
  assume "find_idx P xs = Some i"
  then show "i < length xs \<and> P (xs ! i) \<and> (\<forall>j < i. \<not> P (xs ! j))" by (rule find_idx_SomeD)
next
  assume i: "i < length xs \<and> P (xs ! i) \<and> (\<forall>j < i. \<not> P (xs ! j))"
  then have "find_idx P xs \<noteq> None" by (auto simp: find_idx_None_iff)
  then obtain k where k: "find_idx P xs = Some k" by auto
  from find_idx_SomeD [OF k] i have "k = i" by (metis linorder_neqE_nat)
  with k show "find_idx P xs = Some i" by simp
qed

lemma find_last_idx_SomeD:
  "find_last_idx P xs = Some i \<Longrightarrow> i < length xs \<and> P (xs ! i) \<and> (\<forall>j. i < j \<and> j < length xs \<longrightarrow> \<not> P (xs ! j))"
proof (induction xs arbitrary: i)
  case Nil
  then show ?case by simp
next
  case (Cons x xs)
  have nn: "find_last_idx P xs = None \<Longrightarrow> \<forall>y \<in> set xs. \<not> P y" for xs
    by (induction xs) (auto split: option.splits if_splits)
  show ?case
  proof (cases "find_last_idx P xs")
    case None
    with Cons.prems have "P x" "i = 0" by (auto split: if_splits)
    with nn [OF None] show ?thesis by (auto simp: nth_Cons split: nat.splits)
  next
    case (Some k)
    with Cons.prems have "i = Suc k" by simp
    with Cons.IH [OF Some] show ?thesis by (auto simp: nth_Cons split: nat.splits)
  qed
qed

lemma find_last_idx_None_iff: "find_last_idx P xs = None \<longleftrightarrow> (\<forall>x \<in> set xs. \<not> P x)"
  by (induction xs) (auto split: option.splits)

lemma find_last_idx_Some_iff:
  "find_last_idx P xs = Some i \<longleftrightarrow> i < length xs \<and> P (xs ! i) \<and> (\<forall>j. i < j \<and> j < length xs \<longrightarrow> \<not> P (xs ! j))"
proof
  assume i: "i < length xs \<and> P (xs ! i) \<and> (\<forall>j. i < j \<and> j < length xs \<longrightarrow> \<not> P (xs ! j))"
  then have "find_last_idx P xs \<noteq> None" by (auto simp: find_last_idx_None_iff)
  then obtain k where k: "find_last_idx P xs = Some k" by auto
  from find_last_idx_SomeD [OF k] i have "k = i" by (metis linorder_neqE_nat)
  with k show "find_last_idx P xs = Some i" by simp
qed (rule find_last_idx_SomeD)

lemma find_idx_cong:
  "length xs = length ys \<Longrightarrow> (\<And>i. i < length xs \<Longrightarrow> P (xs ! i) = Q (ys ! i)) \<Longrightarrow>
   find_idx P xs = find_idx Q ys"
proof (induction xs ys rule: list_induct2)
  case Nil
  then show ?case by simp
next
  case (Cons x xs y ys)
  from Cons.prems [of 0] have "P x = Q y" by simp
  moreover have "find_idx P xs = find_idx Q ys"
    by (rule Cons.IH) (use Cons.prems in \<open>metis Suc_less_eq length_Cons nth_Cons_Suc\<close>)
  ultimately show ?case by simp
qed

lemma find_idx_update_other:
  "\<not> P (xs ! i) \<Longrightarrow> \<not> P x \<Longrightarrow> i < length xs \<Longrightarrow> find_idx P (xs[i := x]) = find_idx P xs"
  by (rule find_idx_cong) (auto simp: nth_list_update)

section \<open>Arrays: updating slot i changes slot i and nothing else\<close>

lemma nth_list_update_if:
  "i < length xs \<Longrightarrow> xs[i := x] ! j = (if j = i then x else xs ! j)"
  by simp

lemma list_all_updateI: "list_all P xs \<Longrightarrow> P x \<Longrightarrow> list_all P (xs[i := x])"
  by (auto simp: list_all_iff dest!: set_update_subset_insert [THEN subsetD])

lemma list_all_nthD: "list_all P xs \<Longrightarrow> i < length xs \<Longrightarrow> P (xs ! i)"
  by (simp add: list_all_length)

text \<open>\<open>mem_put off bs xs\<close> is \<^verbatim>\<open>memcpy(&xs[off], bs, length bs)\<close> within an array.\<close>

definition mem_put :: "nat \<Rightarrow> 'a list \<Rightarrow> 'a list \<Rightarrow> 'a list" where
  "mem_put off bs xs = take off xs @ bs @ drop (off + length bs) xs"

lemma length_mem_put [simp]: "off + length bs \<le> length xs \<Longrightarrow> length (mem_put off bs xs) = length xs"
  by (simp add: mem_put_def)

lemma nth_mem_put:
  "off + length bs \<le> length xs \<Longrightarrow> i < length xs \<Longrightarrow>
   mem_put off bs xs ! i = (if off \<le> i \<and> i < off + length bs then bs ! (i - off) else xs ! i)"
  by (auto simp: mem_put_def nth_append)

section \<open>Results that are a value or an error\<close>

definition ebind :: "'e + 'a \<Rightarrow> ('a \<Rightarrow> 'e + 'b) \<Rightarrow> 'e + 'b" where
  "ebind r f = (case r of Inl e \<Rightarrow> Inl e | Inr x \<Rightarrow> f x)"

lemma ebind_simps [simp]: "ebind (Inl e) f = Inl e" "ebind (Inr x) f = f x"
  by (simp_all add: ebind_def)

lemma ebind_eq_Inr: "ebind r f = Inr y \<longleftrightarrow> (\<exists>x. r = Inr x \<and> f x = Inr y)"
  by (cases r) auto

section \<open>Words\<close>

lemma unat_lt_pow [simp]: "unat (x :: 'a::len word) < 2 ^ LENGTH('a)"
  by simp

lemma u16_eq_iff_unat: "(x :: u16) = y \<longleftrightarrow> unat x = unat y"
  by (rule word_unat_eq_iff)

lemma unat_add_one_u32: "unat (x :: u32) + 1 < 2 ^ 32 \<Longrightarrow> unat (x + 1) = unat x + 1"
  by (simp add: unat_word_ariths)

lemma take_bit_word_less: "n < LENGTH('a) \<Longrightarrow> take_bit n (w :: 'a::len word) < 2 ^ n"
  by (simp add: take_bit_eq_mask and_mask_less')

lemma take_bit_word_id:
  assumes "n < LENGTH('a)" "w < 2 ^ n"
  shows "take_bit n (w :: 'a::len word) = w"
proof -
  have "uint (2 ^ n :: 'a word) = take_bit LENGTH('a) (2 ^ n)" by (metis take_bit_of_exp uint_word_of_int_eq word_of_int_2p)
  then have "uint (2 ^ n :: 'a word) = 2 ^ n" using assms(1) by (simp add: take_bit_of_exp)
  moreover have "uint w < uint (2 ^ n :: 'a word)" using assms(2) by (simp add: word_less_def)
  ultimately have "take_bit n (uint w) = uint w" by (simp add: take_bit_int_eq_self)
  then show ?thesis by (simp add: word_uint_eq_iff unsigned_take_bit_eq)
qed

text \<open>The byte masks of the C sources, and the bits a byte has.\<close>

lemma bit_mask_shift: "bit (push_bit k (mask 8) :: int) n \<longleftrightarrow> k \<le> n \<and> n < k + 8"
  by (auto simp: bit_simps)

lemma bit_0xff: "bit (0xff :: int) n \<longleftrightarrow> n < 8"
  using bit_mask_shift [of 0 n] by (simp add: mask_eq_exp_minus_1 push_bit_eq_mult)

lemma bit_0xff00: "bit (0xff00 :: int) n \<longleftrightarrow> 8 \<le> n \<and> n < 16"
  using bit_mask_shift [of 8 n] by (simp add: mask_eq_exp_minus_1 push_bit_eq_mult)

lemma bit_0xff0000: "bit (0xff0000 :: int) n \<longleftrightarrow> 16 \<le> n \<and> n < 24"
  using bit_mask_shift [of 16 n] by (simp add: mask_eq_exp_minus_1 push_bit_eq_mult)

lemma bit_0xff000000: "bit (0xff000000 :: int) n \<longleftrightarrow> 24 \<le> n \<and> n < 32"
  using bit_mask_shift [of 24 n] by (simp add: mask_eq_exp_minus_1 push_bit_eq_mult)

lemmas bit_byte_masks = bit_0xff bit_0xff00 bit_0xff0000 bit_0xff000000

lemma not_bit_u8 [simp]: "8 \<le> n \<Longrightarrow> \<not> bit (b :: u8) n"
  by (auto dest: bit_imp_le_length)

lemma unicast_not_group: "BT_MESH_ADDR_IS_UNICAST a \<Longrightarrow> \<not> BT_MESH_ADDR_IS_GROUP a"
  by (auto simp: BT_MESH_ADDR_IS_UNICAST_def BT_MESH_ADDR_IS_GROUP_def word_less_nat_alt word_le_nat_alt)

end
