(* ===== verification/Byteorder.thy ===== *)
theory Byteorder
  imports Mesh_Prelude
begin

text \<open>
  The byte-order accessors of include/sys/byteorder.h that the mesh stack uses. A pointer to
  \<open>n\<close> bytes is the list of the bytes from it on: \<open>sys_put_*\<close> gives the bytes it writes, and
  \<open>sys_get_*\<close> reads the first bytes of a list. The lemmas are the two round trips of every width.
\<close>

section \<open>Writing\<close>

definition sys_put_be16 :: "u16 \<Rightarrow> bytes" where
  "sys_put_be16 val = [ucast (drop_bit 8 val), ucast val]"

definition sys_put_be24 :: "u32 \<Rightarrow> bytes" where
  "sys_put_be24 val = ucast (drop_bit 16 val) # sys_put_be16 (ucast val)"

definition sys_put_be32 :: "u32 \<Rightarrow> bytes" where
  "sys_put_be32 val = sys_put_be16 (ucast (drop_bit 16 val)) @ sys_put_be16 (ucast val)"

definition sys_put_le16 :: "u16 \<Rightarrow> bytes" where
  "sys_put_le16 val = [ucast val, ucast (drop_bit 8 val)]"

definition sys_put_le24 :: "u32 \<Rightarrow> bytes" where
  "sys_put_le24 val = sys_put_le16 (ucast val) @ [ucast (drop_bit 16 val)]"

definition sys_put_le32 :: "u32 \<Rightarrow> bytes" where
  "sys_put_le32 val = sys_put_le16 (ucast val) @ sys_put_le16 (ucast (drop_bit 16 val))"

section \<open>Reading\<close>

definition sys_get_be16 :: "bytes \<Rightarrow> u16" where
  "sys_get_be16 src = push_bit 8 (ucast (src ! 0)) OR ucast (src ! 1)"

definition sys_get_be24 :: "bytes \<Rightarrow> u32" where
  "sys_get_be24 src = push_bit 16 (ucast (src ! 0)) OR ucast (sys_get_be16 (drop 1 src))"

definition sys_get_be32 :: "bytes \<Rightarrow> u32" where
  "sys_get_be32 src = push_bit 16 (ucast (sys_get_be16 src)) OR ucast (sys_get_be16 (drop 2 src))"

definition sys_get_le16 :: "bytes \<Rightarrow> u16" where
  "sys_get_le16 src = push_bit 8 (ucast (src ! 1)) OR ucast (src ! 0)"

definition sys_get_le24 :: "bytes \<Rightarrow> u32" where
  "sys_get_le24 src = push_bit 16 (ucast (src ! 2)) OR ucast (sys_get_le16 src)"

definition sys_get_le32 :: "bytes \<Rightarrow> u32" where
  "sys_get_le32 src = push_bit 16 (ucast (sys_get_le16 (drop 2 src))) OR ucast (sys_get_le16 src)"

lemmas sys_put_defs = sys_put_be16_def sys_put_be24_def sys_put_be32_def
  sys_put_le16_def sys_put_le24_def sys_put_le32_def

lemmas sys_get_defs = sys_get_be16_def sys_get_be24_def sys_get_be32_def
  sys_get_le16_def sys_get_le24_def sys_get_le32_def

section \<open>Lengths and round trips\<close>

lemma length_sys_put [simp]:
  "length (sys_put_be16 a) = 2" "length (sys_put_be24 b) = 3" "length (sys_put_be32 b) = 4"
  "length (sys_put_le16 a) = 2" "length (sys_put_le24 b) = 3" "length (sys_put_le32 b) = 4"
  by (simp_all add: sys_put_defs)

lemma get_put_be16 [simp]: "sys_get_be16 (sys_put_be16 v @ rest) = v"
  by (rule bit_word_eqI) (auto simp: sys_put_defs sys_get_defs bit_simps)

lemma get_put_le16 [simp]: "sys_get_le16 (sys_put_le16 v @ rest) = v"
  by (rule bit_word_eqI) (auto simp: sys_put_defs sys_get_defs bit_simps)

lemma get_put_be32 [simp]: "sys_get_be32 (sys_put_be32 v @ rest) = v"
  by (rule bit_word_eqI) (auto simp: sys_put_defs sys_get_defs bit_simps)

lemma get_put_le32 [simp]: "sys_get_le32 (sys_put_le32 v @ rest) = v"
  by (rule bit_word_eqI) (auto simp: sys_put_defs sys_get_defs bit_simps)

text \<open>A 24-bit field keeps the low 24 bits of the 32-bit value written to it.\<close>

lemma get_put_be24 [simp]: "sys_get_be24 (sys_put_be24 v @ rest) = take_bit 24 v"
proof (rule bit_word_eqI)
  fix n
  show "bit (sys_get_be24 (sys_put_be24 v @ rest)) n \<longleftrightarrow> bit (take_bit 24 v) n"
    by (cases "n < 16") (auto simp: sys_put_defs sys_get_defs bit_simps)
qed

lemma get_put_le24 [simp]: "sys_get_le24 (sys_put_le24 v @ rest) = take_bit 24 v"
proof (rule bit_word_eqI)
  fix n
  show "bit (sys_get_le24 (sys_put_le24 v @ rest)) n \<longleftrightarrow> bit (take_bit 24 v) n"
    by (cases "n < 16") (auto simp: sys_put_defs sys_get_defs bit_simps)
qed

lemmas get_put_Nil [simp] =
  get_put_be16 [where rest = "[]", simplified] get_put_le16 [where rest = "[]", simplified]
  get_put_be24 [where rest = "[]", simplified] get_put_le24 [where rest = "[]", simplified]
  get_put_be32 [where rest = "[]", simplified] get_put_le32 [where rest = "[]", simplified]

lemma put_get_be16: "length bs = 2 \<Longrightarrow> sys_put_be16 (sys_get_be16 bs) = bs"
proof -
  assume "length bs = 2"
  then obtain a b where bs: "bs = [a, b]" by (auto simp: length_Suc_conv numeral_2_eq_2)
  have "ucast (drop_bit 8 (push_bit 8 (ucast a) OR ucast b :: u16)) = a"
    by (rule bit_word_eqI) (auto simp: bit_simps dest: bit_imp_le_length)
  moreover have "ucast (push_bit 8 (ucast a) OR ucast b :: u16) = b"
    by (rule bit_word_eqI) (auto simp: bit_simps)
  ultimately show ?thesis by (simp add: bs sys_put_defs sys_get_defs)
qed

lemma sys_get_be24_bound: "sys_get_be24 bs < 2 ^ 24"
proof -
  have "take_bit 24 (sys_get_be24 bs) = sys_get_be24 bs"
    by (rule bit_word_eqI) (auto simp: sys_get_defs bit_simps dest: bit_imp_le_length)
  then show ?thesis using take_bit_word_less [of 24 "sys_get_be24 bs"] by simp
qed

end
