(* ===== verification/Net_Buf.thy ===== *)
theory Net_Buf
  imports Byteorder
begin

text \<open>
  The simple network buffer of include/net/buf.h and subsys/net/buf.c, which every layer of the mesh
  stack builds and parses its PDUs in. A \<^verbatim>\<open>struct net_buf_simple\<close> is its storage (the \<^verbatim>\<open>size\<close> bytes
  behind \<^verbatim>\<open>__buf\<close>), the offset of \<^verbatim>\<open>data\<close> in it and the length of the data. An operation whose
  \<^verbatim>\<open>__ASSERT_NO_MSG\<close> fails is \<open>None\<close>.

  The locale \<open>byte_buffer\<close> is the contract the layers above rely on: a buffer is a byte string with
  room in front of it and behind it, \<open>add\<close> appends, \<open>push\<close> prepends and \<open>pull\<close> takes bytes off the
  front, and each of them succeeds exactly when there is room. The model of the C code is an
  interpretation of it.
\<close>

record net_buf_simple =
  nb_store :: bytes
  nb_off :: nat
  nb_len :: nat

definition nb_size :: "net_buf_simple \<Rightarrow> nat" where
  "nb_size b = length (nb_store b)"

definition nb_invar :: "net_buf_simple \<Rightarrow> bool" where
  "nb_invar b \<longleftrightarrow> nb_off b + nb_len b \<le> nb_size b \<and> nb_size b < 65536"

definition nb_data :: "net_buf_simple \<Rightarrow> bytes" where
  "nb_data b = take (nb_len b) (drop (nb_off b) (nb_store b))"

text \<open>Storing bytes through a pointer \<open>pos\<close> bytes into the storage.\<close>

definition nb_write :: "net_buf_simple \<Rightarrow> nat \<Rightarrow> bytes \<Rightarrow> net_buf_simple" where
  "nb_write b pos bs =
     b\<lparr>nb_store := take pos (nb_store b) @ bs @ drop (pos + length bs) (nb_store b)\<rparr>"

section \<open>Operations\<close>

definition NET_BUF_SIMPLE_DEFINE :: "bytes \<Rightarrow> net_buf_simple" where
  "NET_BUF_SIMPLE_DEFINE storage = \<lparr>nb_store = storage, nb_off = 0, nb_len = 0\<rparr>"

definition net_buf_simple_init :: "net_buf_simple \<Rightarrow> nat \<Rightarrow> net_buf_simple" where
  "net_buf_simple_init b reserve_head = b\<lparr>nb_off := reserve_head, nb_len := 0\<rparr>"

definition net_buf_simple_init_with_data :: "bytes \<Rightarrow> net_buf_simple" where
  "net_buf_simple_init_with_data bs = \<lparr>nb_store = bs, nb_off = 0, nb_len = length bs\<rparr>"

definition net_buf_simple_reset :: "net_buf_simple \<Rightarrow> net_buf_simple" where
  "net_buf_simple_reset b = b\<lparr>nb_len := 0, nb_off := 0\<rparr>"

definition net_buf_simple_reserve :: "net_buf_simple \<Rightarrow> nat \<Rightarrow> net_buf_simple option" where
  "net_buf_simple_reserve b reserve =
     (if nb_len b = 0 then Some (b\<lparr>nb_off := reserve\<rparr>) else None)"

definition net_buf_simple_headroom :: "net_buf_simple \<Rightarrow> nat" where
  "net_buf_simple_headroom b = nb_off b"

definition net_buf_simple_tailroom :: "net_buf_simple \<Rightarrow> nat" where
  "net_buf_simple_tailroom b = nb_size b - net_buf_simple_headroom b - nb_len b"

definition net_buf_simple_tail :: "net_buf_simple \<Rightarrow> nat" where
  "net_buf_simple_tail b = nb_off b + nb_len b"

definition net_buf_simple_add :: "net_buf_simple \<Rightarrow> nat \<Rightarrow> (nat \<times> net_buf_simple) option" where
  "net_buf_simple_add b n =
     (if net_buf_simple_tailroom b \<ge> n
      then Some (net_buf_simple_tail b, b\<lparr>nb_len := nb_len b + n\<rparr>) else None)"

definition net_buf_simple_push :: "net_buf_simple \<Rightarrow> nat \<Rightarrow> (nat \<times> net_buf_simple) option" where
  "net_buf_simple_push b n =
     (if net_buf_simple_headroom b \<ge> n
      then Some (nb_off b - n, b\<lparr>nb_off := nb_off b - n, nb_len := nb_len b + n\<rparr>) else None)"

definition net_buf_simple_pull :: "net_buf_simple \<Rightarrow> nat \<Rightarrow> net_buf_simple option" where
  "net_buf_simple_pull b n =
     (if nb_len b \<ge> n then Some (b\<lparr>nb_len := nb_len b - n, nb_off := nb_off b + n\<rparr>) else None)"

definition net_buf_simple_pull_mem :: "net_buf_simple \<Rightarrow> nat \<Rightarrow> (bytes \<times> net_buf_simple) option" where
  "net_buf_simple_pull_mem b n =
     (if nb_len b \<ge> n
      then Some (take n (drop (nb_off b) (nb_store b)),
                 b\<lparr>nb_len := nb_len b - n, nb_off := nb_off b + n\<rparr>) else None)"

definition net_buf_simple_add_mem :: "net_buf_simple \<Rightarrow> bytes \<Rightarrow> net_buf_simple option" where
  "net_buf_simple_add_mem b mem =
     do { (tail, b') \<leftarrow> net_buf_simple_add b (length mem); Some (nb_write b' tail mem) }"

text \<open>\<open>sys_put_*(val, net_buf_simple_push(buf, n))\<close>\<close>

definition nb_push_mem :: "net_buf_simple \<Rightarrow> bytes \<Rightarrow> net_buf_simple option" where
  "nb_push_mem b bs = do { (d, b') \<leftarrow> net_buf_simple_push b (length bs); Some (nb_write b' d bs) }"

definition net_buf_simple_add_u8 :: "net_buf_simple \<Rightarrow> u8 \<Rightarrow> net_buf_simple option" where
  "net_buf_simple_add_u8 b val = net_buf_simple_add_mem b [val]"

definition net_buf_simple_add_le16 :: "net_buf_simple \<Rightarrow> u16 \<Rightarrow> net_buf_simple option" where
  "net_buf_simple_add_le16 b val = net_buf_simple_add_mem b (sys_put_le16 val)"

definition net_buf_simple_add_be16 :: "net_buf_simple \<Rightarrow> u16 \<Rightarrow> net_buf_simple option" where
  "net_buf_simple_add_be16 b val = net_buf_simple_add_mem b (sys_put_be16 val)"

definition net_buf_simple_add_le24 :: "net_buf_simple \<Rightarrow> u32 \<Rightarrow> net_buf_simple option" where
  "net_buf_simple_add_le24 b val = net_buf_simple_add_mem b (sys_put_le24 val)"

definition net_buf_simple_add_be24 :: "net_buf_simple \<Rightarrow> u32 \<Rightarrow> net_buf_simple option" where
  "net_buf_simple_add_be24 b val = net_buf_simple_add_mem b (sys_put_be24 val)"

definition net_buf_simple_add_le32 :: "net_buf_simple \<Rightarrow> u32 \<Rightarrow> net_buf_simple option" where
  "net_buf_simple_add_le32 b val = net_buf_simple_add_mem b (sys_put_le32 val)"

definition net_buf_simple_add_be32 :: "net_buf_simple \<Rightarrow> u32 \<Rightarrow> net_buf_simple option" where
  "net_buf_simple_add_be32 b val = net_buf_simple_add_mem b (sys_put_be32 val)"

definition net_buf_simple_push_u8 :: "net_buf_simple \<Rightarrow> u8 \<Rightarrow> net_buf_simple option" where
  "net_buf_simple_push_u8 b val = nb_push_mem b [val]"

definition net_buf_simple_push_le16 :: "net_buf_simple \<Rightarrow> u16 \<Rightarrow> net_buf_simple option" where
  "net_buf_simple_push_le16 b val = nb_push_mem b (sys_put_le16 val)"

definition net_buf_simple_push_be16 :: "net_buf_simple \<Rightarrow> u16 \<Rightarrow> net_buf_simple option" where
  "net_buf_simple_push_be16 b val = nb_push_mem b (sys_put_be16 val)"

definition net_buf_simple_push_be24 :: "net_buf_simple \<Rightarrow> u32 \<Rightarrow> net_buf_simple option" where
  "net_buf_simple_push_be24 b val = nb_push_mem b (sys_put_be24 val)"

definition net_buf_simple_push_be32 :: "net_buf_simple \<Rightarrow> u32 \<Rightarrow> net_buf_simple option" where
  "net_buf_simple_push_be32 b val = nb_push_mem b (sys_put_be32 val)"

text \<open>
  The readers load an unaligned value as the (little-endian) CPU sees it and swap its bytes when the
  field is big-endian.
\<close>

definition bswap_16 :: "u16 \<Rightarrow> u16" where
  "bswap_16 x = (drop_bit 8 x AND 0xff) OR push_bit 8 (x AND 0xff)"

definition bswap_24 :: "u32 \<Rightarrow> u32" where
  "bswap_24 x = (drop_bit 16 x AND 0xff) OR (x AND 0xff00) OR push_bit 16 (x AND 0xff)"

definition bswap_32 :: "u32 \<Rightarrow> u32" where
  "bswap_32 x = (drop_bit 24 x AND 0xff) OR (drop_bit 8 x AND 0xff00)
                OR push_bit 8 (x AND 0xff00) OR push_bit 24 (x AND 0xff)"

definition net_buf_simple_pull_u8 :: "net_buf_simple \<Rightarrow> (u8 \<times> net_buf_simple) option" where
  "net_buf_simple_pull_u8 b =
     do { b' \<leftarrow> net_buf_simple_pull b 1; Some (nb_store b ! nb_off b, b') }"

definition net_buf_simple_pull_le16 :: "net_buf_simple \<Rightarrow> (u16 \<times> net_buf_simple) option" where
  "net_buf_simple_pull_le16 b =
     do { b' \<leftarrow> net_buf_simple_pull b 2; Some (sys_get_le16 (drop (nb_off b) (nb_store b)), b') }"

definition net_buf_simple_pull_be16 :: "net_buf_simple \<Rightarrow> (u16 \<times> net_buf_simple) option" where
  "net_buf_simple_pull_be16 b =
     do { b' \<leftarrow> net_buf_simple_pull b 2;
          Some (bswap_16 (sys_get_le16 (drop (nb_off b) (nb_store b))), b') }"

definition net_buf_simple_pull_le24 :: "net_buf_simple \<Rightarrow> (u32 \<times> net_buf_simple) option" where
  "net_buf_simple_pull_le24 b =
     do { b' \<leftarrow> net_buf_simple_pull b 3; Some (sys_get_le24 (drop (nb_off b) (nb_store b)), b') }"

definition net_buf_simple_pull_be24 :: "net_buf_simple \<Rightarrow> (u32 \<times> net_buf_simple) option" where
  "net_buf_simple_pull_be24 b =
     do { b' \<leftarrow> net_buf_simple_pull b 3;
          Some (bswap_24 (sys_get_le24 (drop (nb_off b) (nb_store b))), b') }"

definition net_buf_simple_pull_le32 :: "net_buf_simple \<Rightarrow> (u32 \<times> net_buf_simple) option" where
  "net_buf_simple_pull_le32 b =
     do { b' \<leftarrow> net_buf_simple_pull b 4; Some (sys_get_le32 (drop (nb_off b) (nb_store b)), b') }"

definition net_buf_simple_pull_be32 :: "net_buf_simple \<Rightarrow> (u32 \<times> net_buf_simple) option" where
  "net_buf_simple_pull_be32 b =
     do { b' \<leftarrow> net_buf_simple_pull b 4;
          Some (bswap_32 (sys_get_le32 (drop (nb_off b) (nb_store b))), b') }"

record net_buf_simple_state =
  st_offset :: u16
  st_len :: u16

definition net_buf_simple_save :: "net_buf_simple \<Rightarrow> net_buf_simple_state" where
  "net_buf_simple_save b =
     \<lparr>st_offset = of_nat (net_buf_simple_headroom b), st_len = of_nat (nb_len b)\<rparr>"

definition net_buf_simple_restore :: "net_buf_simple \<Rightarrow> net_buf_simple_state \<Rightarrow> net_buf_simple" where
  "net_buf_simple_restore b st = b\<lparr>nb_off := unat (st_offset st), nb_len := unat (st_len st)\<rparr>"

lemmas nb_basic_defs = nb_invar_def nb_data_def nb_size_def nb_write_def
  net_buf_simple_headroom_def net_buf_simple_tailroom_def net_buf_simple_tail_def

lemmas nb_op_defs = net_buf_simple_add_def net_buf_simple_push_def net_buf_simple_pull_def
  net_buf_simple_pull_mem_def net_buf_simple_add_mem_def nb_push_mem_def

section \<open>The contract of a byte buffer\<close>

locale byte_buffer =
  fixes content :: "'b \<Rightarrow> bytes"
    and invar :: "'b \<Rightarrow> bool"
    and front :: "'b \<Rightarrow> nat"
    and room :: "'b \<Rightarrow> nat"
    and add :: "'b \<Rightarrow> bytes \<Rightarrow> 'b option"
    and push :: "'b \<Rightarrow> bytes \<Rightarrow> 'b option"
    and pull :: "'b \<Rightarrow> nat \<Rightarrow> (bytes \<times> 'b) option"
  assumes add_total: "add b bs = None \<longleftrightarrow> room b < length bs"
    and add_content: "invar b \<Longrightarrow> add b bs = Some b' \<Longrightarrow>
          invar b' \<and> content b' = content b @ bs \<and> front b' = front b \<and> room b = room b' + length bs"
    and push_total: "push b bs = None \<longleftrightarrow> front b < length bs"
    and push_content: "invar b \<Longrightarrow> push b bs = Some b' \<Longrightarrow>
          invar b' \<and> content b' = bs @ content b \<and> front b = front b' + length bs \<and> room b' = room b"
    and pull_total: "invar b \<Longrightarrow> pull b n = None \<longleftrightarrow> length (content b) < n"
    and pull_content: "invar b \<Longrightarrow> pull b n = Some (bs, b') \<Longrightarrow>
          invar b' \<and> content b = bs @ content b' \<and> length bs = n \<and> front b' = front b + n \<and> room b' = room b"
begin

lemma add_Some: "length bs \<le> room b \<Longrightarrow> \<exists>b'. add b bs = Some b'"
  by (metis add_total leD option.exhaust)

lemma push_Some: "length bs \<le> front b \<Longrightarrow> \<exists>b'. push b bs = Some b'"
  by (metis push_total leD option.exhaust)

lemma pull_Some: "invar b \<Longrightarrow> n \<le> length (content b) \<Longrightarrow> \<exists>bs b'. pull b n = Some (bs, b')"
  by (metis pull_total leD option.exhaust surj_pair)

text \<open>What was pushed is what the next reader pulls off the front.\<close>

lemma pull_push:
  assumes "invar b" and "push b bs = Some b'"
  shows "\<exists>b''. pull b' (length bs) = Some (bs, b'') \<and> content b'' = content b \<and> invar b''"
proof -
  from push_content [OF assms] have i: "invar b'" and c: "content b' = bs @ content b" by auto
  from pull_Some [OF i, of "length bs"] c obtain cs b'' where p: "pull b' (length bs) = Some (cs, b'')"
    by auto
  from pull_content [OF i p] c have "cs = bs" "content b'' = content b" "invar b''" by auto
  with p show ?thesis by auto
qed

text \<open>Appended bytes come out after everything that was there before: a buffer is a FIFO.\<close>

lemma pull_add:
  assumes "invar b" and "add b bs = Some b'"
  shows "\<exists>b1 b2. pull b' (length (content b)) = Some (content b, b1)
           \<and> pull b1 (length bs) = Some (bs, b2) \<and> content b2 = []"
proof -
  from add_content [OF assms] have i: "invar b'" and c: "content b' = content b @ bs" by auto
  from pull_Some [OF i, of "length (content b)"] c
  obtain cs b1 where p: "pull b' (length (content b)) = Some (cs, b1)" by auto
  from pull_content [OF i p] c have 1: "cs = content b" "content b1 = bs" "invar b1" by auto
  from pull_Some [OF 1(3), of "length bs"] 1(2)
  obtain ds b2 where q: "pull b1 (length bs) = Some (ds, b2)" by auto
  from pull_content [OF 1(3) q] 1(2) have "ds = bs" "content b2 = []" by auto
  with p q 1 show ?thesis by auto
qed

end

lemma nb_add_total: "net_buf_simple_add_mem b bs = None \<longleftrightarrow> net_buf_simple_tailroom b < length bs"
  by (auto simp: nb_op_defs)

lemma nb_add_content:
  assumes i: "nb_invar b" and a: "net_buf_simple_add_mem b bs = Some b'"
  shows "nb_invar b' \<and> nb_data b' = nb_data b @ bs
    \<and> net_buf_simple_headroom b' = net_buf_simple_headroom b
    \<and> net_buf_simple_tailroom b = net_buf_simple_tailroom b' + length bs"
proof -
  have room: "nb_off b + nb_len b + length bs \<le> length (nb_store b)"
    using i a by (auto simp: nb_basic_defs nb_op_defs split: if_splits)
  have b': "b' = nb_write (b\<lparr>nb_len := nb_len b + length bs\<rparr>) (nb_off b + nb_len b) bs"
    using a by (auto simp: nb_op_defs net_buf_simple_tail_def split: if_splits)
  have d: "nb_data b' = nb_data b @ bs"
    using room by (simp add: b' nb_data_def nb_write_def drop_take)
  show ?thesis using i room d by (auto simp: b' nb_basic_defs)
qed

lemma nb_push_total: "nb_push_mem b bs = None \<longleftrightarrow> net_buf_simple_headroom b < length bs"
  by (auto simp: nb_op_defs)

lemma nb_push_content:
  assumes i: "nb_invar b" and a: "nb_push_mem b bs = Some b'"
  shows "nb_invar b' \<and> nb_data b' = bs @ nb_data b
    \<and> net_buf_simple_headroom b = net_buf_simple_headroom b' + length bs
    \<and> net_buf_simple_tailroom b' = net_buf_simple_tailroom b"
proof -
  have room: "length bs \<le> nb_off b" "nb_off b + nb_len b \<le> length (nb_store b)"
    using i a by (auto simp: nb_basic_defs nb_op_defs split: if_splits)
  have b': "b' = nb_write (b\<lparr>nb_off := nb_off b - length bs, nb_len := nb_len b + length bs\<rparr>)
                          (nb_off b - length bs) bs"
    using a by (auto simp: nb_op_defs net_buf_simple_headroom_def split: if_splits)
  have d: "nb_data b' = bs @ nb_data b"
    using room by (simp add: b' nb_data_def nb_write_def)
  show ?thesis using i room d by (auto simp: b' nb_basic_defs)
qed

lemma length_nb_data: "nb_invar b \<Longrightarrow> length (nb_data b) = nb_len b"
  by (auto simp: nb_basic_defs)

lemma nb_pull_total: "nb_invar b \<Longrightarrow> net_buf_simple_pull_mem b n = None \<longleftrightarrow> length (nb_data b) < n"
  by (auto simp: nb_op_defs length_nb_data)

lemma nb_pull_content:
  assumes i: "nb_invar b" and a: "net_buf_simple_pull_mem b n = Some (bs, b')"
  shows "nb_invar b' \<and> nb_data b = bs @ nb_data b' \<and> length bs = n
    \<and> net_buf_simple_headroom b' = net_buf_simple_headroom b + n
    \<and> net_buf_simple_tailroom b' = net_buf_simple_tailroom b"
proof -
  from a have n: "n \<le> nb_len b" and bs: "bs = take n (drop (nb_off b) (nb_store b))"
    and b': "b' = b\<lparr>nb_len := nb_len b - n, nb_off := nb_off b + n\<rparr>"
    by (auto simp: nb_op_defs split: if_splits)
  have "nb_data b = take n (nb_data b) @ drop n (nb_data b)" by simp
  moreover have "take n (nb_data b) = bs" using n by (simp add: bs nb_data_def)
  moreover have "drop n (nb_data b) = nb_data b'" using n by (simp add: b' nb_data_def drop_take add.commute)
  ultimately show ?thesis using i n by (auto simp: b' bs nb_basic_defs)
qed

interpretation nb: byte_buffer nb_data nb_invar net_buf_simple_headroom net_buf_simple_tailroom
  net_buf_simple_add_mem nb_push_mem net_buf_simple_pull_mem
proof unfold_locales
  fix b bs
  show "net_buf_simple_add_mem b bs = None \<longleftrightarrow> net_buf_simple_tailroom b < length bs" by (rule nb_add_total)
  show "nb_push_mem b bs = None \<longleftrightarrow> net_buf_simple_headroom b < length bs" by (rule nb_push_total)
next
  fix b bs b'
  assume i: "nb_invar b"
  show "net_buf_simple_add_mem b bs = Some b' \<Longrightarrow> nb_invar b' \<and> nb_data b' = nb_data b @ bs
    \<and> net_buf_simple_headroom b' = net_buf_simple_headroom b
    \<and> net_buf_simple_tailroom b = net_buf_simple_tailroom b' + length bs" by (rule nb_add_content [OF i])
  show "nb_push_mem b bs = Some b' \<Longrightarrow> nb_invar b' \<and> nb_data b' = bs @ nb_data b
    \<and> net_buf_simple_headroom b = net_buf_simple_headroom b' + length bs
    \<and> net_buf_simple_tailroom b' = net_buf_simple_tailroom b" by (rule nb_push_content [OF i])
next
  fix b n
  assume i: "nb_invar b"
  show "net_buf_simple_pull_mem b n = None \<longleftrightarrow> length (nb_data b) < n" by (rule nb_pull_total [OF i])
next
  fix b n bs b'
  assume i: "nb_invar b" and p: "net_buf_simple_pull_mem b n = Some (bs, b')"
  from nb_pull_content [OF i p]
  show "nb_invar b' \<and> nb_data b = bs @ nb_data b' \<and> length bs = n
    \<and> net_buf_simple_headroom b' = net_buf_simple_headroom b + n
    \<and> net_buf_simple_tailroom b' = net_buf_simple_tailroom b" .
qed

section \<open>Fixed-width fields\<close>

text \<open>The readers are the byte-order accessors applied to the bytes pulled off the front.\<close>

lemma bswap_16_get: "bswap_16 (sys_get_le16 bs) = sys_get_be16 bs"
proof (rule bit_word_eqI)
  fix n :: nat
  show "bit (bswap_16 (sys_get_le16 bs)) n \<longleftrightarrow> bit (sys_get_be16 bs) n"
    by (cases "n < 8") (auto simp: bswap_16_def sys_get_defs bit_simps bit_byte_masks numeral_2_eq_2)
qed

lemma bswap_24_get: "3 \<le> length bs \<Longrightarrow> bswap_24 (sys_get_le24 bs) = sys_get_be24 bs"
proof (rule bit_word_eqI)
  fix n :: nat
  assume len: "3 \<le> length bs"
  consider "n < 8" | "8 \<le> n" "n < 16" | "16 \<le> n" "n < 24" | "24 \<le> n" by linarith
  then show "bit (bswap_24 (sys_get_le24 bs)) n \<longleftrightarrow> bit (sys_get_be24 bs) n"
    using len by cases (auto simp: bswap_24_def sys_get_defs bit_simps bit_byte_masks numeral_2_eq_2)
qed

lemma bswap_32_get: "4 \<le> length bs \<Longrightarrow> bswap_32 (sys_get_le32 bs) = sys_get_be32 bs"
proof (rule bit_word_eqI)
  fix n :: nat
  assume len: "4 \<le> length bs"
  consider "n < 8" | "8 \<le> n" "n < 16" | "16 \<le> n" "n < 24" | "24 \<le> n" by linarith
  then show "bit (bswap_32 (sys_get_le32 bs)) n \<longleftrightarrow> bit (sys_get_be32 bs) n"
    using len by cases (auto simp: bswap_32_def sys_get_defs bit_simps bit_byte_masks numeral_2_eq_2)
qed

lemma nb_pull_mem_eq:
  "net_buf_simple_pull b n = Some b' \<Longrightarrow>
   net_buf_simple_pull_mem b n = Some (take n (drop (nb_off b) (nb_store b)), b')"
  by (auto simp: nb_op_defs split: if_splits)

lemma sys_get_take [simp]:
  "sys_get_le16 (take 2 bs) = sys_get_le16 bs" "sys_get_be16 (take 2 bs) = sys_get_be16 bs"
  "sys_get_le24 (take 3 bs) = sys_get_le24 bs" "sys_get_be24 (take 3 bs) = sys_get_be24 bs"
  "sys_get_le32 (take 4 bs) = sys_get_le32 bs" "sys_get_be32 (take 4 bs) = sys_get_be32 bs"
  by (simp_all add: sys_get_defs drop_take)

lemma nb_data_prefix:
  "nb_invar b \<Longrightarrow> n \<le> nb_len b \<Longrightarrow> take n (drop (nb_off b) (nb_store b)) = take n (nb_data b)"
  by (simp add: nb_data_def)

lemma nb_pull_ex:
  assumes "nb_invar b" and "n \<le> length (nb_data b)"
  shows "\<exists>b'. net_buf_simple_pull b n = Some b' \<and> nb_invar b' \<and> nb_data b' = drop n (nb_data b)"
proof -
  from assms have n: "n \<le> nb_len b" by (simp add: length_nb_data)
  let ?b' = "b\<lparr>nb_len := nb_len b - n, nb_off := nb_off b + n\<rparr>"
  have "net_buf_simple_pull b n = Some ?b'" using n by (simp add: net_buf_simple_pull_def)
  moreover have "nb_invar ?b'" using assms(1) n by (auto simp: nb_basic_defs)
  moreover have "nb_data ?b' = drop n (nb_data b)" using n by (simp add: nb_data_def drop_take add.commute)
  ultimately show ?thesis by blast
qed

lemma nb_get_data:
  assumes "nb_invar b"
  shows "2 \<le> length (nb_data b) \<Longrightarrow> sys_get_le16 (drop (nb_off b) (nb_store b)) = sys_get_le16 (nb_data b)"
    and "3 \<le> length (nb_data b) \<Longrightarrow> sys_get_le24 (drop (nb_off b) (nb_store b)) = sys_get_le24 (nb_data b)"
    and "4 \<le> length (nb_data b) \<Longrightarrow> sys_get_le32 (drop (nb_off b) (nb_store b)) = sys_get_le32 (nb_data b)"
  using assms by (metis length_nb_data nb_data_prefix sys_get_take)+

lemma pull_u8_data:
  assumes "nb_invar b" and "1 \<le> length (nb_data b)"
  shows "\<exists>b'. net_buf_simple_pull_u8 b = Some (nb_data b ! 0, b') \<and> nb_invar b' \<and> nb_data b' = drop 1 (nb_data b)"
  using nb_pull_ex [OF assms] assms
  by (auto simp: net_buf_simple_pull_u8_def nb_data_def)

lemma pull_le16_data:
  assumes "nb_invar b" and "2 \<le> length (nb_data b)"
  shows "\<exists>b'. net_buf_simple_pull_le16 b = Some (sys_get_le16 (nb_data b), b') \<and> nb_invar b' \<and> nb_data b' = drop 2 (nb_data b)"
  using nb_pull_ex [OF assms] nb_get_data [OF assms(1)] assms(2)
  by (auto simp: net_buf_simple_pull_le16_def)

lemma pull_be16_data:
  assumes "nb_invar b" and "2 \<le> length (nb_data b)"
  shows "\<exists>b'. net_buf_simple_pull_be16 b = Some (sys_get_be16 (nb_data b), b') \<and> nb_invar b' \<and> nb_data b' = drop 2 (nb_data b)"
  using nb_pull_ex [OF assms] nb_get_data [OF assms(1)] assms(2)
  by (auto simp: net_buf_simple_pull_be16_def bswap_16_get)

lemma pull_be24_data:
  assumes "nb_invar b" and "3 \<le> length (nb_data b)"
  shows "\<exists>b'. net_buf_simple_pull_be24 b = Some (sys_get_be24 (nb_data b), b') \<and> nb_invar b' \<and> nb_data b' = drop 3 (nb_data b)"
  using nb_pull_ex [OF assms] nb_get_data [OF assms(1)] assms(2)
  by (auto simp: net_buf_simple_pull_be24_def bswap_24_get)

lemma pull_le32_data:
  assumes "nb_invar b" and "4 \<le> length (nb_data b)"
  shows "\<exists>b'. net_buf_simple_pull_le32 b = Some (sys_get_le32 (nb_data b), b') \<and> nb_invar b' \<and> nb_data b' = drop 4 (nb_data b)"
  using nb_pull_ex [OF assms] nb_get_data [OF assms(1)] assms(2)
  by (auto simp: net_buf_simple_pull_le32_def)

lemma pull_be32_data:
  assumes "nb_invar b" and "4 \<le> length (nb_data b)"
  shows "\<exists>b'. net_buf_simple_pull_be32 b = Some (sys_get_be32 (nb_data b), b') \<and> nb_invar b' \<and> nb_data b' = drop 4 (nb_data b)"
  using nb_pull_ex [OF assms] nb_get_data [OF assms(1)] assms(2)
  by (auto simp: net_buf_simple_pull_be32_def bswap_32_get)

text \<open>Saving the parsing state and restoring it later gives back the data, as long as the reader
  in between only moved the front of the buffer.\<close>

lemma nb_restore_save:
  assumes "nb_invar b" and "nb_store b' = nb_store b"
  shows "net_buf_simple_restore b' (net_buf_simple_save b) = b"
  using assms
  by (cases b; cases b')
     (auto simp: net_buf_simple_restore_def net_buf_simple_save_def nb_basic_defs unat_of_nat
        take_bit_nat_eq_self)

end
