(* ===== verification/Mesh_Types.thy ===== *)
theory Mesh_Types
  imports Net_Buf
begin

text \<open>
  The types that several parts of the mesh stack share: the message context of
  include/bluetooth/mesh/access.h, the reception context and the flag word of
  subsys/bluetooth/mesh/net.h, and the deferred-storage scheduler of settings.c that every
  state-changing operation calls. The configuration is that of Project/Beacon/prj.conf and
  Project/Provisioner/prj.conf (\<^verbatim>\<open>CONFIG_BT_SETTINGS=y\<close>) with the Kconfig defaults where these are
  silent.
\<close>

section \<open>Contexts\<close>

definition BT_MESH_KEY_UNUSED :: u16 where "BT_MESH_KEY_UNUSED = 0xffff"
definition BT_MESH_KEY_ANY :: u16 where "BT_MESH_KEY_ANY = 0xffff"
definition BT_MESH_KEY_DEV_LOCAL :: u16 where "BT_MESH_KEY_DEV_LOCAL = 0xfffe"
definition BT_MESH_KEY_DEV_REMOTE :: u16 where "BT_MESH_KEY_DEV_REMOTE = 0xfffd"
definition BT_MESH_KEY_DEV_ANY :: u16 where "BT_MESH_KEY_DEV_ANY = 0xfffc"
definition BT_MESH_KEY_PRIMARY :: u16 where "BT_MESH_KEY_PRIMARY = 0x0000"
definition BT_MESH_TTL_DEFAULT :: u8 where "BT_MESH_TTL_DEFAULT = 0xff"

definition BT_MESH_IS_DEV_KEY :: "u16 \<Rightarrow> bool" where
  "BT_MESH_IS_DEV_KEY key \<longleftrightarrow> key = BT_MESH_KEY_DEV_LOCAL \<or> key = BT_MESH_KEY_DEV_REMOTE"

lemmas mesh_key_defs = BT_MESH_KEY_UNUSED_def BT_MESH_KEY_ANY_def BT_MESH_KEY_DEV_LOCAL_def
  BT_MESH_KEY_DEV_REMOTE_def BT_MESH_KEY_DEV_ANY_def BT_MESH_KEY_PRIMARY_def BT_MESH_IS_DEV_KEY_def

record bt_mesh_msg_ctx =
  ctx_net_idx :: u16
  ctx_app_idx :: u16
  ctx_addr :: u16
  ctx_recv_dst :: u16
  ctx_recv_rssi :: int
  ctx_recv_ttl :: u8
  ctx_send_rel :: bool
  ctx_send_ttl :: u8

datatype bt_mesh_net_if =
  BT_MESH_NET_IF_ADV | BT_MESH_NET_IF_LOCAL | BT_MESH_NET_IF_PROXY | BT_MESH_NET_IF_PROXY_CFG

text \<open>
  The decoding context. The subnet pointer is the index of the subnet's slot; it is \<open>None\<close> before a
  subnet has been found.
\<close>

record bt_mesh_net_rx =
  rx_sub :: "nat option"
  rx_ctx :: bt_mesh_msg_ctx
  rx_seq :: u32
  rx_old_iv :: bool
  rx_new_key :: bool
  rx_friend_cred :: bool
  rx_ctl :: bool
  rx_net_if :: bt_mesh_net_if
  rx_local_match :: bool
  rx_friend_match :: bool
  rx_msg_cache_idx :: u16

definition empty_ctx :: bt_mesh_msg_ctx where
  "empty_ctx = \<lparr>ctx_net_idx = 0, ctx_app_idx = 0, ctx_addr = 0, ctx_recv_dst = 0, ctx_recv_rssi = 0,
     ctx_recv_ttl = 0, ctx_send_rel = False, ctx_send_ttl = 0\<rparr>"

definition empty_rx :: bt_mesh_net_rx where
  "empty_rx = \<lparr>rx_sub = None, rx_ctx = empty_ctx, rx_seq = 0, rx_old_iv = False, rx_new_key = False,
     rx_friend_cred = False, rx_ctl = False, rx_net_if = BT_MESH_NET_IF_ADV, rx_local_match = False,
     rx_friend_match = False, rx_msg_cache_idx = 0\<rparr>"

section \<open>Flags and the deferred store\<close>

datatype mesh_flag =
    BT_MESH_VALID | BT_MESH_SUSPENDED | BT_MESH_IVU_IN_PROGRESS | BT_MESH_IVU_INITIATOR
  | BT_MESH_IVU_TEST | BT_MESH_IVU_PENDING
  | BT_MESH_RPL_PENDING | BT_MESH_KEYS_PENDING | BT_MESH_NET_PENDING | BT_MESH_IV_PENDING
  | BT_MESH_SEQ_PENDING | BT_MESH_HB_PUB_PENDING | BT_MESH_CFG_PENDING | BT_MESH_MOD_PENDING
  | BT_MESH_VA_PENDING
  | BT_MESH_RELAY | BT_MESH_BEACON | BT_MESH_GATT_PROXY | BT_MESH_FRIEND

text \<open>
  \<open>flags\<close> is the atomic bit field \<^verbatim>\<open>bt_mesh.flags\<close>; \<open>pending_store\<close> is the delayed work item of
  settings.c: \<open>None\<close> when it is not scheduled, else the milliseconds until it runs.
\<close>

record mesh_sched =
  flags :: "mesh_flag \<Rightarrow> bool"
  pending_store :: "nat option"

definition set_flag :: "mesh_flag \<Rightarrow> 'a mesh_sched_scheme \<Rightarrow> 'a mesh_sched_scheme" where
  "set_flag f s = s\<lparr>flags := (flags s)(f := True)\<rparr>"

definition set_flag_to :: "mesh_flag \<Rightarrow> bool \<Rightarrow> 'a mesh_sched_scheme \<Rightarrow> 'a mesh_sched_scheme" where
  "set_flag_to f v s = s\<lparr>flags := (flags s)(f := v)\<rparr>"

definition CONFIG_BT_MESH_STORE_TIMEOUT :: nat where "CONFIG_BT_MESH_STORE_TIMEOUT = 2"
definition CONFIG_BT_MESH_RPL_STORE_TIMEOUT :: nat where "CONFIG_BT_MESH_RPL_STORE_TIMEOUT = 120"
definition CONFIG_BT_MESH_SEQ_STORE_RATE :: u32 where "CONFIG_BT_MESH_SEQ_STORE_RATE = 128"

definition NO_WAIT_PENDING_BITS :: "(mesh_flag \<Rightarrow> bool) \<Rightarrow> bool" where
  "NO_WAIT_PENDING_BITS fl \<longleftrightarrow> fl BT_MESH_NET_PENDING \<or> fl BT_MESH_IV_PENDING \<or> fl BT_MESH_SEQ_PENDING"

definition GENERIC_PENDING_BITS :: "(mesh_flag \<Rightarrow> bool) \<Rightarrow> bool" where
  "GENERIC_PENDING_BITS fl \<longleftrightarrow>
     fl BT_MESH_KEYS_PENDING \<or> fl BT_MESH_HB_PUB_PENDING \<or> fl BT_MESH_CFG_PENDING \<or> fl BT_MESH_MOD_PENDING"

definition store_timeout_ms :: "(mesh_flag \<Rightarrow> bool) \<Rightarrow> nat" where
  "store_timeout_ms fl =
     (if NO_WAIT_PENDING_BITS fl then 0
      else if fl BT_MESH_RPL_PENDING \<and>
              (\<not> GENERIC_PENDING_BITS fl \<or> CONFIG_BT_MESH_RPL_STORE_TIMEOUT < CONFIG_BT_MESH_STORE_TIMEOUT)
      then CONFIG_BT_MESH_RPL_STORE_TIMEOUT * 1000
      else CONFIG_BT_MESH_STORE_TIMEOUT * 1000)"

definition remaining_ms :: "'a mesh_sched_scheme \<Rightarrow> nat" where
  "remaining_ms s = (case pending_store s of None \<Rightarrow> 0 | Some t \<Rightarrow> t)"

definition schedule_store :: "mesh_flag \<Rightarrow> 'a mesh_sched_scheme \<Rightarrow> 'a mesh_sched_scheme" where
  "schedule_store flag s0 =
     (let s = set_flag flag s0; timeout_ms = store_timeout_ms (flags s); remaining = remaining_ms s in
      if remaining > 0 \<and> remaining < timeout_ms then s
      else s\<lparr>pending_store := Some timeout_ms\<rparr>)"

definition bt_mesh_store_net :: "'a mesh_sched_scheme \<Rightarrow> 'a mesh_sched_scheme" where
  "bt_mesh_store_net s = schedule_store BT_MESH_NET_PENDING s"

definition bt_mesh_store_iv :: "bool \<Rightarrow> 'a mesh_sched_scheme \<Rightarrow> 'a mesh_sched_scheme" where
  "bt_mesh_store_iv only_duration s =
     (let s = schedule_store BT_MESH_IV_PENDING s in
      if \<not> only_duration then schedule_store BT_MESH_SEQ_PENDING s else s)"

definition bt_mesh_store_seq :: "u32 \<Rightarrow> 'a mesh_sched_scheme \<Rightarrow> 'a mesh_sched_scheme" where
  "bt_mesh_store_seq sq s =
     (if CONFIG_BT_MESH_SEQ_STORE_RATE \<noteq> 0 \<and> sq mod CONFIG_BT_MESH_SEQ_STORE_RATE \<noteq> 0 then s
      else schedule_store BT_MESH_SEQ_PENDING s)"

definition bt_mesh_store_hb_pub :: "'a mesh_sched_scheme \<Rightarrow> 'a mesh_sched_scheme" where
  "bt_mesh_store_hb_pub s = schedule_store BT_MESH_HB_PUB_PENDING s"

definition bt_mesh_store_cfg :: "'a mesh_sched_scheme \<Rightarrow> 'a mesh_sched_scheme" where
  "bt_mesh_store_cfg s = schedule_store BT_MESH_CFG_PENDING s"

definition bt_mesh_store_label :: "'a mesh_sched_scheme \<Rightarrow> 'a mesh_sched_scheme" where
  "bt_mesh_store_label s = schedule_store BT_MESH_VA_PENDING s"

definition bt_mesh_clear_net :: "'a mesh_sched_scheme \<Rightarrow> 'a mesh_sched_scheme" where
  "bt_mesh_clear_net s =
     schedule_store BT_MESH_CFG_PENDING (schedule_store BT_MESH_IV_PENDING (schedule_store BT_MESH_NET_PENDING s))"

lemmas sched_defs = schedule_store_def set_flag_def set_flag_to_def remaining_ms_def store_timeout_ms_def
  NO_WAIT_PENDING_BITS_def GENERIC_PENDING_BITS_def CONFIG_BT_MESH_STORE_TIMEOUT_def
  CONFIG_BT_MESH_RPL_STORE_TIMEOUT_def

section \<open>What scheduling guarantees\<close>

text \<open>Scheduling a store sets the flag it was asked for, clears none, touches nothing else, and leaves the
  work item scheduled no later than the timeout that the flag word asks for.\<close>

lemma schedule_store_flags: "flags (schedule_store f s) = (flags s)(f := True)"
  by (simp add: schedule_store_def set_flag_def Let_def)

lemma schedule_store_more [simp]: "mesh_sched.more (schedule_store f s) = mesh_sched.more s"
  by (simp add: schedule_store_def set_flag_def Let_def)

lemma schedule_store_deadline:
  "\<exists>t. pending_store (schedule_store f s) = Some t \<and> t \<le> store_timeout_ms ((flags s)(f := True))"
proof -
  let ?T = "store_timeout_ms ((flags s)(f := True))"
  show ?thesis
  proof (cases "remaining_ms s > 0 \<and> remaining_ms s < ?T")
    case True
    then obtain t where "pending_store s = Some t" "t < ?T"
      by (auto simp: remaining_ms_def split: option.splits)
    with True show ?thesis by (auto simp: schedule_store_def set_flag_def Let_def remaining_ms_def)
  next
    case False
    then show ?thesis by (auto simp: schedule_store_def set_flag_def Let_def remaining_ms_def)
  qed
qed

lemma schedule_store_never_later:
  assumes "pending_store s = Some t" and "0 < t" and "pending_store (schedule_store f s) = Some t'"
  shows "t' \<le> t"
  using assms by (auto simp: schedule_store_def set_flag_def Let_def remaining_ms_def split: if_splits)

end
