(* ===== verification/Rpl.thy ===== *)
theory Rpl
  imports Mesh_Types
begin

text \<open>
  The Replay Protection List of subsys/bluetooth/mesh/rpl.c: an array of \<^verbatim>\<open>CONFIG_BT_MESH_CRPL\<close> slots,
  one per source address, that remembers the last sequence number accepted from it and whether it
  was sent under the previous IV index. A pointer to a slot is its index.

  The lemmas relate the scan of the array to the order \<open>fresher\<close> on messages (IV generation first,
  then sequence number) and show for which lists the scan is the intended check (\<open>rpl_wf\<close>: the used
  slots are a prefix of the array and no source has two slots).
\<close>

record bt_mesh_rpl =
  rpl_src :: u16
  rpl_old_iv :: bool
  rpl_store :: bool
  rpl_seq :: u32

record rpl_state = mesh_sched +
  replay_list :: "bt_mesh_rpl list"

definition rpl_zero :: bt_mesh_rpl where
  "rpl_zero = \<lparr>rpl_src = 0, rpl_old_iv = False, rpl_store = False, rpl_seq = 0\<rparr>"

section \<open>Operations\<close>

text \<open>settings.c \<^verbatim>\<open>bt_mesh_store_rpl\<close> on the slot \<open>i\<close>, and \<^verbatim>\<open>bt_mesh_clear_rpl\<close>.\<close>

definition bt_mesh_store_rpl :: "nat \<Rightarrow> 'a rpl_state_scheme \<Rightarrow> 'a rpl_state_scheme" where
  "bt_mesh_store_rpl i s =
     schedule_store BT_MESH_RPL_PENDING
       (s\<lparr>replay_list := (replay_list s)[i := (replay_list s ! i)\<lparr>rpl_store := True\<rparr>]\<rparr>)"

definition bt_mesh_clear_rpl :: "'a rpl_state_scheme \<Rightarrow> 'a rpl_state_scheme" where
  "bt_mesh_clear_rpl s = schedule_store BT_MESH_RPL_PENDING s"

definition bt_mesh_rpl_update :: "nat \<Rightarrow> bt_mesh_net_rx \<Rightarrow> 'a rpl_state_scheme \<Rightarrow> 'a rpl_state_scheme" where
  "bt_mesh_rpl_update i rx s =
     bt_mesh_store_rpl i
       (s\<lparr>replay_list := (replay_list s)[i := (replay_list s ! i)
            \<lparr>rpl_src := ctx_addr (rx_ctx rx), rpl_seq := rx_seq rx, rpl_old_iv := rx_old_iv rx\<rparr>]\<rparr>)"

text \<open>
  The loop of \<^verbatim>\<open>bt_mesh_rpl_check\<close>: the message is a replay, or it may take the slot \<open>i\<close>. Falling
  out of the loop ("RPL is full!") is a replay as well.
\<close>

datatype rpl_verdict = Rpl_Replay | Rpl_Accept nat

primrec rpl_scan :: "bt_mesh_net_rx \<Rightarrow> bt_mesh_rpl list \<Rightarrow> nat \<Rightarrow> rpl_verdict" where
  "rpl_scan rx [] i = Rpl_Replay"
| "rpl_scan rx (rpl # rest) i =
     (if rpl_src rpl = 0 then Rpl_Accept i
      else if rpl_src rpl = ctx_addr (rx_ctx rx) then
        (if rx_old_iv rx \<and> \<not> rpl_old_iv rpl then Rpl_Replay
         else if (\<not> rx_old_iv rx \<and> rpl_old_iv rpl) \<or> rpl_seq rpl < rx_seq rx then Rpl_Accept i
         else Rpl_Replay)
      else rpl_scan rx rest (Suc i))"

text \<open>
  \<open>want_match\<close> says whether the caller passed a non-NULL \<^verbatim>\<open>match\<close>. The result is the returned bool,
  the slot stored through \<^verbatim>\<open>match\<close> and the new state.
\<close>

definition bt_mesh_rpl_check ::
  "bt_mesh_net_rx \<Rightarrow> bool \<Rightarrow> 'a rpl_state_scheme \<Rightarrow> bool \<times> nat option \<times> 'a rpl_state_scheme" where
  "bt_mesh_rpl_check rx want_match s =
     (if rx_net_if rx = BT_MESH_NET_IF_LOCAL then (False, None, s)
      else if \<not> rx_local_match rx then (False, None, s)
      else case rpl_scan rx (replay_list s) 0 of
             Rpl_Replay \<Rightarrow> (True, None, s)
           | Rpl_Accept i \<Rightarrow> (if want_match then (False, Some i, s)
                             else (False, None, bt_mesh_rpl_update i rx s)))"

definition bt_mesh_rpl_clear :: "'a rpl_state_scheme \<Rightarrow> 'a rpl_state_scheme" where
  "bt_mesh_rpl_clear s = bt_mesh_clear_rpl s"

definition bt_mesh_rpl_find :: "u16 \<Rightarrow> 'a rpl_state_scheme \<Rightarrow> nat option" where
  "bt_mesh_rpl_find src s = find_idx (\<lambda>r. rpl_src r = src) (replay_list s)"

definition bt_mesh_rpl_alloc :: "u16 \<Rightarrow> 'a rpl_state_scheme \<Rightarrow> nat option \<times> 'a rpl_state_scheme" where
  "bt_mesh_rpl_alloc src s =
     (case find_idx (\<lambda>r. rpl_src r = 0) (replay_list s) of
        None \<Rightarrow> (None, s)
      | Some i \<Rightarrow> (Some i, s\<lparr>replay_list := (replay_list s)[i := (replay_list s ! i)\<lparr>rpl_src := src\<rparr>]\<rparr>))"

definition rpl_reset_entry :: "bt_mesh_rpl \<Rightarrow> bt_mesh_rpl" where
  "rpl_reset_entry rpl = (if rpl_old_iv rpl then rpl_zero else rpl\<lparr>rpl_old_iv := True\<rparr>)"

text \<open>The loop of \<^verbatim>\<open>bt_mesh_rpl_reset\<close> over the slots \<open>i, ..., i + n - 1\<close>.\<close>

primrec rpl_reset_loop :: "nat \<Rightarrow> nat \<Rightarrow> 'a rpl_state_scheme \<Rightarrow> 'a rpl_state_scheme" where
  "rpl_reset_loop 0 i s = s"
| "rpl_reset_loop (Suc n) i s =
     rpl_reset_loop n (Suc i)
       (if rpl_src (replay_list s ! i) \<noteq> 0
        then bt_mesh_store_rpl i (s\<lparr>replay_list := (replay_list s)[i := rpl_reset_entry (replay_list s ! i)]\<rparr>)
        else s)"

definition bt_mesh_rpl_reset :: "'a rpl_state_scheme \<Rightarrow> 'a rpl_state_scheme" where
  "bt_mesh_rpl_reset s = rpl_reset_loop (length (replay_list s)) 0 s"

text \<open>settings.c \<^verbatim>\<open>clear_rpl\<close>, which \<^verbatim>\<open>store_pending\<close> runs on every slot once the node is not provisioned.\<close>

definition clear_rpl :: "bt_mesh_rpl \<Rightarrow> bt_mesh_rpl" where
  "clear_rpl rpl = (if rpl_src rpl = 0 then rpl else rpl_zero)"

section \<open>Well-formed lists\<close>

text \<open>The used slots form a prefix of the array, and no source address has two of them.\<close>

fun rpl_wf :: "bt_mesh_rpl list \<Rightarrow> bool" where
  "rpl_wf [] = True"
| "rpl_wf (r # rs) =
     (if rpl_src r = 0 then (\<forall>x \<in> set rs. rpl_src x = 0)
      else (\<forall>x \<in> set rs. rpl_src x \<noteq> rpl_src r) \<and> rpl_wf rs)"

text \<open>What the list knows about a source: the slot that holds it.\<close>

definition rpl_lookup :: "bt_mesh_rpl list \<Rightarrow> u16 \<Rightarrow> bt_mesh_rpl option" where
  "rpl_lookup rs a = find (\<lambda>r. rpl_src r = a) rs"

text \<open>A message is fresher than what the list remembers when it was sent under a newer IV index, or under
  the same one with a larger sequence number.\<close>

definition fresher :: "bt_mesh_net_rx \<Rightarrow> bt_mesh_rpl \<Rightarrow> bool" where
  "fresher rx r \<longleftrightarrow> (\<not> rx_old_iv rx \<and> rpl_old_iv r) \<or> (rx_old_iv rx = rpl_old_iv r \<and> rpl_seq r < rx_seq rx)"

lemma rpl_scan_shift: "rpl_scan rx rs (Suc i) = (case rpl_scan rx rs i of Rpl_Replay \<Rightarrow> Rpl_Replay | Rpl_Accept j \<Rightarrow> Rpl_Accept (Suc j))"
  by (induction rs arbitrary: i) auto

lemma rpl_scan_verdict:
  assumes "rpl_wf rs" and "ctx_addr (rx_ctx rx) \<noteq> 0"
  shows "rpl_scan rx rs 0 = Rpl_Replay \<longleftrightarrow>
    (case rpl_lookup rs (ctx_addr (rx_ctx rx)) of
       Some r \<Rightarrow> \<not> fresher rx r
     | None \<Rightarrow> \<forall>r \<in> set rs. rpl_src r \<noteq> 0)"
  using assms
proof (induction rs)
  case Nil
  then show ?case by (simp add: rpl_lookup_def)
next
  case (Cons r rs)
  show ?case
  proof (cases "rpl_src r = 0")
    case True
    with Cons.prems have "find (\<lambda>x. rpl_src x = ctx_addr (rx_ctx rx)) rs = None"
      by (auto simp: find_None_iff)
    with True Cons.prems show ?thesis by (simp add: rpl_lookup_def)
  next
    case nz: False
    show ?thesis
    proof (cases "rpl_src r = ctx_addr (rx_ctx rx)")
      case True
      with nz show ?thesis by (auto simp: rpl_lookup_def fresher_def)
    next
      case False
      with nz Cons.prems Cons.IH show ?thesis
        by (cases "rpl_scan rx rs 0") (auto simp: rpl_lookup_def rpl_scan_shift split: option.splits)
    qed
  qed
qed

lemma rpl_scan_accept:
  assumes "rpl_scan rx rs 0 = Rpl_Accept i"
  shows "i < length rs \<and> (rpl_src (rs ! i) = 0 \<or> rpl_src (rs ! i) = ctx_addr (rx_ctx rx) \<and> fresher rx (rs ! i))
    \<and> (\<forall>j < i. rpl_src (rs ! j) \<noteq> 0 \<and> rpl_src (rs ! j) \<noteq> ctx_addr (rx_ctx rx))"
  using assms
proof (induction rs arbitrary: i)
  case Nil
  then show ?case by simp
next
  case (Cons r rs)
  show ?case
  proof (cases "rpl_src r = 0 \<or> rpl_src r = ctx_addr (rx_ctx rx)")
    case True
    with Cons.prems show ?thesis by (auto simp: fresher_def split: if_splits)
  next
    case False
    with Cons.prems obtain j where j: "rpl_scan rx rs 0 = Rpl_Accept j" "i = Suc j"
      by (auto simp: rpl_scan_shift split: rpl_verdict.splits)
    from Cons.IH [OF j(1)] False j(2) show ?thesis
      by (auto simp: nth_Cons split: nat.splits)
  qed
qed

section \<open>Updating\<close>

lemma schedule_store_replay_list [simp]: "replay_list (schedule_store f s) = replay_list s"
  by (simp add: schedule_store_def set_flag_def Let_def)

lemma store_rpl_list:
  "replay_list (bt_mesh_store_rpl i s) = (replay_list s)[i := (replay_list s ! i)\<lparr>rpl_store := True\<rparr>]"
  by (simp add: bt_mesh_store_rpl_def)

definition rpl_entry_of :: "bt_mesh_net_rx \<Rightarrow> bt_mesh_rpl" where
  "rpl_entry_of rx = \<lparr>rpl_src = ctx_addr (rx_ctx rx), rpl_old_iv = rx_old_iv rx, rpl_store = True,
                      rpl_seq = rx_seq rx\<rparr>"

lemma rpl_entry_of_sel [simp]:
  "rpl_src (rpl_entry_of rx) = ctx_addr (rx_ctx rx)" "rpl_old_iv (rpl_entry_of rx) = rx_old_iv rx"
  "rpl_seq (rpl_entry_of rx) = rx_seq rx"
  by (simp_all add: rpl_entry_of_def)

lemma rpl_update_list:
  assumes "i < length (replay_list s)"
  shows "replay_list (bt_mesh_rpl_update i rx s) = (replay_list s)[i := rpl_entry_of rx]"
proof -
  have r: "r\<lparr>rpl_src := a, rpl_seq := b, rpl_old_iv := c, rpl_store := True\<rparr> =
        \<lparr>rpl_src = a, rpl_old_iv = c, rpl_store = True, rpl_seq = b\<rparr>" for r :: bt_mesh_rpl and a b c
    by (cases r) simp
  show ?thesis using assms
    by (simp add: bt_mesh_rpl_update_def store_rpl_list rpl_entry_of_def r)
qed

lemma rpl_lookup_nz_append:
  "a \<noteq> 0 \<Longrightarrow> \<forall>x \<in> set rs. rpl_src x = 0 \<Longrightarrow> rpl_lookup rs a = None"
  by (auto simp: rpl_lookup_def find_None_iff)

text \<open>Storing an accepted message in the slot the scan found makes the list remember exactly that message
  for its source, changes nothing for the other sources, and keeps the list well-formed.\<close>

lemma rpl_accept_update:
  assumes "rpl_wf rs" and "ctx_addr (rx_ctx rx) \<noteq> 0" and "rpl_scan rx rs 0 = Rpl_Accept i"
  shows "rpl_wf (rs[i := rpl_entry_of rx]) \<and>
    (\<forall>a. a \<noteq> 0 \<longrightarrow> rpl_lookup (rs[i := rpl_entry_of rx]) a =
          (if a = ctx_addr (rx_ctx rx) then Some (rpl_entry_of rx) else rpl_lookup rs a))"
  using assms
proof (induction rs arbitrary: i)
  case Nil
  then show ?case by simp
next
  case (Cons r rs)
  show ?case
  proof (cases "rpl_src r = 0 \<or> rpl_src r = ctx_addr (rx_ctx rx)")
    case True
    with Cons.prems have i: "i = 0" by (auto split: if_splits)
    have zero: "rpl_wf rs" if "\<forall>x \<in> set rs. rpl_src x = 0" using that by (cases rs) auto
    from True Cons.prems zero show ?thesis
      by (auto simp: i rpl_lookup_def rpl_entry_of_def find_None_iff)
  next
    case False
    with Cons.prems obtain j where j: "rpl_scan rx rs 0 = Rpl_Accept j" "i = Suc j"
      by (auto simp: rpl_scan_shift split: rpl_verdict.splits)
    from rpl_scan_accept [OF j(1)] have jl: "j < length rs" by simp
    have "rpl_wf rs" using False Cons.prems by simp
    from Cons.IH [OF this Cons.prems(2) j(1)] False Cons.prems(1) j(2) show ?thesis
      by (auto simp: rpl_lookup_def dest!: set_update_subset_insert [THEN subsetD])
  qed
qed

section \<open>Replay protection as a contract\<close>

text \<open>
  What the transport layer relies on. A filter remembers for each source the key of the newest message it
  let through; it lets a message through only when its key is larger, and then remembers that key.
\<close>

locale replay_filter =
  fixes known :: "'s \<Rightarrow> 'a \<Rightarrow> nat option"
    and invar :: "'s \<Rightarrow> bool"
    and ok :: "'m \<Rightarrow> bool"
    and source :: "'m \<Rightarrow> 'a"
    and key :: "'m \<Rightarrow> nat"
    and accept :: "'m \<Rightarrow> 's \<Rightarrow> 's option"
  assumes accept_fresh:
      "invar s \<Longrightarrow> ok m \<Longrightarrow> accept m s = Some s' \<Longrightarrow> known s (source m) = Some k \<Longrightarrow> k < key m"
    and accept_invar: "invar s \<Longrightarrow> ok m \<Longrightarrow> accept m s = Some s' \<Longrightarrow> invar s'"
    and accept_known:
      "invar s \<Longrightarrow> ok m \<Longrightarrow> accept m s = Some s' \<Longrightarrow> known s' (source m) = Some (key m)"
    and accept_other:
      "invar s \<Longrightarrow> ok m \<Longrightarrow> accept m s = Some s' \<Longrightarrow> ok n \<Longrightarrow> source n \<noteq> source m \<Longrightarrow>
       known s' (source n) = known s (source n)"
begin

text \<open>The messages of a sequence that are let through, in order.\<close>

primrec passed :: "'m list \<Rightarrow> 's \<Rightarrow> 'm list" where
  "passed [] s = []"
| "passed (m # ms) s = (case accept m s of None \<Rightarrow> passed ms s | Some s' \<Rightarrow> m # passed ms s')"

lemma passed_newer:
  assumes "invar s" and "\<forall>m \<in> set ms. ok m" and "n \<in> set (passed ms s)"
    and "known s (source n) = Some k"
  shows "k < key n"
  using assms
proof (induction ms arbitrary: s k)
  case Nil
  then show ?case by simp
next
  case (Cons m ms)
  have okm: "ok m" and oks: "\<forall>m \<in> set ms. ok m" using Cons.prems(2) by auto
  have sub: "set (passed ms s) \<subseteq> set ms" for ms s
    by (induction ms arbitrary: s) (auto split: option.splits)
  show ?case
  proof (cases "accept m s")
    case None
    with Cons.IH [OF Cons.prems(1) oks _ Cons.prems(4)] Cons.prems(3) show ?thesis by simp
  next
    case (Some s')
    note inv' = accept_invar [OF Cons.prems(1) okm Some]
    show ?thesis
    proof (cases "n = m")
      case True
      with accept_fresh [OF Cons.prems(1) okm Some] Cons.prems(4) show ?thesis by simp
    next
      case False
      with Some Cons.prems(3) have n: "n \<in> set (passed ms s')" by simp
      show ?thesis
      proof (cases "source n = source m")
        case True
        with accept_known [OF Cons.prems(1) okm Some] have "known s' (source n) = Some (key m)" by simp
        from Cons.IH [OF inv' oks n this] accept_fresh [OF Cons.prems(1) okm Some] True Cons.prems(4)
        show ?thesis by (metis order.strict_trans)
      next
        case False
        moreover have "ok n" using n sub oks by blast
        ultimately have "known s' (source n) = Some k"
          using accept_other [OF Cons.prems(1) okm Some] Cons.prems(4) by simp
        from Cons.IH [OF inv' oks n this] show ?thesis .
      qed
    qed
  qed
qed

lemma passed_increasing:
  assumes "invar s" and "\<forall>m \<in> set ms. ok m"
  shows "sorted_wrt (\<lambda>m n. source m = source n \<longrightarrow> key m < key n) (passed ms s)"
  using assms
proof (induction ms arbitrary: s)
  case Nil
  then show ?case by simp
next
  case (Cons m ms)
  have okm: "ok m" and oks: "\<forall>m \<in> set ms. ok m" using Cons.prems(2) by auto
  show ?case
  proof (cases "accept m s")
    case None
    with Cons.IH [OF Cons.prems(1) oks] show ?thesis by simp
  next
    case (Some s')
    note inv' = accept_invar [OF Cons.prems(1) okm Some]
    have "key m < key n" if "n \<in> set (passed ms s')" "source m = source n" for n
      using passed_newer [OF inv' oks that(1)] accept_known [OF Cons.prems(1) okm Some] that(2) by simp
    with Some Cons.IH [OF inv' oks] show ?thesis by simp
  qed
qed

text \<open>In particular no message is let through twice.\<close>

lemma passed_no_repeat:
  assumes "invar s" and "ok m" and "accept m s = Some s'"
  shows "accept m s' = None"
proof (rule ccontr)
  assume "accept m s' \<noteq> None"
  then obtain s'' where "accept m s' = Some s''" by auto
  from accept_fresh [OF accept_invar [OF assms] assms(2) this accept_known [OF assms]]
  show False by simp
qed

end

section \<open>The list implements the contract\<close>

definition rpl_key :: "bool \<Rightarrow> u32 \<Rightarrow> nat" where
  "rpl_key old sq = (if old then 0 else 2 ^ 32) + unat sq"

lemma fresher_key: "fresher rx r \<longleftrightarrow> rpl_key (rpl_old_iv r) (rpl_seq r) < rpl_key (rx_old_iv rx) (rx_seq rx)"
proof -
  have "unat (rpl_seq r) < 2 ^ 32" "unat (rx_seq rx) < 2 ^ 32" using unat_lt_pow [of "rpl_seq r"] unat_lt_pow [of "rx_seq rx"] by simp_all
  then show ?thesis by (auto simp: fresher_def rpl_key_def word_less_nat_alt)
qed

text \<open>The messages the list is consulted for: received from another node, for a local element.\<close>

definition rpl_checked :: "bt_mesh_net_rx \<Rightarrow> bool" where
  "rpl_checked rx \<longleftrightarrow> rx_net_if rx \<noteq> BT_MESH_NET_IF_LOCAL \<and> rx_local_match rx \<and> ctx_addr (rx_ctx rx) \<noteq> 0"

definition rpl_accept :: "bt_mesh_net_rx \<Rightarrow> 'a rpl_state_scheme \<Rightarrow> 'a rpl_state_scheme option" where
  "rpl_accept rx s = (case bt_mesh_rpl_check rx False s of (rej, _, s') \<Rightarrow> if rej then None else Some s')"

definition rpl_known :: "'a rpl_state_scheme \<Rightarrow> u16 \<Rightarrow> nat option" where
  "rpl_known s a = map_option (\<lambda>r. rpl_key (rpl_old_iv r) (rpl_seq r)) (rpl_lookup (replay_list s) a)"

lemma rpl_accept_Some:
  assumes "rpl_wf (replay_list s)" and "rpl_checked rx" and "rpl_accept rx s = Some s'"
  shows "\<exists>i. rpl_scan rx (replay_list s) 0 = Rpl_Accept i
           \<and> replay_list s' = (replay_list s)[i := rpl_entry_of rx]"
proof -
  from assms obtain i where i: "rpl_scan rx (replay_list s) 0 = Rpl_Accept i" "s' = bt_mesh_rpl_update i rx s"
    by (auto simp: rpl_accept_def bt_mesh_rpl_check_def rpl_checked_def split: rpl_verdict.splits if_splits)
  with rpl_scan_accept [OF i(1)] show ?thesis by (auto simp: rpl_update_list)
qed

lemma rpl_accept_fresher:
  assumes "rpl_wf (replay_list s)" and "rpl_checked rx" and "rpl_accept rx s = Some s'"
    and "rpl_lookup (replay_list s) (ctx_addr (rx_ctx rx)) = Some r"
  shows "fresher rx r"
proof -
  from rpl_accept_Some [OF assms(1-3)] have "rpl_scan rx (replay_list s) 0 \<noteq> Rpl_Replay" by auto
  with rpl_scan_verdict [OF assms(1), of rx] assms(2,4) show ?thesis by (auto simp: rpl_checked_def)
qed

interpretation rpl: replay_filter rpl_known "\<lambda>s. rpl_wf (replay_list s)" rpl_checked
  "\<lambda>rx. ctx_addr (rx_ctx rx)" "\<lambda>rx. rpl_key (rx_old_iv rx) (rx_seq rx)" rpl_accept
proof unfold_locales
  fix s :: "'a rpl_state_scheme" and rx s' k
  assume a: "rpl_wf (replay_list s)" "rpl_checked rx" "rpl_accept rx s = Some s'"
  from rpl_accept_Some [OF a] obtain i where
    i: "rpl_scan rx (replay_list s) 0 = Rpl_Accept i" "replay_list s' = (replay_list s)[i := rpl_entry_of rx]"
    by blast
  have nz: "ctx_addr (rx_ctx rx) \<noteq> 0" using a(2) by (simp add: rpl_checked_def)
  note upd = rpl_accept_update [OF a(1) nz i(1)]
  show "rpl_wf (replay_list s')" using upd i(2) by simp
  show "rpl_known s' (ctx_addr (rx_ctx rx)) = Some (rpl_key (rx_old_iv rx) (rx_seq rx))"
    using upd i(2) nz by (simp add: rpl_known_def)
  show "k < rpl_key (rx_old_iv rx) (rx_seq rx)" if "rpl_known s (ctx_addr (rx_ctx rx)) = Some k"
    using that rpl_accept_fresher [OF a] by (auto simp: rpl_known_def fresher_key)
  show "rpl_known s' (ctx_addr (rx_ctx n)) = rpl_known s (ctx_addr (rx_ctx n))"
    if "rpl_checked n" "ctx_addr (rx_ctx n) \<noteq> ctx_addr (rx_ctx rx)" for n
    using that upd i(2) by (simp add: rpl_known_def rpl_checked_def)
qed

section \<open>The IV update and the list\<close>

text \<open>\<^verbatim>\<open>bt_mesh_rpl_reset\<close> treats every slot on its own.\<close>

definition rpl_reset_slot :: "bt_mesh_rpl \<Rightarrow> bt_mesh_rpl" where
  "rpl_reset_slot r = (if rpl_src r \<noteq> 0 then (rpl_reset_entry r)\<lparr>rpl_store := True\<rparr> else r)"

lemma rpl_reset_loop_list:
  "i + n \<le> length (replay_list s) \<Longrightarrow>
   replay_list (rpl_reset_loop n i s) =
     take i (replay_list s) @ map rpl_reset_slot (take n (drop i (replay_list s))) @ drop (i + n) (replay_list s)"
proof (induction n arbitrary: i s)
  case 0
  then show ?case by simp
next
  case (Suc n)
  let ?s = "if rpl_src (replay_list s ! i) \<noteq> 0
        then bt_mesh_store_rpl i (s\<lparr>replay_list := (replay_list s)[i := rpl_reset_entry (replay_list s ! i)]\<rparr>)
        else s"
  have i: "i < length (replay_list s)" using Suc.prems by simp
  have l: "replay_list ?s = (replay_list s)[i := rpl_reset_slot (replay_list s ! i)]"
    using i by (simp add: store_rpl_list rpl_reset_slot_def)
  have "replay_list (rpl_reset_loop (Suc n) i s) = replay_list (rpl_reset_loop n (Suc i) ?s)" by simp
  also have "\<dots> = take (Suc i) (replay_list ?s) @ map rpl_reset_slot (take n (drop (Suc i) (replay_list ?s)))
                   @ drop (Suc i + n) (replay_list ?s)"
    by (rule Suc.IH) (use Suc.prems l in simp)
  also have "\<dots> = take i (replay_list s) @ map rpl_reset_slot (take (Suc n) (drop i (replay_list s)))
                   @ drop (i + Suc n) (replay_list s)"
    unfolding l using i by (simp add: take_Suc_conv_app_nth Cons_nth_drop_Suc [symmetric])
  finally show ?case .
qed

lemma rpl_reset_list: "replay_list (bt_mesh_rpl_reset s) = map rpl_reset_slot (replay_list s)"
  by (simp add: bt_mesh_rpl_reset_def rpl_reset_loop_list)

lemma rpl_reset_wf:
  assumes "rpl_wf rs" and "\<forall>r \<in> set rs. rpl_src r \<noteq> 0 \<longrightarrow> \<not> rpl_old_iv r"
  shows "rpl_wf (map rpl_reset_slot rs)"
  using assms by (induction rs) (auto simp: rpl_reset_slot_def rpl_reset_entry_def)

lemma rpl_reset_lookup:
  assumes "a \<noteq> 0" and "\<forall>r \<in> set rs. rpl_src r \<noteq> 0 \<longrightarrow> \<not> rpl_old_iv r"
  shows "rpl_lookup (map rpl_reset_slot rs) a = map_option rpl_reset_slot (rpl_lookup rs a)"
  using assms by (induction rs) (auto simp: rpl_lookup_def rpl_reset_slot_def rpl_reset_entry_def)

section \<open>Properties\<close>

text \<open>A sequence of received messages checked one after the other, and those that are not rejected.\<close>

primrec rpl_run :: "bt_mesh_net_rx list \<Rightarrow> 'a rpl_state_scheme \<Rightarrow> bt_mesh_net_rx list" where
  "rpl_run [] s = []"
| "rpl_run (rx # rxs) s =
     (case bt_mesh_rpl_check rx False s of (rej, _, s') \<Rightarrow> if rej then rpl_run rxs s' else rx # rpl_run rxs s')"

lemma rpl_check_rejected_state: "bt_mesh_rpl_check rx False s = (True, m, s') \<Longrightarrow> s' = s"
  by (auto simp: bt_mesh_rpl_check_def split: if_splits rpl_verdict.splits)

lemma rpl_run_passed: "rpl_run rxs s = rpl.passed rxs s"
proof (induction rxs arbitrary: s)
  case Nil
  then show ?case by simp
next
  case (Cons rx rxs)
  obtain rej m s' where c: "bt_mesh_rpl_check rx False s = (rej, m, s')" by (metis prod_cases3)
  then have "rpl_accept rx s = (if rej then None else Some s')" by (simp add: rpl_accept_def)
  with c Cons rpl_check_rejected_state [of rx s m s'] show ?case by (cases rej) simp_all
qed

lemma rpl_check_iff:
  assumes "rpl_wf (replay_list s)" and "rpl_checked rx"
  shows "fst (bt_mesh_rpl_check rx want s) \<longleftrightarrow>
    (case rpl_lookup (replay_list s) (ctx_addr (rx_ctx rx)) of
       Some r \<Rightarrow> \<not> fresher rx r
     | None \<Rightarrow> \<forall>r \<in> set (replay_list s). rpl_src r \<noteq> 0)"
proof -
  have "fst (bt_mesh_rpl_check rx want s) \<longleftrightarrow> rpl_scan rx (replay_list s) 0 = Rpl_Replay"
    using assms(2) by (auto simp: bt_mesh_rpl_check_def rpl_checked_def split: rpl_verdict.splits)
  with rpl_scan_verdict [OF assms(1), of rx] assms(2) show ?thesis by (simp add: rpl_checked_def)
qed

text \<open>Concrete states and messages for the witnesses.\<close>

definition rpl_example :: "bt_mesh_rpl list \<Rightarrow> rpl_state" where
  "rpl_example rs = \<lparr>flags = (\<lambda>_. False), pending_store = None, replay_list = rs\<rparr>"

definition rx_example :: "u16 \<Rightarrow> u32 \<Rightarrow> bool \<Rightarrow> bt_mesh_net_rx" where
  "rx_example addr sq old = empty_rx\<lparr>rx_ctx := empty_ctx\<lparr>ctx_addr := addr\<rparr>, rx_seq := sq, rx_old_iv := old,
     rx_local_match := True\<rparr>"

text \<open>C1: replay protection. Whatever sequence of messages for local elements is received, the ones that
  \<^verbatim>\<open>bt_mesh_rpl_check\<close> lets through from any one source carry strictly increasing keys (newer IV index
  first, then larger sequence number), as long as the list starts well-formed.\<close>

theorem rpl_run_increasing:
  assumes "rpl_wf (replay_list s)" and "\<forall>rx \<in> set rxs. rpl_checked rx"
  shows "sorted_wrt (\<lambda>m n. ctx_addr (rx_ctx m) = ctx_addr (rx_ctx n) \<longrightarrow>
           rpl_key (rx_old_iv m) (rx_seq m) < rpl_key (rx_old_iv n) (rx_seq n)) (rpl_run rxs s)"
  unfolding rpl_run_passed by (rule rpl.passed_increasing [OF assms])

text \<open>C2: the verdict of \<^verbatim>\<open>bt_mesh_rpl_check\<close> on a well-formed list: a message is rejected exactly when its
  source has a slot that is at least as new, or has no slot and the list is full.\<close>

theorem rpl_check_verdict:
  assumes "rpl_wf (replay_list s)" and "rpl_checked rx"
  shows "fst (bt_mesh_rpl_check rx want s) \<longleftrightarrow>
    (case rpl_lookup (replay_list s) (ctx_addr (rx_ctx rx)) of
       Some r \<Rightarrow> \<not> fresher rx r
     | None \<Rightarrow> \<forall>r \<in> set (replay_list s). rpl_src r \<noteq> 0)"
  by (rule rpl_check_iff [OF assms])

text \<open>C3: an IV update keeps the protection when every slot in use is of the current IV index: the slots
  stay a prefix, and a message that was rejected before the update is still rejected after it, when its
  IV index has become the old one.\<close>

theorem rpl_reset_keeps_protection:
  assumes "rpl_wf (replay_list s)" and "\<forall>r \<in> set (replay_list s). rpl_src r \<noteq> 0 \<longrightarrow> \<not> rpl_old_iv r"
    and "rpl_checked rx" and "\<not> rx_old_iv rx" and "rpl_accept rx s = None"
  shows "rpl_wf (replay_list (bt_mesh_rpl_reset s)) \<and>
         rpl_accept (rx\<lparr>rx_old_iv := True\<rparr>) (bt_mesh_rpl_reset s) = None"
proof -
  let ?rx = "rx\<lparr>rx_old_iv := True\<rparr>" and ?s = "bt_mesh_rpl_reset s"
  have wf: "rpl_wf (replay_list ?s)" unfolding rpl_reset_list by (rule rpl_reset_wf [OF assms(1,2)])
  have ck: "rpl_checked ?rx" using assms(3) by (simp add: rpl_checked_def)
  have nz: "ctx_addr (rx_ctx rx) \<noteq> 0" using assms(3) by (simp add: rpl_checked_def)
  have rej: "fst (bt_mesh_rpl_check rx False s)"
    using assms(5) by (auto simp: rpl_accept_def split: prod.splits if_splits)
  have "fst (bt_mesh_rpl_check ?rx False ?s)"
  proof (cases "rpl_lookup (replay_list s) (ctx_addr (rx_ctx rx))")
    case None
    with rej rpl_check_iff [OF assms(1,3)] have "\<forall>r \<in> set (replay_list s). rpl_src r \<noteq> 0" by auto
    then have "\<forall>r \<in> set (replay_list ?s). rpl_src r \<noteq> 0"
      using assms(2) by (auto simp: rpl_reset_list rpl_reset_slot_def rpl_reset_entry_def)
    with None show ?thesis
      by (simp add: rpl_check_iff [OF wf ck] rpl_reset_list rpl_reset_lookup [OF nz assms(2)])
  next
    case (Some r)
    then have "r \<in> set (replay_list s)" "rpl_src r = ctx_addr (rx_ctx rx)"
      by (auto simp: rpl_lookup_def find_Some_iff)
    with assms(2) nz have "\<not> rpl_old_iv r" "rpl_src r \<noteq> 0" by auto
    moreover from Some rej rpl_check_iff [OF assms(1,3)] have "\<not> fresher rx r" by simp
    ultimately have "\<not> fresher ?rx (rpl_reset_slot r)"
      using assms(4) by (auto simp: fresher_def rpl_reset_slot_def rpl_reset_entry_def)
    with Some show ?thesis
      by (simp add: rpl_check_iff [OF wf ck] rpl_reset_list rpl_reset_lookup [OF nz assms(2)])
  qed
  then have "rpl_accept ?rx ?s = None" by (auto simp: rpl_accept_def split: prod.splits)
  with wf show ?thesis by simp
qed

text \<open>C4: the code's IV update in general does not keep the protection. A slot of the previous IV index is
  zeroed and leaves a hole in front of slots in use, and the scan of \<^verbatim>\<open>bt_mesh_rpl_check\<close> stops at the hole:
  there is a well-formed list and a message it rejects as a replay which is accepted after
  \<^verbatim>\<open>bt_mesh_rpl_reset\<close>.\<close>

theorem rpl_reset_admits_replay:
  "\<exists>(s :: rpl_state) rx. rpl_wf (replay_list s) \<and> rpl_checked rx \<and> \<not> rx_old_iv rx \<and>
     rpl_accept rx s = None \<and> rpl_accept (rx\<lparr>rx_old_iv := True\<rparr>) (bt_mesh_rpl_reset s) \<noteq> None"
proof -
  let ?s = "rpl_example [\<lparr>rpl_src = 1, rpl_old_iv = True, rpl_store = False, rpl_seq = 7\<rparr>,
                         \<lparr>rpl_src = 2, rpl_old_iv = False, rpl_store = False, rpl_seq = 5\<rparr>, rpl_zero]"
  let ?rx = "rx_example 2 3 False"
  have "rpl_wf (replay_list ?s) \<and> rpl_checked ?rx \<and> \<not> rx_old_iv ?rx"
    by (simp add: rpl_example_def rx_example_def empty_rx_def empty_ctx_def rpl_checked_def rpl_zero_def)
  moreover have "rpl_accept ?rx ?s = None"
    by (simp add: rpl_accept_def bt_mesh_rpl_check_def rpl_example_def rx_example_def empty_rx_def empty_ctx_def)
  moreover have "rpl_accept (?rx\<lparr>rx_old_iv := True\<rparr>) (bt_mesh_rpl_reset ?s) \<noteq> None"
    by (simp add: rpl_accept_def bt_mesh_rpl_check_def rpl_reset_list rpl_reset_slot_def rpl_reset_entry_def
        rpl_example_def rx_example_def empty_rx_def empty_ctx_def rpl_zero_def)
  ultimately show ?thesis by blast
qed

theorem rpl_run_increasing_witness:
  "rpl_wf (replay_list (rpl_example [rpl_zero, rpl_zero])) \<and>
   rpl_run [rx_example 2 3 False, rx_example 2 3 False, rx_example 2 4 False] (rpl_example [rpl_zero, rpl_zero])
     = [rx_example 2 3 False, rx_example 2 4 False] \<and>
   sorted_wrt (\<lambda>m n. ctx_addr (rx_ctx m) = ctx_addr (rx_ctx n) \<longrightarrow>
     rpl_key (rx_old_iv m) (rx_seq m) < rpl_key (rx_old_iv n) (rx_seq n))
     (rpl_run [rx_example 2 3 False, rx_example 2 3 False, rx_example 2 4 False] (rpl_example [rpl_zero, rpl_zero]))"
proof -
  let ?s = "rpl_example [rpl_zero, rpl_zero]"
  let ?rxs = "[rx_example 2 3 False, rx_example 2 3 False, rx_example 2 4 False]"
  have 1: "rpl_wf (replay_list ?s)" by (simp add: rpl_example_def rpl_zero_def)
  have 2: "\<forall>rx \<in> set ?rxs. rpl_checked rx"
    by (simp add: rpl_checked_def rx_example_def empty_rx_def empty_ctx_def)
  have 3: "rpl_run ?rxs ?s = [rx_example 2 3 False, rx_example 2 4 False]"
    by (simp add: bt_mesh_rpl_check_def rpl_update_list rpl_entry_of_def rpl_example_def rpl_zero_def
        rx_example_def empty_rx_def empty_ctx_def)
  show ?thesis using 1 3 rpl_run_increasing [OF 1 2] by blast
qed

theorem rpl_check_verdict_witness:
  "rpl_wf (replay_list (rpl_example [rpl_zero])) \<and> \<not> fst (bt_mesh_rpl_check (rx_example 2 3 False) False (rpl_example [rpl_zero]))"
proof -
  have 1: "rpl_wf (replay_list (rpl_example [rpl_zero]))" by (simp add: rpl_example_def)
  have 2: "rpl_checked (rx_example 2 3 False)" by (simp add: rpl_checked_def rx_example_def empty_rx_def empty_ctx_def)
  show ?thesis using 1 rpl_check_verdict [OF 1 2, of False]
    by (simp add: rpl_example_def rpl_lookup_def rpl_zero_def rx_example_def empty_rx_def empty_ctx_def)
qed

theorem rpl_reset_keeps_protection_witness:
  "rpl_accept (rx_example 2 3 False)
     (rpl_example [\<lparr>rpl_src = 2, rpl_old_iv = False, rpl_store = False, rpl_seq = 5\<rparr>, rpl_zero]) = None \<and>
   rpl_accept ((rx_example 2 3 False)\<lparr>rx_old_iv := True\<rparr>) (bt_mesh_rpl_reset
     (rpl_example [\<lparr>rpl_src = 2, rpl_old_iv = False, rpl_store = False, rpl_seq = 5\<rparr>, rpl_zero])) = None"
proof -
  let ?s = "rpl_example [\<lparr>rpl_src = 2, rpl_old_iv = False, rpl_store = False, rpl_seq = 5\<rparr>, rpl_zero]"
  have 1: "rpl_wf (replay_list ?s)" "\<forall>r \<in> set (replay_list ?s). rpl_src r \<noteq> 0 \<longrightarrow> \<not> rpl_old_iv r"
    by (simp_all add: rpl_example_def rpl_zero_def)
  have 2: "rpl_checked (rx_example 2 3 False)" "\<not> rx_old_iv (rx_example 2 3 False)"
    by (simp_all add: rpl_checked_def rx_example_def empty_rx_def empty_ctx_def)
  have 3: "rpl_accept (rx_example 2 3 False) ?s = None"
    by (simp add: rpl_accept_def bt_mesh_rpl_check_def rpl_example_def rx_example_def empty_rx_def empty_ctx_def)
  show ?thesis using 3 rpl_reset_keeps_protection [OF 1 2 3] by blast
qed

end
