(* ===== verification/Aes_Ccm.thy ===== *)
theory Aes_Ccm
  imports Net_Buf
begin

text \<open>
  AES-CCM as subsys/bluetooth/host/aes_ccm.c computes it on top of the block cipher of
  subsys/bluetooth/host/crypto.c. The AES and CMAC primitives themselves are tinycrypt's, a module
  outside the source tree: \<open>tinycrypt\<close> holds them as functions that return \<open>None\<close> for
  \<^verbatim>\<open>TC_CRYPTO_FAIL\<close>, and \<open>tinycrypt_ok\<close> is what tinycrypt documents of them. The routines of
  aes_ccm.c ignore the error codes of their helpers and then go on with local arrays that were never
  written; \<open>tc_stack\<close> stands for those contents, so that these paths are part of the model too.

  The results: decryption inverts encryption in place, the counter mode and the CBC-MAC that the
  loops compute are those of RFC 3610, and encryption into another buffer authenticates the wrong
  bytes.
\<close>

section \<open>The primitives\<close>

record tinycrypt =
  tc_aes_encrypt :: "bytes \<Rightarrow> bytes \<Rightarrow> bytes option"
  tc_cmac :: "bytes \<Rightarrow> bytes \<Rightarrow> bytes option"
  tc_stack :: bytes

definition tinycrypt_ok :: "tinycrypt \<Rightarrow> bool" where
  "tinycrypt_ok tc \<longleftrightarrow>
     (\<forall>k b. length k = 16 \<and> length b = 16 \<longrightarrow> (\<exists>c. tc_aes_encrypt tc k b = Some c \<and> length c = 16)) \<and>
     (\<forall>k m. length k = 16 \<longrightarrow> (\<exists>c. tc_cmac tc k m = Some c \<and> length c = 16))"

definition bt_encrypt_be :: "tinycrypt \<Rightarrow> bytes \<Rightarrow> bytes \<Rightarrow> errno + bytes" where
  "bt_encrypt_be tc key plaintext =
     (case tc_aes_encrypt tc key plaintext of None \<Rightarrow> Inl EINVAL | Some enc_data \<Rightarrow> Inr enc_data)"

section \<open>The routines of aes_ccm.c\<close>

definition xor16 :: "bytes \<Rightarrow> bytes \<Rightarrow> bytes" where
  "xor16 a b = map (\<lambda>i. a ! i XOR b ! i) [0..<16]"

text \<open>
  The loop over the additional data: \<open>i\<close> is the position in the block, \<open>j\<close> the position in the
  data and \<open>n\<close> the bytes left, counted with the two length bytes.
\<close>

function ccm_aad_loop ::
    "tinycrypt \<Rightarrow> bytes \<Rightarrow> bytes \<Rightarrow> nat \<Rightarrow> nat \<Rightarrow> nat \<Rightarrow> bytes \<Rightarrow> bytes \<Rightarrow> errno option \<times> bytes" where
  "ccm_aad_loop tc key aad i j n b X0 =
     (if n > 16 then
        let b = mem_put i (map (\<lambda>k. X0 ! (i + k) XOR aad ! (j + k)) [0..<16 - i]) b in
        (case bt_encrypt_be tc key b of
           Inl err \<Rightarrow> (Some err, X0)
         | Inr X0 \<Rightarrow> ccm_aad_loop tc key aad 0 (j + (16 - i)) (n - 16) b X0)
      else
        let b = mem_put i (map (\<lambda>k. X0 ! (i + k) XOR aad ! (j + k)) [0..<n - i]) b;
            b = mem_put n (drop n X0) b in
        (case bt_encrypt_be tc key b of
           Inl err \<Rightarrow> (Some err, X0)
         | Inr X0 \<Rightarrow> (None, X0)))"
  by pat_completeness auto
termination by (relation "measure (\<lambda>(tc, key, aad, i, j, n, b, X0). n)") auto

text \<open>
  The parameters \<^verbatim>\<open>uint8_t aad_len\<close> and \<^verbatim>\<open>uint8_t msg_len\<close> truncate the \<^verbatim>\<open>size_t\<close> lengths of the
  caller. \<^verbatim>\<open>b\<close> is scratch space of the caller: it is overwritten before it is read again.
\<close>

definition ccm_flags :: "nat \<Rightarrow> nat \<Rightarrow> u8" where
  "ccm_flags mic_size aad_len =
     ucast (push_bit 3 ((of_nat mic_size - 2) div 2 :: u32)) OR (if aad_len \<noteq> 0 then push_bit 6 1 else 0) OR 1"

definition ccm_calculate_X0 ::
    "tinycrypt \<Rightarrow> bytes \<Rightarrow> bytes \<Rightarrow> nat \<Rightarrow> nat \<Rightarrow> bytes \<Rightarrow> bytes \<Rightarrow> errno option \<times> bytes" where
  "ccm_calculate_X0 tc key aad mic_size msg_len b X0 =
     (let aad_len = length aad mod 256;
          b = b[0 := ccm_flags mic_size aad_len];
          b = mem_put 14 (sys_put_be16 (of_nat (msg_len mod 256))) b in
      case bt_encrypt_be tc key b of
        Inl err \<Rightarrow> (Some err, X0)
      | Inr X0 \<Rightarrow>
          if aad_len \<noteq> 0 then
            let b = mem_put 0 (sys_put_be16 (of_nat aad_len)) b;
                b = mem_put 0 [X0 ! 0 XOR b ! 0, X0 ! 1 XOR b ! 1] b in
            ccm_aad_loop tc key aad 2 0 ((aad_len + 2) mod 256) b X0
          else (None, X0))"

primrec ccm_auth_blocks ::
    "tinycrypt \<Rightarrow> bytes \<Rightarrow> bytes \<Rightarrow> nat \<Rightarrow> nat \<Rightarrow> nat list \<Rightarrow> bytes \<Rightarrow> errno + bytes" where
  "ccm_auth_blocks tc key msg last_blk blk_cnt [] Xn = Inr Xn"
| "ccm_auth_blocks tc key msg last_blk blk_cnt (j # js) Xn =
     (let b = (if j + 1 = blk_cnt
               then map (\<lambda>i. Xn ! i XOR msg ! (j * 16 + i)) [0..<last_blk] @ drop last_blk Xn
               else xor16 Xn (drop (j * 16) msg)) in
      case bt_encrypt_be tc key b of
        Inl err \<Rightarrow> Inl err
      | Inr Xn \<Rightarrow> ccm_auth_blocks tc key msg last_blk blk_cnt js Xn)"

definition last_blk_of :: "nat \<Rightarrow> nat" where
  "last_blk_of msg_len = (if msg_len mod 16 = 0 then 16 else msg_len mod 16)"

definition blk_cnt_of :: "nat \<Rightarrow> nat" where
  "blk_cnt_of msg_len = ((msg_len + 15) div 16) mod 65536"

text \<open>\<open>msg\<close> holds the \<open>msg_len\<close> bytes behind \<^verbatim>\<open>cleartext_msg\<close>; the result is the MIC that is written.\<close>

definition ccm_auth ::
    "tinycrypt \<Rightarrow> bytes \<Rightarrow> bytes \<Rightarrow> bytes \<Rightarrow> bytes \<Rightarrow> nat \<Rightarrow> errno + bytes" where
  "ccm_auth tc key nonce msg aad mic_size =
     (let last_blk = last_blk_of (length msg); blk_cnt = blk_cnt_of (length msg);
          b = 0x01 # nonce @ sys_put_be16 0 in
      case bt_encrypt_be tc key b of
        Inl err \<Rightarrow> Inl err
      | Inr s0 \<Rightarrow>
          let Xn = snd (ccm_calculate_X0 tc key aad mic_size (length msg) b (tc_stack tc)) in
          (case ccm_auth_blocks tc key msg last_blk blk_cnt [0..<blk_cnt] Xn of
             Inl err \<Rightarrow> Inl err
           | Inr Xn \<Rightarrow> Inr (map (\<lambda>i. s0 ! i XOR Xn ! i) [0..<mic_size])))"

primrec ccm_crypt_blocks ::
    "tinycrypt \<Rightarrow> bytes \<Rightarrow> bytes \<Rightarrow> bytes \<Rightarrow> nat \<Rightarrow> nat \<Rightarrow> nat list \<Rightarrow> bytes \<Rightarrow> errno option \<times> bytes" where
  "ccm_crypt_blocks tc key nonce in_msg last_blk blk_cnt [] out_msg = (None, out_msg)"
| "ccm_crypt_blocks tc key nonce in_msg last_blk blk_cnt (j # js) out_msg =
     (case bt_encrypt_be tc key (0x01 # nonce @ sys_put_be16 (of_nat (j + 1))) of
        Inl err \<Rightarrow> (Some err, out_msg)
      | Inr s_i \<Rightarrow>
          let blk = (if j < blk_cnt - 1 then xor16 s_i (drop (j * 16) in_msg)
                     else map (\<lambda>i. in_msg ! (j * 16 + i) XOR s_i ! i) [0..<last_blk]) in
          ccm_crypt_blocks tc key nonce in_msg last_blk blk_cnt js (mem_put (j * 16) blk out_msg))"

text \<open>
  \<open>out_msg\<close> is what the output buffer held before. Each block is read before it is written, so the
  result is the same when both pointers are equal.
\<close>

definition ccm_crypt :: "tinycrypt \<Rightarrow> bytes \<Rightarrow> bytes \<Rightarrow> bytes \<Rightarrow> bytes \<Rightarrow> errno option \<times> bytes" where
  "ccm_crypt tc key nonce in_msg out_msg =
     (let blk_cnt = blk_cnt_of (length in_msg) in
      ccm_crypt_blocks tc key nonce in_msg (last_blk_of (length in_msg)) blk_cnt [0..<blk_cnt] out_msg)"

text \<open>
  \<open>enc_msg\<close> is the memory behind \<^verbatim>\<open>enc_msg\<close>, the MIC after \<open>msg_len\<close> bytes; \<open>out_msg\<close> is what the
  output buffer held.
\<close>

definition bt_ccm_decrypt ::
    "tinycrypt \<Rightarrow> bytes \<Rightarrow> bytes \<Rightarrow> bytes \<Rightarrow> nat \<Rightarrow> bytes \<Rightarrow> bytes \<Rightarrow> nat \<Rightarrow> errno + bytes" where
  "bt_ccm_decrypt tc key nonce enc_msg msg_len aad out_msg mic_size =
     (if length aad \<ge> 0xff00 \<or> mic_size > 16 then Inl EINVAL
      else
        let out_msg = snd (ccm_crypt tc key nonce (take msg_len enc_msg) out_msg);
            mic = (case ccm_auth tc key nonce out_msg aad mic_size of
                     Inl _ \<Rightarrow> take mic_size (tc_stack tc) | Inr mic \<Rightarrow> mic) in
        if mic \<noteq> take mic_size (drop msg_len enc_msg) then Inl EBADMSG else Inr out_msg)"

text \<open>
  The result is what the memory behind \<^verbatim>\<open>out_msg\<close> holds: the encrypted message and the MIC. The code
  hands \<^verbatim>\<open>out_msg\<close>, not \<^verbatim>\<open>msg\<close>, to \<^verbatim>\<open>ccm_auth\<close>, before it is written.
\<close>

definition bt_ccm_encrypt ::
    "tinycrypt \<Rightarrow> bytes \<Rightarrow> bytes \<Rightarrow> bytes \<Rightarrow> bytes \<Rightarrow> bytes \<Rightarrow> nat \<Rightarrow> errno + bytes" where
  "bt_ccm_encrypt tc key nonce msg aad out_msg mic_size =
     (if length aad \<ge> 0xff00 \<or> mic_size > 16 then Inl EINVAL
      else
        let mem = (case ccm_auth tc key nonce (take (length msg) out_msg) aad mic_size of
                     Inl _ \<Rightarrow> out_msg
                   | Inr mic \<Rightarrow> mem_put (length msg) mic out_msg) in
        Inr (snd (ccm_crypt tc key nonce msg (take (length msg) mem)) @ drop (length msg) mem))"

section \<open>Counter mode\<close>

definition aes_blk :: "tinycrypt \<Rightarrow> bytes \<Rightarrow> bytes \<Rightarrow> bytes" where
  "aes_blk tc key b = the (tc_aes_encrypt tc key b)"

lemma bt_encrypt_be_ok:
  assumes "tinycrypt_ok tc" "length key = 16" "length b = 16"
  shows "bt_encrypt_be tc key b = Inr (aes_blk tc key b)" "length (aes_blk tc key b) = 16"
  using assms unfolding tinycrypt_ok_def bt_encrypt_be_def aes_blk_def by (force split: option.splits)+

lemma length_xor16 [simp]: "length (xor16 a b) = 16"
  by (simp add: xor16_def)

lemma nth_xor16 [simp]: "i < 16 \<Longrightarrow> xor16 a b ! i = a ! i XOR b ! i"
  by (simp add: xor16_def)

definition ctr_block :: "bytes \<Rightarrow> nat \<Rightarrow> bytes" where
  "ctr_block nonce i = 0x01 # nonce @ sys_put_be16 (of_nat i)"

lemma length_ctr_block: "length nonce = 13 \<Longrightarrow> length (ctr_block nonce i) = 16"
  by (simp add: ctr_block_def)

definition keystream :: "tinycrypt \<Rightarrow> bytes \<Rightarrow> bytes \<Rightarrow> nat \<Rightarrow> u8" where
  "keystream tc key nonce i = aes_blk tc key (ctr_block nonce (i div 16 + 1)) ! (i mod 16)"

definition ctr_crypt :: "tinycrypt \<Rightarrow> bytes \<Rightarrow> bytes \<Rightarrow> bytes \<Rightarrow> bytes" where
  "ctr_crypt tc key nonce msg = map (\<lambda>i. msg ! i XOR keystream tc key nonce i) [0..<length msg]"

lemma length_ctr_crypt [simp]: "length (ctr_crypt tc key nonce msg) = length msg"
  by (simp add: ctr_crypt_def)

lemma nth_ctr_crypt [simp]: "i < length msg \<Longrightarrow> ctr_crypt tc key nonce msg ! i = msg ! i XOR keystream tc key nonce i"
  by (simp add: ctr_crypt_def)

lemma blk_cnt_bounds:
  assumes "n < 1048560" "j < blk_cnt_of n"
  shows "j * 16 < n" "j + 1 < blk_cnt_of n \<Longrightarrow> j * 16 + 16 \<le> n"
    "j + 1 = blk_cnt_of n \<Longrightarrow> j * 16 + last_blk_of n = n" "last_blk_of n \<le> 16"
proof -
  have c: "blk_cnt_of n = (n + 15) div 16" using assms(1) by (simp add: blk_cnt_of_def)
  show "j * 16 < n" "j + 1 < blk_cnt_of n \<Longrightarrow> j * 16 + 16 \<le> n" "last_blk_of n \<le> 16"
    using assms c by (auto simp: last_blk_of_def)
  show "j * 16 + last_blk_of n = n" if "j + 1 = blk_cnt_of n"
  proof -
    from that c have j: "j + 1 = (n + 15) div 16" by simp
    have n: "n = 16 * (n div 16) + n mod 16" "n mod 16 < 16" by simp_all
    show ?thesis
    proof (cases "n mod 16 = 0")
      case True
      with n have "(n + 15) div 16 = n div 16" by linarith
      with True n j show ?thesis by (simp add: last_blk_of_def)
    next
      case False
      with n have "(n + 15) div 16 = n div 16 + 1" by linarith
      with False n j show ?thesis by (simp add: last_blk_of_def)
    qed
  qed
qed

lemma mem_put_block:
  assumes L: "p + length blk = min (length c) (p + 16)" and out: "length out = length c" and p: "p < length c"
    and blk: "\<And>k. k < length blk \<Longrightarrow> blk ! k = c ! (p + k)"
  shows "take (p + 16) (mem_put p blk out) @ drop (p + 16) c = take p out @ drop p c"
    (is "?l = ?r")
proof (rule nth_equalityI)
  have fit: "p + length blk \<le> length out" using L out by linarith
  then have lm: "length (mem_put p blk out) = length c" using out by simp
  show "length ?l = length ?r" using lm out p by simp
  show "?l ! i = ?r ! i" if i: "i < length ?l" for i
  proof -
    have io: "i < length c" using i lm by simp
    consider "i < p" | "p \<le> i" "i < p + 16" | "p + 16 \<le> i" by linarith
    then show ?thesis
    proof cases
      case 1
      with io lm fit out p show ?thesis by (simp add: nth_append nth_mem_put)
    next
      case 2
      with io L have k: "i - p < length blk" "i < p + length blk" by linarith+
      with 2 io lm fit out p blk [OF k(1)] show ?thesis by (simp add: nth_append nth_mem_put)
    next
      case 3
      with io lm out p show ?thesis by (simp add: nth_append)
    qed
  qed
qed

lemma ccm_crypt_blocks_eq:
  assumes ok: "tinycrypt_ok tc" "length key = 16" "length nonce = 13"
    and len: "length out = length msg" "length msg < 1048560"
    and j: "j \<le> blk_cnt_of (length msg)"
  shows "ccm_crypt_blocks tc key nonce msg (last_blk_of (length msg)) (blk_cnt_of (length msg))
           [j..<blk_cnt_of (length msg)] out =
         (None, take (j * 16) out @ drop (j * 16) (ctr_crypt tc key nonce msg))"
  using j len(1)
proof (induction "blk_cnt_of (length msg) - j" arbitrary: j out)
  case 0
  then have "j = blk_cnt_of (length msg)" by simp
  moreover have "length msg \<le> blk_cnt_of (length msg) * 16"
    using len(2) by (simp add: blk_cnt_of_def)
  ultimately show ?case using 0 by simp
next
  case (Suc d)
  let ?n = "length msg" and ?c = "blk_cnt_of (length msg)"
  from Suc have jc: "j < ?c" by simp
  note b = blk_cnt_bounds [OF len(2) jc]
  let ?s = "aes_blk tc key (ctr_block nonce (j + 1))"
  let ?blk = "if j < ?c - 1 then xor16 ?s (drop (j * 16) msg)
              else map (\<lambda>i. msg ! (j * 16 + i) XOR ?s ! i) [0..<last_blk_of ?n]"
  note e = bt_encrypt_be_ok [OF ok(1,2) length_ctr_block [OF ok(3)], of "j + 1"]
  have L: "j * 16 + length ?blk = min ?n (j * 16 + 16)"
  proof (cases "Suc j = ?c")
    case True
    then have "j * 16 + last_blk_of ?n = ?n" using b(3) by simp
    moreover have "\<not> j < ?c - 1" using True by linarith
    ultimately show ?thesis using b(4) by simp
  next
    case False
    with jc have "j < ?c - 1" "j * 16 + 16 \<le> ?n" using b(2) by linarith+
    then show ?thesis by simp
  qed
  have k16: "k < 16" if "k < length ?blk" for k using that b(4) by (simp split: if_splits)
  have blk: "?blk ! k = ctr_crypt tc key nonce msg ! (j * 16 + k)" if k: "k < length ?blk" for k
  proof -
    have "j * 16 + k < ?n" using L k by linarith
    moreover have "keystream tc key nonce (j * 16 + k) = ?s ! k"
      using k16 [OF k] by (simp add: keystream_def div_add1_eq)
    ultimately show ?thesis using k k16 [OF k] by (cases "j < ?c - 1") (auto simp: xor.commute)
  qed
  have fit: "j * 16 + length ?blk \<le> length out" using L Suc.prems by simp
  have "ccm_crypt_blocks tc key nonce msg (last_blk_of ?n) ?c [j..<?c] out =
        ccm_crypt_blocks tc key nonce msg (last_blk_of ?n) ?c [Suc j..<?c] (mem_put (j * 16) ?blk out)"
    using jc e(1) by (simp add: upt_conv_Cons ctr_block_def Let_def)
  also have "\<dots> = (None, take (j * 16 + 16) (mem_put (j * 16) ?blk out) @ drop (j * 16 + 16) (ctr_crypt tc key nonce msg))"
    unfolding add.commute [of "j * 16" 16] mult_Suc [symmetric]
    by (rule Suc.hyps(1)) (use Suc jc fit in simp_all)
  also have "take (j * 16 + 16) (mem_put (j * 16) ?blk out) @ drop (j * 16 + 16) (ctr_crypt tc key nonce msg) =
     take (j * 16) out @ drop (j * 16) (ctr_crypt tc key nonce msg)"
    by (rule mem_put_block) (use L Suc.prems b(1) blk in simp_all)
  finally show ?case .
qed

lemma ccm_crypt_eq:
  assumes "tinycrypt_ok tc" "length key = 16" "length nonce = 13"
    and "length out = length msg" "length msg < 1048560"
  shows "ccm_crypt tc key nonce msg out = (None, ctr_crypt tc key nonce msg)"
  using ccm_crypt_blocks_eq [OF assms, of 0] by (simp add: ccm_crypt_def Let_def)

lemma ctr_crypt_invol: "ctr_crypt tc key nonce (ctr_crypt tc key nonce msg) = msg"
  by (rule nth_equalityI) (simp_all add: xor.assoc)

section \<open>The CBC-MAC of RFC 3610\<close>

text \<open>The reference definition: the blocks that RFC 3610 (section 2.2) authenticates, zero-padded, and
  the MAC over them.\<close>

fun blocks16 :: "bytes \<Rightarrow> bytes list" where
  "blocks16 [] = []"
| "blocks16 (x # xs) = take 16 (x # xs @ replicate 15 0) # blocks16 (drop 15 xs)"

definition rfc3610_blocks :: "bytes \<Rightarrow> bytes \<Rightarrow> bytes \<Rightarrow> nat \<Rightarrow> bytes list" where
  "rfc3610_blocks nonce msg aad mic_size =
     (of_nat (64 * (if aad = [] then 0 else 1) + 8 * ((mic_size - 2) div 2) + 1)
        # nonce @ sys_put_be16 (of_nat (length msg)))
     # (if aad = [] then [] else blocks16 (sys_put_be16 (of_nat (length aad)) @ aad))
     @ blocks16 msg"

definition cbc_mac :: "tinycrypt \<Rightarrow> bytes \<Rightarrow> bytes list \<Rightarrow> bytes" where
  "cbc_mac tc key bs = foldl (\<lambda>x b. aes_blk tc key (xor16 x b)) (replicate 16 0) bs"

definition rfc3610_mic :: "tinycrypt \<Rightarrow> bytes \<Rightarrow> bytes \<Rightarrow> bytes \<Rightarrow> bytes \<Rightarrow> nat \<Rightarrow> bytes" where
  "rfc3610_mic tc key nonce msg aad mic_size =
     take mic_size (xor16 (aes_blk tc key (ctr_block nonce 0))
       (cbc_mac tc key (rfc3610_blocks nonce msg aad mic_size)))"

lemma blocks16_step:
  "xs \<noteq> [] \<Longrightarrow> blocks16 xs = take 16 (xs @ replicate 15 0) # blocks16 (drop 16 xs)"
  by (cases xs) auto

lemma blocks16_lengths: "b \<in> set (blocks16 xs) \<Longrightarrow> length b = 16"
  by (induction xs rule: blocks16.induct) auto

lemma length_foldl_aes:
  assumes "tinycrypt_ok tc" "length key = 16" "length x = 16"
  shows "length (foldl (\<lambda>x b. aes_blk tc key (xor16 x b)) x bs) = 16"
  using assms(3)
proof (induction bs arbitrary: x)
  case (Cons b bs)
  show ?case using Cons.IH [OF bt_encrypt_be_ok(2) [OF assms(1,2) length_xor16]] by simp
qed simp

lemma nth_pad: "i < 16 \<Longrightarrow> take 16 (xs @ replicate 15 0) ! i = (if i < length xs then xs ! i else 0)"
  if "xs \<noteq> []"
  using that by (cases xs) (auto simp: nth_append nth_Cons split: nat.splits)

lemma ccm_auth_blocks_eq:
  assumes ok: "tinycrypt_ok tc" "length key = 16" and len: "length msg < 1048560"
    and j: "j \<le> blk_cnt_of (length msg)" and X: "length X = 16"
  shows "ccm_auth_blocks tc key msg (last_blk_of (length msg)) (blk_cnt_of (length msg))
           [j..<blk_cnt_of (length msg)] X =
         Inr (foldl (\<lambda>x b. aes_blk tc key (xor16 x b)) X (blocks16 (drop (j * 16) msg)))"
  using j X
proof (induction "blk_cnt_of (length msg) - j" arbitrary: j X)
  case 0
  then have "j = blk_cnt_of (length msg)" by simp
  moreover have "length msg \<le> blk_cnt_of (length msg) * 16"
    using len by (simp add: blk_cnt_of_def)
  ultimately show ?case by simp
next
  case (Suc d)
  let ?n = "length msg" and ?c = "blk_cnt_of (length msg)"
  let ?d = "drop (j * 16) msg"
  from Suc have jc: "j < ?c" by simp
  note b = blk_cnt_bounds [OF len jc]
  have ne: "?d \<noteq> []" using b(1) by simp
  let ?b = "if j + 1 = ?c then map (\<lambda>i. X ! i XOR msg ! (j * 16 + i)) [0..<last_blk_of ?n] @ drop (last_blk_of ?n) X
            else xor16 X ?d"
  have blk: "?b = xor16 X (take 16 (?d @ replicate 15 0))"
  proof (cases "j + 1 = ?c")
    case True
    with b(3) have n: "length ?d = last_blk_of ?n" by simp
    show ?thesis
    proof (rule nth_equalityI)
      show "length ?b = length (xor16 X (take 16 (?d @ replicate 15 0)))" using True b(4) Suc.prems by simp
      show "?b ! i = xor16 X (take 16 (?d @ replicate 15 0)) ! i" if "i < length ?b" for i
        using that True b(4) Suc.prems n b(1) nth_pad [OF ne, of i] by (auto simp: nth_append)
    qed
  next
    case False
    with jc b(2) have "16 \<le> length ?d" by simp
    with False show ?thesis by (simp add: xor16_def)
  qed
  note e = bt_encrypt_be_ok [OF ok length_xor16, of X "take 16 (?d @ replicate 15 0)"]
  have dd: "drop 16 ?d = drop (Suc j * 16) msg" by (simp add: add.commute)
  have "ccm_auth_blocks tc key msg (last_blk_of ?n) ?c [j..<?c] X =
        ccm_auth_blocks tc key msg (last_blk_of ?n) ?c [Suc j..<?c] (aes_blk tc key (xor16 X (take 16 (?d @ replicate 15 0))))"
    unfolding upt_conv_Cons [OF jc] ccm_auth_blocks.simps Let_def blk e(1) by simp
  also have "\<dots> = Inr (foldl (\<lambda>x b. aes_blk tc key (xor16 x b))
       (aes_blk tc key (xor16 X (take 16 (?d @ replicate 15 0)))) (blocks16 (drop (Suc j * 16) msg)))"
    by (rule Suc.hyps(1)) (use Suc.hyps(2) jc e(2) in simp_all)
  also have "\<dots> = Inr (foldl (\<lambda>x b. aes_blk tc key (xor16 x b)) X (blocks16 ?d))"
    unfolding blocks16_step [OF ne] dd by simp
  finally show ?case .
qed

text \<open>The block of the AAD loop: what is left of \<open>rest = lenbytes @ aad\<close>.\<close>

lemma aad_block:
  assumes "length X0 = 16" "length b = 16" "i \<le> m" "m \<le> 16" "m \<le> length rest"
    and "\<And>k. k < i \<Longrightarrow> b ! k = X0 ! k XOR rest ! k"
    and "\<And>k. i \<le> k \<Longrightarrow> k < m \<Longrightarrow> aad ! (j + (k - i)) = rest ! k"
  shows "mem_put m (drop m X0) (mem_put i (map (\<lambda>k. X0 ! (i + k) XOR aad ! (j + k)) [0..<m - i]) b)
         = map (\<lambda>k. if k < m then X0 ! k XOR rest ! k else X0 ! k) [0..<16]"
proof (rule nth_equalityI)
  let ?b = "mem_put i (map (\<lambda>k. X0 ! (i + k) XOR aad ! (j + k)) [0..<m - i]) b"
  have lb: "length ?b = 16" using assms(2-4) by simp
  have fit: "m + length (drop m X0) \<le> length ?b" using lb assms(1,4) by simp
  show "length (mem_put m (drop m X0) ?b) = length (map (\<lambda>k. if k < m then X0 ! k XOR rest ! k else X0 ! k) [0..<16])"
    using length_mem_put [OF fit] lb by simp
  fix k assume "k < length (mem_put m (drop m X0) ?b)"
  then have k: "k < 16" using length_mem_put [OF fit] lb by simp
  have "mem_put m (drop m X0) ?b ! k = (if m \<le> k then X0 ! k else ?b ! k)"
    using nth_mem_put [OF fit, of k] k lb assms(1,4) by auto
  also have "?b ! k = (if i \<le> k \<and> k < m then X0 ! k XOR aad ! (j + (k - i)) else b ! k)"
    using nth_mem_put [of i "map (\<lambda>k. X0 ! (i + k) XOR aad ! (j + k)) [0..<m - i]" b k] k assms(2-4) by auto
  finally show "mem_put m (drop m X0) ?b ! k = map (\<lambda>k. if k < m then X0 ! k XOR rest ! k else X0 ! k) [0..<16] ! k"
    using k assms(6,7) by auto
qed

lemma xor16_pad:
  assumes "length X = 16" "rest \<noteq> []"
  shows "xor16 X (take 16 (rest @ replicate 15 0)) =
     map (\<lambda>k. if k < min 16 (length rest) then X ! k XOR rest ! k else X ! k) [0..<16]"
  using assms nth_pad [OF assms(2)] by (auto simp: xor16_def)


lemma mem_put_nil [simp]: "length xs \<le> n \<Longrightarrow> mem_put n [] xs = xs"
  by (simp add: mem_put_def)

lemma ccm_aad_loop_eq:
  assumes ok: "tinycrypt_ok tc" "length key = 16"
  shows "\<lbrakk>n = length rest; 0 < n; i \<le> n; i \<le> 15; j \<le> length aad; length X0 = 16; length b = 16;
      \<forall>k < i. b ! k = X0 ! k XOR rest ! k; drop i rest = drop j aad\<rbrakk> \<Longrightarrow>
    ccm_aad_loop tc key aad i j n b X0 =
      (None, foldl (\<lambda>x b. aes_blk tc key (xor16 x b)) X0 (blocks16 rest))"
proof (induction n arbitrary: rest i j b X0 rule: less_induct)
  case (less n)
  note p = less.prems
  have ne: "rest \<noteq> []" using p by auto
  have aad: "aad ! (j + (k - i)) = rest ! k" if "i \<le> k" "k < n" for k
    using that p nth_drop [of i rest "k - i"] nth_drop [of j aad "k - i"] by simp
  note e = bt_encrypt_be_ok [OF ok length_xor16, of X0 "take 16 (rest @ replicate 15 0)"]
  let ?X = "aes_blk tc key (xor16 X0 (take 16 (rest @ replicate 15 0)))"
  let ?b = "\<lambda>m. mem_put i (map (\<lambda>k. X0 ! (i + k) XOR aad ! (j + k)) [0..<m - i]) b"
  show ?case
  proof (cases "n > 16")
    case True
    have "mem_put 16 (drop 16 X0) (?b 16) = xor16 X0 (take 16 (rest @ replicate 15 0))"
      unfolding xor16_pad [OF p(6) ne] using aad_block [of X0 b i 16 rest aad j] p True aad by simp
    then have b: "?b 16 = xor16 X0 (take 16 (rest @ replicate 15 0))" using p(4,6,7) by simp
    have "drop (16 - i) (drop i rest) = drop (16 - i) (drop j aad)" using p by simp
    then have dd: "drop 0 (drop 16 rest) = drop (j + (16 - i)) aad" using p(4) by (simp add: add.commute)
    have jl: "j + (16 - i) \<le> length aad"
      using arg_cong [OF p(9), of length] p(1,4,5) True by simp
    have "ccm_aad_loop tc key aad i j n b X0 = ccm_aad_loop tc key aad 0 (j + (16 - i)) (n - 16) (?b 16) ?X"
      unfolding ccm_aad_loop.simps [of tc key aad i j] using True b e(1) by (simp add: Let_def)
    also have "\<dots> = (None, foldl (\<lambda>x b. aes_blk tc key (xor16 x b)) ?X (blocks16 (drop 16 rest)))"
      by (rule less.IH [OF _ _ _ _ _ jl e(2) _ _ dd]) (use True p(1) b in simp_all)
    finally show ?thesis using blocks16_step [OF ne] by simp
  next
    case False
    have b: "mem_put n (drop n X0) (?b n) = xor16 X0 (take 16 (rest @ replicate 15 0))"
      unfolding xor16_pad [OF p(6) ne] using aad_block [of X0 b i n rest aad j] p False aad
      by (simp add: min_def)
    have "blocks16 (drop 16 rest) = []" using False p(1) by simp
    then show ?thesis unfolding ccm_aad_loop.simps [of tc key aad i j] using False b e(1) blocks16_step [OF ne]
      by (simp add: Let_def)
  qed
qed

lemma ccm_flags_eq:
  assumes "mic_size = 4 \<or> mic_size = 8"
  shows "ccm_flags mic_size aad_len = of_nat (64 * (if aad_len = 0 then 0 else 1) + 8 * ((mic_size - 2) div 2) + 1)"
  using assms by (auto simp: ccm_flags_def)


lemma ccm_X0_eq:
  assumes ok: "tinycrypt_ok tc" "length key = 16" "length nonce = 13"
    and mic: "mic_size = 4 \<or> mic_size = 8" and len: "length aad < 254" "length msg < 256"
  shows "snd (ccm_calculate_X0 tc key aad mic_size (length msg) (0x01 # nonce @ sys_put_be16 0) X0) =
    foldl (\<lambda>x b. aes_blk tc key (xor16 x b)) (replicate 16 0)
      ((ccm_flags mic_size (length aad) # nonce @ sys_put_be16 (of_nat (length msg)))
        # (if aad = [] then [] else blocks16 (sys_put_be16 (of_nat (length aad)) @ aad)))"
proof -
  let ?bz = "ccm_flags mic_size (length aad) # nonce @ sys_put_be16 (of_nat (length msg))"
  have b0: "mem_put 14 (sys_put_be16 (of_nat (length msg)))
      ((0x01 # nonce @ sys_put_be16 0)[0 := ccm_flags mic_size (length aad)]) = ?bz"
    using ok(3) by (simp add: mem_put_def)
  have x0: "xor16 (replicate 16 0) ?bz = ?bz"
    by (rule nth_equalityI) (use ok(3) in simp_all)
  have l0: "length ?bz = 16" using ok(3) by simp
  note e = bt_encrypt_be_ok [OF ok(1,2) l0]
  let ?X = "aes_blk tc key ?bz" and ?lb = "sys_put_be16 (of_nat (length aad))"
  let ?by = "mem_put 0 ?lb ?bz"
  let ?b = "mem_put 0 [?X ! 0 XOR ?by ! 0, ?X ! 1 XOR ?by ! 1] ?by"
  show ?thesis
  proof (cases "aad = []")
    case True
    then show ?thesis using e(1) b0 x0 len by (simp add: ccm_calculate_X0_def Let_def)
  next
    case False
    have lb1: "length ?by = 16" using l0 by simp
    have n1: "?by ! k = (?lb @ aad) ! k" if "k < 2" for k
      using that nth_mem_put [of 0 ?lb ?bz k] l0 by (simp add: nth_append)
    have b: "\<forall>k < 2. ?b ! k = ?X ! k XOR (?lb @ aad) ! k"
    proof (intro allI impI)
      fix k :: nat assume k: "k < 2"
      then have "k = 0 \<or> k = 1" by auto
      then show "?b ! k = ?X ! k XOR (?lb @ aad) ! k"
        using nth_mem_put [of 0 "[?X ! 0 XOR ?by ! 0, ?X ! 1 XOR ?by ! 1]" ?by k] lb1 n1 by auto
    qed
    have lb: "length ?b = 16" using lb1 by simp
    have "ccm_aad_loop tc key aad 2 0 (length aad + 2) ?b ?X =
          (None, foldl (\<lambda>x b. aes_blk tc key (xor16 x b)) ?X (blocks16 (?lb @ aad)))"
      by (rule ccm_aad_loop_eq [OF ok(1,2)]) (use b lb e(2) in simp_all)
    then show ?thesis using e(1) b0 x0 len False by (simp add: ccm_calculate_X0_def Let_def)
  qed
qed

lemma ccm_auth_eq:
  assumes ok: "tinycrypt_ok tc" "length key = 16" "length nonce = 13"
    and mic: "mic_size = 4 \<or> mic_size = 8" and len: "length aad < 254" "length msg < 256"
  shows "ccm_auth tc key nonce msg aad mic_size = Inr (rfc3610_mic tc key nonce msg aad mic_size)"
proof -
  let ?bs = "(ccm_flags mic_size (length aad) # nonce @ sys_put_be16 (of_nat (length msg)))
        # (if aad = [] then [] else blocks16 (sys_put_be16 (of_nat (length aad)) @ aad))"
  let ?X = "foldl (\<lambda>x b. aes_blk tc key (xor16 x b)) (replicate 16 0) ?bs"
  have blocks: "rfc3610_blocks nonce msg aad mic_size = ?bs @ blocks16 msg"
    using ccm_flags_eq [OF mic, of "length aad"] by (simp add: rfc3610_blocks_def)
  have lX: "length ?X = 16" by (rule length_foldl_aes [OF ok(1,2)]) simp
  note e = bt_encrypt_be_ok [OF ok(1,2) length_ctr_block [OF ok(3)], of 0]
  have au: "ccm_auth_blocks tc key msg (last_blk_of (length msg)) (blk_cnt_of (length msg))
      [0..<blk_cnt_of (length msg)] ?X = Inr (cbc_mac tc key (rfc3610_blocks nonce msg aad mic_size))"
    using ccm_auth_blocks_eq [OF ok(1,2) _ _ lX, of msg 0] len by (simp add: cbc_mac_def blocks)
  have "map (\<lambda>i. a ! i XOR b ! i) [0..<mic_size] = take mic_size (xor16 a b)" for a b :: bytes
    using mic by (auto simp: xor16_def take_map)
  with au e(1) ccm_X0_eq [OF assms, of "tc_stack tc"] show ?thesis
    by (simp add: ccm_auth_def Let_def rfc3610_mic_def ctr_block_def)
qed

lemma length_rfc3610_mic: "mic_size \<le> 16 \<Longrightarrow> length (rfc3610_mic tc key nonce msg aad mic_size) = mic_size"
  by (simp add: rfc3610_mic_def)

lemma ccm_encrypt_inplace:
  assumes ok: "tinycrypt_ok tc" "length key = 16" "length nonce = 13"
    and mic: "mic_size = 4 \<or> mic_size = 8" and len: "length aad < 254" "length msg < 256"
    and room: "length room = mic_size"
  shows "bt_ccm_encrypt tc key nonce msg aad (msg @ room) mic_size =
    Inr (ctr_crypt tc key nonce msg @ rfc3610_mic tc key nonce msg aad mic_size)"
  using ccm_auth_eq [OF ok mic len] ccm_crypt_eq [OF ok, of msg msg] mic len room
    length_rfc3610_mic [of mic_size tc key nonce msg aad]
  by (auto simp: bt_ccm_encrypt_def Let_def mem_put_def)

lemma ccm_decrypt_iff:
  assumes ok: "tinycrypt_ok tc" "length key = 16" "length nonce = 13"
    and mic: "mic_size = 4 \<or> mic_size = 8" and len: "length aad < 254" "length enc < 256"
    and out: "length out = length enc" and m: "length m = mic_size"
  shows "bt_ccm_decrypt tc key nonce (enc @ m) (length enc) aad out mic_size =
    (let msg = ctr_crypt tc key nonce enc in
     if m = rfc3610_mic tc key nonce msg aad mic_size then Inr msg else Inl EBADMSG)"
  using ccm_auth_eq [OF ok mic len(1), of "ctr_crypt tc key nonce enc"] ccm_crypt_eq [OF ok out] mic len m
  by (auto simp: bt_ccm_decrypt_def Let_def)

lemma ccm_encrypt_eq:
  assumes ok: "tinycrypt_ok tc" "length key = 16" "length nonce = 13"
    and mic: "mic_size = 4 \<or> mic_size = 8" and len: "length aad < 254" "length msg < 256"
    and out: "length out = length msg + mic_size"
  shows "bt_ccm_encrypt tc key nonce msg aad out mic_size =
    Inr (ctr_crypt tc key nonce msg @ rfc3610_mic tc key nonce (take (length msg) out) aad mic_size)"
proof -
  let ?old = "take (length msg) out"
  let ?m = "rfc3610_mic tc key nonce ?old aad mic_size"
  have lm: "length ?m = mic_size" using mic by (auto simp: length_rfc3610_mic)
  have lo: "length ?old = length msg" using out by simp
  have au: "ccm_auth tc key nonce ?old aad mic_size = Inr ?m"
    by (rule ccm_auth_eq [OF ok mic len(1)]) (use lo len in simp)
  have mem: "mem_put (length msg) ?m out = ?old @ ?m" using out lm by (simp add: mem_put_def)
  have "ccm_crypt tc key nonce msg ?old = (None, ctr_crypt tc key nonce msg)"
    by (rule ccm_crypt_eq [OF ok lo]) (use len in simp)
  with au mem mic len lo show ?thesis by (auto simp: bt_ccm_encrypt_def Let_def)
qed

text \<open>A toy cipher to instantiate the primitives with.\<close>

definition tc_example :: tinycrypt where
  "tc_example = \<lparr>tc_aes_encrypt = (\<lambda>k b. Some (map2 (XOR) k b)),
     tc_cmac = (\<lambda>k m. Some (map2 (XOR) k (take 16 (m @ replicate 16 0)))), tc_stack = []\<rparr>"

lemma tc_example_ok: "tinycrypt_ok tc_example"
  by (auto simp: tinycrypt_ok_def tc_example_def)

lemma aes_example: "length b = 16 \<Longrightarrow> aes_blk tc_example (replicate 16 0) b = b"
  by (auto simp: aes_blk_def tc_example_def intro: nth_equalityI)

lemma mic_example:
  "rfc3610_mic tc_example (replicate 16 0) (replicate 13 0) [m] [] 4 ! 0 = 8 XOR m"
  by (simp add: rfc3610_mic_def cbc_mac_def rfc3610_blocks_def aes_example length_ctr_block ctr_block_def
      xor.assoc [symmetric])

section \<open>Properties\<close>

text \<open>C5: AES-CCM encryption. The loops of \<^verbatim>\<open>bt_ccm_encrypt\<close> write the counter-mode encryption of the
  message, followed by the MIC that RFC 3610 defines, taken over what the output buffer held before the
  call. With the buffer holding the message, as all callers have it, this is RFC 3610. The message has fewer than 256
  octets and the additional data fewer than 254.\<close>

theorem ccm_encrypt_rfc3610:
  assumes "tinycrypt_ok tc" "length key = 16" "length nonce = 13"
    and "mic_size = 4 \<or> mic_size = 8" and "length aad < 254" "length msg < 256"
    and "length out = length msg + mic_size"
  shows "bt_ccm_encrypt tc key nonce msg aad out mic_size =
    Inr (ctr_crypt tc key nonce msg @ rfc3610_mic tc key nonce (take (length msg) out) aad mic_size)"
  by (rule ccm_encrypt_eq [OF assms])

theorem ccm_encrypt_rfc3610_witness:
  "bt_ccm_encrypt tc_example (replicate 16 7) (replicate 13 1) [1, 2, 3] [9] [1, 2, 3, 0, 0, 0, 0] 4 =
    Inr (ctr_crypt tc_example (replicate 16 7) (replicate 13 1) [1, 2, 3]
         @ rfc3610_mic tc_example (replicate 16 7) (replicate 13 1) [1, 2, 3] [9] 4)"
  using ccm_encrypt_rfc3610 [OF tc_example_ok, of "replicate 16 7" "replicate 13 1" 4 "[9]" "[1, 2, 3]"
    "[1, 2, 3, 0, 0, 0, 0]"] by simp

text \<open>C6: decryption inverts encryption. A message encrypted in place, with or without additional data,
  is recovered by \<^verbatim>\<open>bt_ccm_decrypt\<close>, whatever the block cipher; and a message whose MIC is not the
  one of its decryption is refused with \<^verbatim>\<open>-EBADMSG\<close>.\<close>

theorem ccm_roundtrip:
  assumes "tinycrypt_ok tc" "length key = 16" "length nonce = 13"
    and "mic_size = 4 \<or> mic_size = 8" and "length aad < 254" "length msg < 256"
    and "length room = mic_size" "length out = length msg" "length m = mic_size"
  shows "(\<exists>enc. bt_ccm_encrypt tc key nonce msg aad (msg @ room) mic_size = Inr enc \<and>
            length enc = length msg + mic_size \<and>
            bt_ccm_decrypt tc key nonce enc (length msg) aad out mic_size = Inr msg) \<and>
         (bt_ccm_decrypt tc key nonce (msg @ m) (length msg) aad out mic_size = Inl EBADMSG \<longleftrightarrow>
            m \<noteq> rfc3610_mic tc key nonce (ctr_crypt tc key nonce msg) aad mic_size)"
proof -
  let ?e = "ctr_crypt tc key nonce msg" and ?m = "rfc3610_mic tc key nonce msg aad mic_size"
  have lm: "length ?m = mic_size" using assms(4) by (auto simp: length_rfc3610_mic)
  have "bt_ccm_decrypt tc key nonce (?e @ ?m) (length ?e) aad out mic_size = Inr msg"
    using ccm_decrypt_iff [OF assms(1-5), of ?e out ?m] assms(6,8) lm by (simp add: Let_def ctr_crypt_invol)
  with ccm_encrypt_inplace [OF assms(1-7)] ccm_decrypt_iff [OF assms(1-6,8,9)] lm show ?thesis
    by (auto simp: Let_def)
qed

theorem ccm_roundtrip_witness:
  "\<exists>enc. bt_ccm_encrypt tc_example (replicate 16 7) (replicate 13 1) [1, 2, 3] [9] [1, 2, 3, 0, 0, 0, 0] 4 = Inr enc \<and>
     bt_ccm_decrypt tc_example (replicate 16 7) (replicate 13 1) enc 3 [9] [0, 0, 0] 4 = Inr [1, 2, 3]"
  using ccm_roundtrip [OF tc_example_ok, of "replicate 16 7" "replicate 13 1" 4 "[9]" "[1, 2, 3]"
    "[0, 0, 0, 0]" "[0, 0, 0]" "[0, 0, 0, 0]"] by (simp add: numeral_3_eq_3) blast

text \<open>C7: encryption into a buffer other than the message's, which include/bluetooth/crypto.h documents. For every
  cipher, message and buffer, \<^verbatim>\<open>bt_ccm_decrypt\<close> of the result gives the message back exactly when the old contents of
  the buffer have the MIC of the message, and refuses it with \<^verbatim>\<open>-EBADMSG\<close> otherwise.\<close>

theorem ccm_encrypt_other_buffer:
  assumes "tinycrypt_ok tc" "length key = 16" "length nonce = 13"
    and "mic_size = 4 \<or> mic_size = 8" and "length aad < 254" "length msg < 256"
    and "length out = length msg + mic_size" "length dec = length msg"
  shows "\<exists>enc. bt_ccm_encrypt tc key nonce msg aad out mic_size = Inr enc \<and>
    bt_ccm_decrypt tc key nonce enc (length msg) aad dec mic_size =
      (if rfc3610_mic tc key nonce (take (length msg) out) aad mic_size = rfc3610_mic tc key nonce msg aad mic_size
       then Inr msg else Inl EBADMSG)"
proof -
  let ?e = "ctr_crypt tc key nonce msg" and ?m = "rfc3610_mic tc key nonce (take (length msg) out) aad mic_size"
  have lm: "length ?m = mic_size" using assms(4) by (auto simp: length_rfc3610_mic)
  have "bt_ccm_decrypt tc key nonce (?e @ ?m) (length ?e) aad dec mic_size =
    (if ?m = rfc3610_mic tc key nonce msg aad mic_size then Inr msg else Inl EBADMSG)"
    using ccm_decrypt_iff [OF assms(1-5), of ?e dec ?m] assms(6,8) lm by (simp add: Let_def ctr_crypt_invol)
  with ccm_encrypt_eq [OF assms(1-7)] show ?thesis by auto
qed

theorem ccm_encrypt_other_buffer_witness:
  "\<exists>enc. bt_ccm_encrypt tc_example (replicate 16 0) (replicate 13 0) [1] [] [0, 0, 0, 0, 0] 4 = Inr enc \<and>
     bt_ccm_decrypt tc_example (replicate 16 0) (replicate 13 0) enc 1 [] [0] 4 = Inl EBADMSG"
proof -
  let ?k = "replicate 16 (0 :: u8)" and ?n = "replicate 13 (0 :: u8)"
  let ?mic = "\<lambda>m. rfc3610_mic tc_example ?k ?n [m] [] 4"
  have "?mic 0 ! 0 \<noteq> ?mic 1 ! 0" unfolding mic_example by simp
  then have "?mic 0 \<noteq> ?mic 1" by metis
  with ccm_encrypt_other_buffer [OF tc_example_ok, of ?k ?n 4 "[]" "[1]" "[0, 0, 0, 0, 0]" "[0]"] show ?thesis by simp
qed

end
