(* ===== verification/Mesh_Crypto.thy ===== *)
theory Mesh_Crypto
  imports Aes_Ccm
begin

text \<open>
  The mesh security toolbox of subsys/bluetooth/mesh/crypto.c and crypto.h: key derivation, the nonces,
  obfuscation, network and application encryption in place in a network buffer, and the frame check
  sequence of the advertising provisioning bearer. A function that fills an output array returns its
  contents. The proxy nonce is compiled in, as in the configuration of Project/Beacon
  (\<^verbatim>\<open>CONFIG_BT_MESH_GATT_PROXY=y\<close>).
\<close>

section \<open>Key derivation\<close>

definition c_str :: "string \<Rightarrow> bytes" where
  "c_str s = map of_char s"

definition bt_mesh_aes_cmac :: "tinycrypt \<Rightarrow> bytes \<Rightarrow> bytes list \<Rightarrow> errno + bytes" where
  "bt_mesh_aes_cmac tc key sg =
     (case tc_cmac tc key (concat sg) of None \<Rightarrow> Inl EIO | Some mac \<Rightarrow> Inr mac)"

definition bt_mesh_aes_cmac_one :: "tinycrypt \<Rightarrow> bytes \<Rightarrow> bytes \<Rightarrow> errno + bytes" where
  "bt_mesh_aes_cmac_one tc key m = bt_mesh_aes_cmac tc key [m]"

text \<open>\<^verbatim>\<open>bt_mesh_s1\<close> is declared \<^verbatim>\<open>bool\<close>: an error number of the CMAC reaches the caller as 1.\<close>

definition bt_mesh_s1 :: "tinycrypt \<Rightarrow> string \<Rightarrow> errno + bytes" where
  "bt_mesh_s1 tc m =
     (case bt_mesh_aes_cmac_one tc (replicate 16 0) (c_str m) of Inl _ \<Rightarrow> Inl ETRUE | Inr salt \<Rightarrow> Inr salt)"

definition bt_mesh_k1 :: "tinycrypt \<Rightarrow> bytes \<Rightarrow> bytes \<Rightarrow> bytes \<Rightarrow> errno + bytes" where
  "bt_mesh_k1 tc ikm salt info =
     ebind (bt_mesh_aes_cmac_one tc salt ikm) (\<lambda>okm. bt_mesh_aes_cmac_one tc okm info)"

definition bt_mesh_k2 :: "tinycrypt \<Rightarrow> bytes \<Rightarrow> bytes \<Rightarrow> errno + (u8 \<times> bytes \<times> bytes)" where
  "bt_mesh_k2 tc n p =
     ebind (bt_mesh_s1 tc ''smk2'') (\<lambda>salt.
     ebind (bt_mesh_aes_cmac_one tc salt n) (\<lambda>t.
     ebind (bt_mesh_aes_cmac tc t [[], p, [0x01]]) (\<lambda>out1.
     ebind (bt_mesh_aes_cmac tc t [out1, p, [0x02]]) (\<lambda>enc_key.
     ebind (bt_mesh_aes_cmac tc t [enc_key, p, [0x03]]) (\<lambda>priv_key.
     Inr (out1 ! 15 AND 0x7f, enc_key, priv_key))))))"

definition bt_mesh_k3 :: "tinycrypt \<Rightarrow> bytes \<Rightarrow> errno + bytes" where
  "bt_mesh_k3 tc n =
     ebind (bt_mesh_s1 tc ''smk3'') (\<lambda>tmp.
     ebind (bt_mesh_aes_cmac_one tc tmp n) (\<lambda>t.
     ebind (bt_mesh_aes_cmac_one tc t (c_str ''id64'' @ [0x01])) (\<lambda>tmp.
     Inr (take 8 (drop 8 tmp)))))"

definition bt_mesh_k4 :: "tinycrypt \<Rightarrow> bytes \<Rightarrow> errno + u8" where
  "bt_mesh_k4 tc n =
     ebind (bt_mesh_s1 tc ''smk4'') (\<lambda>tmp.
     ebind (bt_mesh_aes_cmac_one tc tmp n) (\<lambda>t.
     ebind (bt_mesh_aes_cmac_one tc t (c_str ''id6'' @ [0x01])) (\<lambda>tmp.
     Inr (tmp ! 15 AND mask 6))))"

definition bt_mesh_id128 :: "tinycrypt \<Rightarrow> bytes \<Rightarrow> string \<Rightarrow> errno + bytes" where
  "bt_mesh_id128 tc n s =
     ebind (bt_mesh_s1 tc s) (\<lambda>salt. bt_mesh_k1 tc n salt (c_str ''id128'' @ [0x01]))"

definition bt_mesh_identity_key :: "tinycrypt \<Rightarrow> bytes \<Rightarrow> errno + bytes" where
  "bt_mesh_identity_key tc net_key = bt_mesh_id128 tc net_key ''nkik''"

definition bt_mesh_beacon_key :: "tinycrypt \<Rightarrow> bytes \<Rightarrow> errno + bytes" where
  "bt_mesh_beacon_key tc net_key = bt_mesh_id128 tc net_key ''nkbk''"

definition bt_mesh_app_id :: "tinycrypt \<Rightarrow> bytes \<Rightarrow> errno + u8" where
  "bt_mesh_app_id tc app_key = bt_mesh_k4 tc app_key"

definition bt_mesh_session_key :: "tinycrypt \<Rightarrow> bytes \<Rightarrow> bytes \<Rightarrow> errno + bytes" where
  "bt_mesh_session_key tc dhkey prov_salt = bt_mesh_k1 tc dhkey prov_salt (c_str ''prsk'')"

definition bt_mesh_prov_nonce :: "tinycrypt \<Rightarrow> bytes \<Rightarrow> bytes \<Rightarrow> errno + bytes" where
  "bt_mesh_prov_nonce tc dhkey prov_salt =
     ebind (bt_mesh_k1 tc dhkey prov_salt (c_str ''prsn'')) (\<lambda>tmp. Inr (take 13 (drop 3 tmp)))"

definition bt_mesh_dev_key :: "tinycrypt \<Rightarrow> bytes \<Rightarrow> bytes \<Rightarrow> errno + bytes" where
  "bt_mesh_dev_key tc dhkey prov_salt = bt_mesh_k1 tc dhkey prov_salt (c_str ''prdk'')"

definition bt_mesh_prov_salt :: "tinycrypt \<Rightarrow> bytes \<Rightarrow> bytes \<Rightarrow> bytes \<Rightarrow> errno + bytes" where
  "bt_mesh_prov_salt tc conf_salt prov_rand dev_rand =
     bt_mesh_aes_cmac tc (replicate 16 0) [conf_salt, prov_rand, dev_rand]"

definition bt_mesh_prov_conf_salt :: "tinycrypt \<Rightarrow> bytes \<Rightarrow> errno + bytes" where
  "bt_mesh_prov_conf_salt tc conf_inputs = bt_mesh_aes_cmac_one tc (replicate 16 0) conf_inputs"

definition bt_mesh_prov_conf_key :: "tinycrypt \<Rightarrow> bytes \<Rightarrow> bytes \<Rightarrow> errno + bytes" where
  "bt_mesh_prov_conf_key tc dhkey conf_salt = bt_mesh_k1 tc dhkey conf_salt (c_str ''prck'')"

definition bt_mesh_prov_conf :: "tinycrypt \<Rightarrow> bytes \<Rightarrow> bytes \<Rightarrow> bytes \<Rightarrow> errno + bytes" where
  "bt_mesh_prov_conf tc conf_key rand auth = bt_mesh_aes_cmac tc conf_key [rand, auth]"

definition bt_mesh_beacon_auth :: "tinycrypt \<Rightarrow> bytes \<Rightarrow> u8 \<Rightarrow> bytes \<Rightarrow> u32 \<Rightarrow> errno + bytes" where
  "bt_mesh_beacon_auth tc beacon_key flags net_id iv_index =
     ebind (bt_mesh_aes_cmac_one tc beacon_key (flags # take 8 net_id @ sys_put_be32 iv_index))
       (\<lambda>tmp. Inr (take 8 tmp))"

definition bt_mesh_virtual_addr :: "tinycrypt \<Rightarrow> bytes \<Rightarrow> errno + u16" where
  "bt_mesh_virtual_addr tc virtual_label =
     ebind (bt_mesh_s1 tc ''vtad'') (\<lambda>salt.
     ebind (bt_mesh_aes_cmac_one tc salt virtual_label) (\<lambda>tmp.
     Inr ((sys_get_be16 (drop 14 tmp) AND 0x3fff) OR 0x8000)))"

section \<open>Nonces\<close>

definition create_proxy_nonce :: "bytes \<Rightarrow> u32 \<Rightarrow> bytes" where
  "create_proxy_nonce pdu iv_index =
     [0x03, 0x00, pdu ! 2, pdu ! 3, pdu ! 4, pdu ! 5, pdu ! 6, 0, 0] @ sys_put_be32 iv_index"

definition create_net_nonce :: "bytes \<Rightarrow> u32 \<Rightarrow> bytes" where
  "create_net_nonce pdu iv_index =
     [0x00, pdu ! 1, pdu ! 2, pdu ! 3, pdu ! 4, pdu ! 5, pdu ! 6, 0, 0] @ sys_put_be32 iv_index"

record bt_mesh_app_crypto_ctx =
  ac_dev_key :: bool
  ac_aszmic :: bool
  ac_src :: u16
  ac_dst :: u16
  ac_seq_num :: u32
  ac_iv_index :: u32
  ac_ad :: "bytes option"

definition create_app_nonce :: "bt_mesh_app_crypto_ctx \<Rightarrow> bytes" where
  "create_app_nonce ctx =
     (if ac_dev_key ctx then 0x02 else 0x01)
     # sys_put_be32 (ac_seq_num ctx OR push_bit 31 (of_bool (ac_aszmic ctx)))
     @ sys_put_be16 (ac_src ctx) @ sys_put_be16 (ac_dst ctx) @ sys_put_be32 (ac_iv_index ctx)"

section \<open>Network PDUs\<close>

definition NET_MIC_LEN :: "bytes \<Rightarrow> nat" where
  "NET_MIC_LEN pdu = (if pdu ! 1 AND 0x80 \<noteq> 0 then 8 else 4)"

definition APP_MIC_LEN :: "bool \<Rightarrow> nat" where
  "APP_MIC_LEN aszmic = (if aszmic then 8 else 4)"

text \<open>The loop of \<^verbatim>\<open>bt_mesh_net_obfuscate\<close> is the six bytes from \<^verbatim>\<open>pdu[1]\<close> on.\<close>

definition bt_mesh_net_obfuscate :: "tinycrypt \<Rightarrow> bytes \<Rightarrow> u32 \<Rightarrow> bytes \<Rightarrow> errno + bytes" where
  "bt_mesh_net_obfuscate tc pdu iv_index privacy_key =
     (let priv_rand = replicate 5 0 @ sys_put_be32 iv_index @ take 7 (drop 7 pdu) in
      ebind (bt_encrypt_be tc privacy_key priv_rand)
        (\<lambda>tmp. Inr (mem_put 1 (map (\<lambda>i. pdu ! (1 + i) XOR tmp ! i) [0..<6]) pdu)))"

text \<open>The nonce of a network PDU, and the payload encrypted in place with the MIC behind it.\<close>

definition net_nonce :: "bytes \<Rightarrow> u32 \<Rightarrow> bool \<Rightarrow> bytes" where
  "net_nonce pdu iv_index proxy =
     (if proxy then create_proxy_nonce pdu iv_index else create_net_nonce pdu iv_index)"

definition bt_mesh_net_encrypt ::
    "tinycrypt \<Rightarrow> bytes \<Rightarrow> net_buf_simple \<Rightarrow> u32 \<Rightarrow> bool \<Rightarrow> (errno + net_buf_simple) option" where
  "bt_mesh_net_encrypt tc key buf iv_index proxy =
     (let d = nb_data buf; mic_len = NET_MIC_LEN d; nonce = net_nonce d iv_index proxy in
      do { (tail, buf') \<leftarrow> net_buf_simple_add buf mic_len;
           Some (ebind (bt_ccm_encrypt tc key nonce (drop 7 d) []
                         (take (nb_len buf - 7 + mic_len) (drop (nb_off buf + 7) (nb_store buf))) mic_len)
                   (\<lambda>enc. Inr (nb_write buf' (nb_off buf + 7) enc))) })"

definition bt_mesh_net_decrypt ::
    "tinycrypt \<Rightarrow> bytes \<Rightarrow> net_buf_simple \<Rightarrow> u32 \<Rightarrow> bool \<Rightarrow> errno + net_buf_simple" where
  "bt_mesh_net_decrypt tc key buf iv_index proxy =
     (let d = nb_data buf; mic_len = NET_MIC_LEN d; nonce = net_nonce d iv_index proxy;
          buf' = buf\<lparr>nb_len := nb_len buf - mic_len\<rparr> in
      ebind (bt_ccm_decrypt tc key nonce (drop 7 d) (nb_len buf' - 7) []
               (take (nb_len buf' - 7) (drop 7 d)) mic_len)
        (\<lambda>msg. Inr (nb_write buf' (nb_off buf + 7) msg)))"

section \<open>Application payloads\<close>

definition app_aad :: "bt_mesh_app_crypto_ctx \<Rightarrow> bytes" where
  "app_aad ctx = (case ac_ad ctx of None \<Rightarrow> [] | Some ad \<Rightarrow> take 16 ad)"

definition bt_mesh_app_encrypt ::
    "tinycrypt \<Rightarrow> bytes \<Rightarrow> bt_mesh_app_crypto_ctx \<Rightarrow> net_buf_simple \<Rightarrow> (errno + net_buf_simple) option" where
  "bt_mesh_app_encrypt tc key ctx buf =
     (let mic_len = APP_MIC_LEN (ac_aszmic ctx) in
      do { (tail, buf') \<leftarrow> net_buf_simple_add buf mic_len;
           Some (ebind (bt_ccm_encrypt tc key (create_app_nonce ctx) (nb_data buf) (app_aad ctx)
                         (take (nb_len buf + mic_len) (drop (nb_off buf) (nb_store buf))) mic_len)
                   (\<lambda>enc. Inr (nb_write buf' (nb_off buf) enc))) })"

text \<open>
  The encrypted data is \<open>nb_data buf\<close>; its MIC lies behind the data in the storage of \<open>buf\<close>. The
  plaintext goes to the start of \<open>out\<close>.
\<close>

definition bt_mesh_app_decrypt ::
    "tinycrypt \<Rightarrow> bytes \<Rightarrow> bt_mesh_app_crypto_ctx \<Rightarrow> net_buf_simple \<Rightarrow> net_buf_simple \<Rightarrow>
     (errno + net_buf_simple) option" where
  "bt_mesh_app_decrypt tc key ctx buf out =
     (case bt_ccm_decrypt tc key (create_app_nonce ctx) (drop (nb_off buf) (nb_store buf)) (nb_len buf)
             (app_aad ctx) (take (nb_len buf) (drop (nb_off out) (nb_store out))) (APP_MIC_LEN (ac_aszmic ctx)) of
        Inl err \<Rightarrow> Some (Inl err)
      | Inr msg \<Rightarrow>
          do { (tail, out') \<leftarrow> net_buf_simple_add out (nb_len buf); Some (Inr (nb_write out' (nb_off out) msg)) })"

definition bt_mesh_prov_decrypt :: "tinycrypt \<Rightarrow> bytes \<Rightarrow> bytes \<Rightarrow> bytes \<Rightarrow> bytes \<Rightarrow> errno + bytes" where
  "bt_mesh_prov_decrypt tc key nonce data out = bt_ccm_decrypt tc key nonce data 25 [] out 8"

definition bt_mesh_prov_encrypt :: "tinycrypt \<Rightarrow> bytes \<Rightarrow> bytes \<Rightarrow> bytes \<Rightarrow> bytes \<Rightarrow> errno + bytes" where
  "bt_mesh_prov_encrypt tc key nonce data out = bt_ccm_encrypt tc key nonce (take 25 data) [] out 8"

section \<open>The frame check sequence\<close>

definition crc_table :: bytes where
  "crc_table =
    [0x00, 0x91, 0xe3, 0x72, 0x07, 0x96, 0xe4, 0x75, 0x0e, 0x9f, 0xed, 0x7c, 0x09, 0x98, 0xea, 0x7b,
     0x1c, 0x8d, 0xff, 0x6e, 0x1b, 0x8a, 0xf8, 0x69, 0x12, 0x83, 0xf1, 0x60, 0x15, 0x84, 0xf6, 0x67,
     0x38, 0xa9, 0xdb, 0x4a, 0x3f, 0xae, 0xdc, 0x4d, 0x36, 0xa7, 0xd5, 0x44, 0x31, 0xa0, 0xd2, 0x43,
     0x24, 0xb5, 0xc7, 0x56, 0x23, 0xb2, 0xc0, 0x51, 0x2a, 0xbb, 0xc9, 0x58, 0x2d, 0xbc, 0xce, 0x5f,
     0x70, 0xe1, 0x93, 0x02, 0x77, 0xe6, 0x94, 0x05, 0x7e, 0xef, 0x9d, 0x0c, 0x79, 0xe8, 0x9a, 0x0b,
     0x6c, 0xfd, 0x8f, 0x1e, 0x6b, 0xfa, 0x88, 0x19, 0x62, 0xf3, 0x81, 0x10, 0x65, 0xf4, 0x86, 0x17,
     0x48, 0xd9, 0xab, 0x3a, 0x4f, 0xde, 0xac, 0x3d, 0x46, 0xd7, 0xa5, 0x34, 0x41, 0xd0, 0xa2, 0x33,
     0x54, 0xc5, 0xb7, 0x26, 0x53, 0xc2, 0xb0, 0x21, 0x5a, 0xcb, 0xb9, 0x28, 0x5d, 0xcc, 0xbe, 0x2f,
     0xe0, 0x71, 0x03, 0x92, 0xe7, 0x76, 0x04, 0x95, 0xee, 0x7f, 0x0d, 0x9c, 0xe9, 0x78, 0x0a, 0x9b,
     0xfc, 0x6d, 0x1f, 0x8e, 0xfb, 0x6a, 0x18, 0x89, 0xf2, 0x63, 0x11, 0x80, 0xf5, 0x64, 0x16, 0x87,
     0xd8, 0x49, 0x3b, 0xaa, 0xdf, 0x4e, 0x3c, 0xad, 0xd6, 0x47, 0x35, 0xa4, 0xd1, 0x40, 0x32, 0xa3,
     0xc4, 0x55, 0x27, 0xb6, 0xc3, 0x52, 0x20, 0xb1, 0xca, 0x5b, 0x29, 0xb8, 0xcd, 0x5c, 0x2e, 0xbf,
     0x90, 0x01, 0x73, 0xe2, 0x97, 0x06, 0x74, 0xe5, 0x9e, 0x0f, 0x7d, 0xec, 0x99, 0x08, 0x7a, 0xeb,
     0x8c, 0x1d, 0x6f, 0xfe, 0x8b, 0x1a, 0x68, 0xf9, 0x82, 0x13, 0x61, 0xf0, 0x85, 0x14, 0x66, 0xf7,
     0xa8, 0x39, 0x4b, 0xda, 0xaf, 0x3e, 0x4c, 0xdd, 0xa6, 0x37, 0x45, 0xd4, 0xa1, 0x30, 0x42, 0xd3,
     0xb4, 0x25, 0x57, 0xc6, 0xb3, 0x22, 0x50, 0xc1, 0xba, 0x2b, 0x59, 0xc8, 0xbd, 0x2c, 0x5e, 0xcf]"

definition fcs_loop :: "bytes \<Rightarrow> u8" where
  "fcs_loop data = foldl (\<lambda>fcs d. crc_table ! unat (fcs XOR d)) 0xff data"

text \<open>\<^verbatim>\<open>data_len\<close> is a \<^verbatim>\<open>uint8_t\<close>.\<close>

definition bt_mesh_fcs_calc :: "bytes \<Rightarrow> nat \<Rightarrow> u8" where
  "bt_mesh_fcs_calc data data_len = 0xff - fcs_loop (take (data_len mod 256) data)"

definition bt_mesh_fcs_check :: "net_buf_simple \<Rightarrow> u8 \<Rightarrow> bool" where
  "bt_mesh_fcs_check buf received_fcs \<longleftrightarrow>
     crc_table ! unat (fcs_loop (nb_data buf) XOR received_fcs) = 0xcf"

section \<open>Obfuscation\<close>

lemma obfuscate_eq:
  assumes "tinycrypt_ok tc" "length pk = 16" "14 \<le> length pdu"
  shows "\<exists>tmp. length tmp = 16 \<and> (\<forall>pdu'. length pdu' = length pdu \<longrightarrow> drop 7 pdu' = drop 7 pdu \<longrightarrow>
           bt_mesh_net_obfuscate tc pdu' iv pk = Inr (mem_put 1 (map (\<lambda>i. pdu' ! (1 + i) XOR tmp ! i) [0..<6]) pdu'))"
proof -
  let ?r = "replicate 5 0 @ sys_put_be32 iv @ take 7 (drop 7 pdu)"
  have "length ?r = 16" using assms(3) by simp
  note e = bt_encrypt_be_ok [OF assms(1,2) this]
  show ?thesis
    by (rule exI [of _ "aes_blk tc pk ?r"]) (use e in \<open>simp add: bt_mesh_net_obfuscate_def Let_def\<close>)
qed

lemma obfuscate_invol:
  assumes "tinycrypt_ok tc" "length pk = 16" "14 \<le> length pdu"
  shows "\<exists>ob. bt_mesh_net_obfuscate tc pdu iv pk = Inr ob \<and> length ob = length pdu \<and>
           ob ! 0 = pdu ! 0 \<and> drop 7 ob = drop 7 pdu \<and> bt_mesh_net_obfuscate tc ob iv pk = Inr pdu"
proof -
  from obfuscate_eq [OF assms, of iv] obtain tmp where
    t: "\<And>pdu'. length pdu' = length pdu \<Longrightarrow> drop 7 pdu' = drop 7 pdu \<Longrightarrow>
           bt_mesh_net_obfuscate tc pdu' iv pk = Inr (mem_put 1 (map (\<lambda>i. pdu' ! (1 + i) XOR tmp ! i) [0..<6]) pdu')"
    by blast
  let ?m = "\<lambda>p. mem_put 1 (map (\<lambda>i. p ! (1 + i) XOR tmp ! i) [0..<6]) p"
  have len: "length (?m pdu) = length pdu" using assms(3) by simp
  have nth: "?m p ! i = (if 1 \<le> i \<and> i < 7 then p ! i XOR tmp ! (i - 1) else p ! i)"
    if "length p = length pdu" "i < length p" for p i
    using nth_mem_put [of 1 "map (\<lambda>i. p ! (1 + i) XOR tmp ! i) [0..<6]" p i] that assms(3) by auto
  have "drop 7 (?m pdu) = drop 7 pdu" using assms(3) by (simp add: mem_put_def)
  moreover have "?m (?m pdu) = pdu"
  proof (rule nth_equalityI)
    show "length (?m (?m pdu)) = length pdu" using assms(3) len by simp
    show "?m (?m pdu) ! i = pdu ! i" if "i < length (?m (?m pdu))" for i
      using that nth [of "?m pdu" i] nth [of pdu i] assms(3) len by (simp add: xor.assoc split: if_splits)
  qed
  moreover have "?m pdu ! 0 = pdu ! 0" using nth [of pdu 0] assms(3) by (cases pdu) simp_all
  ultimately show ?thesis using t [of pdu] t [of "?m pdu"] len
    by (intro exI [of _ "?m pdu"]) simp
qed

section \<open>Encryption in a buffer\<close>

lemma length_net_nonce [simp]: "length (net_nonce pdu iv proxy) = 13"
  by (simp add: net_nonce_def create_proxy_nonce_def create_net_nonce_def)

lemma length_create_app_nonce [simp]: "length (create_app_nonce ctx) = 13"
  by (simp add: create_app_nonce_def)

lemma net_mic_len: "NET_MIC_LEN pdu = 4 \<or> NET_MIC_LEN pdu = 8"
  by (simp add: NET_MIC_LEN_def)

lemma nth_below_7: "i < 7 \<Longrightarrow> take 7 xs = take 7 ys \<Longrightarrow> xs ! i = ys ! i"
  by (metis nth_take)

lemma net_nonce_cong: "take 7 p = take 7 q \<Longrightarrow> net_nonce p iv proxy = net_nonce q iv proxy"
  by (simp add: net_nonce_def create_proxy_nonce_def create_net_nonce_def nth_below_7 [of _ p q])

lemma NET_MIC_LEN_cong: "take 7 p = take 7 q \<Longrightarrow> NET_MIC_LEN p = NET_MIC_LEN q"
  by (simp add: NET_MIC_LEN_def nth_below_7 [of _ p q])

lemma nb_tailroom_le:
  "nb_invar b \<Longrightarrow> n \<le> net_buf_simple_tailroom b \<longleftrightarrow> nb_off b + nb_len b + n \<le> nb_size b"
  by (auto simp: nb_invar_def net_buf_simple_tailroom_def net_buf_simple_headroom_def)

text \<open>Overwriting the bytes of a buffer from position \<open>k\<close> of the data on.\<close>

lemma nb_write_data:
  assumes "nb_invar b" "k + length bs = nb_len b"
  shows "nb_invar (nb_write b (nb_off b + k) bs)" "nb_data (nb_write b (nb_off b + k) bs) = take k (nb_data b) @ bs"
    "nb_off (nb_write b (nb_off b + k) bs) = nb_off b" "nb_size (nb_write b (nb_off b + k) bs) = nb_size b"
proof -
  have le: "nb_off b + k + length bs \<le> length (nb_store b)" using assms by (simp add: nb_basic_defs)
  then have l: "length (nb_store (nb_write b (nb_off b + k) bs)) = length (nb_store b)" by (simp add: nb_write_def)
  then show "nb_off (nb_write b (nb_off b + k) bs) = nb_off b" "nb_size (nb_write b (nb_off b + k) bs) = nb_size b"
    by (simp_all add: nb_write_def nb_size_def)
  show "nb_invar (nb_write b (nb_off b + k) bs)" using assms(1) l by (simp add: nb_invar_def nb_size_def nb_write_def)
  have "drop (nb_off b) (take (nb_off b + k) (nb_store b)) = take k (nb_data b)"
    using assms(2) by (simp add: nb_data_def drop_take min_def)
  then show "nb_data (nb_write b (nb_off b + k) bs) = take k (nb_data b) @ bs"
    using assms(2) le by (simp add: nb_data_def nb_write_def)
qed

definition net_pdu_mic :: "tinycrypt \<Rightarrow> bytes \<Rightarrow> bytes \<Rightarrow> u32 \<Rightarrow> bool \<Rightarrow> bytes" where
  "net_pdu_mic tc key d iv proxy = rfc3610_mic tc key (net_nonce d iv proxy) (drop 7 d) [] (NET_MIC_LEN d)"

lemma net_encrypt_data:
  assumes ok: "tinycrypt_ok tc" "length key = 16" and b: "nb_invar b" "nb_data b = d"
    and len: "7 \<le> length d" "length d < 256" and room: "NET_MIC_LEN d \<le> net_buf_simple_tailroom b"
  shows "\<exists>b'. bt_mesh_net_encrypt tc key b iv proxy = Some (Inr b') \<and> nb_invar b' \<and> nb_off b' = nb_off b \<and>
     nb_size b' = nb_size b \<and>
     nb_data b' = take 7 d @ ctr_crypt tc key (net_nonce d iv proxy) (drop 7 d) @ net_pdu_mic tc key d iv proxy"
proof -
  let ?m = "NET_MIC_LEN d" and ?n = "net_nonce d iv proxy"
  let ?enc = "ctr_crypt tc key ?n (drop 7 d) @ net_pdu_mic tc key d iv proxy"
  let ?out = "take (nb_len b - 7 + ?m) (drop (nb_off b + 7) (nb_store b))"
  have ld: "length d = nb_len b" using b length_nb_data by auto
  have lo: "length ?out = length (drop 7 d) + ?m"
    using b(1) ld len room
    by (simp add: nb_invar_def nb_size_def net_buf_simple_tailroom_def net_buf_simple_headroom_def) linarith
  have to: "take (length (drop 7 d)) ?out = drop 7 d"
    using b(2) ld len by (auto simp: nb_data_def drop_take min_def ac_simps)
  have enc: "bt_ccm_encrypt tc key ?n (drop 7 d) [] ?out ?m = Inr ?enc"
    using ccm_encrypt_eq [OF ok _ net_mic_len _ _ lo, of ?n "[]"] len to by (simp add: net_pdu_mic_def)
  let ?b = "b\<lparr>nb_len := nb_len b + ?m\<rparr>"
  have inv: "nb_invar ?b" using b(1) room nb_tailroom_le [OF b(1)] by (simp add: nb_invar_def nb_size_def)
  have le: "7 + length ?enc = nb_len ?b"
    using ld len net_mic_len [of d] by (auto simp: net_pdu_mic_def length_rfc3610_mic)
  have t7: "take 7 (nb_data ?b) = take 7 d" using b(2) ld len by (auto simp: nb_data_def min_def)
  note w = nb_write_data [OF inv le]
  have "bt_mesh_net_encrypt tc key b iv proxy = Some (Inr (nb_write ?b (nb_off b + 7) ?enc))"
    using enc room by (simp add: bt_mesh_net_encrypt_def Let_def b(2) net_buf_simple_add_def)
  with w t7 show ?thesis by (simp add: nb_size_def)
qed

lemma net_decrypt_data:
  assumes ok: "tinycrypt_ok tc" "length key = 16" and b: "nb_invar b" "nb_data b = p @ enc @ mic"
    and len: "length p = 7" "length enc < 256" "length mic = NET_MIC_LEN p"
  shows "bt_mesh_net_decrypt tc key b iv proxy =
     (let msg = ctr_crypt tc key (net_nonce p iv proxy) enc in
      if mic = net_pdu_mic tc key (p @ msg) iv proxy
      then Inr (nb_write (b\<lparr>nb_len := 7 + length enc\<rparr>) (nb_off b + 7) msg) else Inl EBADMSG)"
proof -
  have lb: "nb_len b = 7 + length enc + length mic" using b length_nb_data [of b] len by simp
  have cong: "NET_MIC_LEN (p @ x) = NET_MIC_LEN p" "net_nonce (p @ x) iv proxy = net_nonce p iv proxy" for x
    using NET_MIC_LEN_cong [of "p @ x" p] net_nonce_cong [of "p @ x" p] len(1) by simp_all
  have m: "NET_MIC_LEN p \<le> 16" using net_mic_len [of p] by auto
  show ?thesis
    using ccm_decrypt_iff [OF ok length_net_nonce net_mic_len _ _ _ len(3), of "[]" enc enc p iv proxy] lb len
    by (simp add: bt_mesh_net_decrypt_def Let_def b(2) cong net_pdu_mic_def)
qed

text \<open>Decryption of what encryption wrote.\<close>

lemma net_decrypt_encrypt:
  assumes ok: "tinycrypt_ok tc" "length key = 16" and b: "nb_invar b" 
    and d: "7 \<le> length d" "length d < 256"
    and e: "nb_data b = take 7 d @ ctr_crypt tc key (net_nonce d iv proxy) (drop 7 d) @ net_pdu_mic tc key d iv proxy"
  shows "\<exists>b'. bt_mesh_net_decrypt tc key b iv proxy = Inr b' \<and> nb_invar b' \<and> nb_data b' = d \<and> nb_off b' = nb_off b"
proof -
  let ?p = "take 7 d" and ?n = "net_nonce d iv proxy"
  have n: "net_nonce ?p iv proxy = ?n" and m: "NET_MIC_LEN ?p = NET_MIC_LEN d"
    by (rule net_nonce_cong, simp, rule NET_MIC_LEN_cong, simp)
  let ?e = "ctr_crypt tc key ?n (drop 7 d)"
  have lm: "length (net_pdu_mic tc key d iv proxy) = NET_MIC_LEN ?p"
    using net_mic_len [of d] by (auto simp: net_pdu_mic_def length_rfc3610_mic m)
  let ?b = "b\<lparr>nb_len := 7 + length ?e\<rparr>"
  have dec: "bt_mesh_net_decrypt tc key b iv proxy = Inr (nb_write ?b (nb_off b + 7) (drop 7 d))"
    using net_decrypt_data [OF ok b e _ _ lm] d by (simp add: Let_def ctr_crypt_invol n)
  have lb: "nb_len b = 7 + length ?e + NET_MIC_LEN d" using arg_cong [OF e, of length] length_nb_data [OF b] d lm m by simp
  have inv: "nb_invar ?b" using b lb by (simp add: nb_basic_defs)
  have "take 7 (nb_data ?b) = ?p"
    using arg_cong [OF e, of "take 7"] lb d by (simp add: nb_data_def min_def)
  with dec nb_write_data [OF inv, of 7 "drop 7 d"] d show ?thesis by (auto simp: nb_write_def)
qed

section \<open>Application payloads\<close>

lemma app_mic_len: "APP_MIC_LEN a = 4 \<or> APP_MIC_LEN a = 8"
  by (simp add: APP_MIC_LEN_def)

lemma length_app_aad: "length (app_aad ctx) < 254"
  by (auto simp: app_aad_def split: option.splits)

definition app_mic :: "tinycrypt \<Rightarrow> bytes \<Rightarrow> bt_mesh_app_crypto_ctx \<Rightarrow> bytes \<Rightarrow> bytes" where
  "app_mic tc key ctx msg =
     rfc3610_mic tc key (create_app_nonce ctx) msg (app_aad ctx) (APP_MIC_LEN (ac_aszmic ctx))"

lemma length_app_mic [simp]: "length (app_mic tc key ctx msg) = APP_MIC_LEN (ac_aszmic ctx)"
  using app_mic_len [of "ac_aszmic ctx"] by (auto simp: app_mic_def length_rfc3610_mic)

lemma app_encrypt_data:
  assumes ok: "tinycrypt_ok tc" "length key = 16" and b: "nb_invar b" "nb_data b = d"
    and len: "length d < 256" and room: "APP_MIC_LEN (ac_aszmic ctx) \<le> net_buf_simple_tailroom b"
  shows "\<exists>b'. bt_mesh_app_encrypt tc key ctx b = Some (Inr b') \<and> nb_invar b' \<and> nb_off b' = nb_off b \<and>
     nb_size b' = nb_size b \<and>
     nb_data b' = ctr_crypt tc key (create_app_nonce ctx) d @ app_mic tc key ctx d"
proof -
  let ?m = "APP_MIC_LEN (ac_aszmic ctx)" and ?n = "create_app_nonce ctx"
  let ?enc = "ctr_crypt tc key ?n d @ app_mic tc key ctx d"
  let ?out = "take (nb_len b + ?m) (drop (nb_off b) (nb_store b))"
  have ld: "length d = nb_len b" using b length_nb_data by auto
  have lo: "length ?out = length d + ?m"
    using b(1) ld len room
    by (simp add: nb_invar_def nb_size_def net_buf_simple_tailroom_def net_buf_simple_headroom_def) linarith
  have to: "take (length d) ?out = d" using b(2) ld by (auto simp: nb_data_def min_def)
  have enc: "bt_ccm_encrypt tc key ?n d (app_aad ctx) ?out ?m = Inr ?enc"
    using ccm_encrypt_eq [OF ok _ app_mic_len length_app_aad len lo, of ?n] to by (simp add: app_mic_def)
  let ?b = "b\<lparr>nb_len := nb_len b + ?m\<rparr>"
  have inv: "nb_invar ?b" using b(1) room nb_tailroom_le [OF b(1)] by (simp add: nb_invar_def nb_size_def)
  have le: "0 + length ?enc = nb_len ?b" using ld by simp
  note w = nb_write_data [OF inv le]
  have "bt_mesh_app_encrypt tc key ctx b = Some (Inr (nb_write ?b (nb_off b) ?enc))"
    using enc room by (simp add: bt_mesh_app_encrypt_def Let_def b(2) net_buf_simple_add_def)
  with w show ?thesis by (simp add: nb_size_def)
qed

text \<open>The receiver has cut the MIC off the buffer: it follows the data in the storage.\<close>

lemma app_decrypt_data:
  assumes ok: "tinycrypt_ok tc" "length key = 16"
    and b: "nb_data b = enc" "length enc = nb_len b" "length enc < 256"
    and mic: "length mic = APP_MIC_LEN (ac_aszmic ctx)"
      "take (nb_len b + length mic) (drop (nb_off b) (nb_store b)) = enc @ mic"
    and out: "nb_invar out" "nb_len out = 0" "length enc \<le> net_buf_simple_tailroom out"
  shows "bt_mesh_app_decrypt tc key ctx b out =
     (let msg = ctr_crypt tc key (create_app_nonce ctx) enc in
      if mic = app_mic tc key ctx msg
      then Some (Inr (nb_write (out\<lparr>nb_len := nb_len b\<rparr>) (nb_off out) msg)) else Some (Inl EBADMSG))"
proof -
  let ?n = "create_app_nonce ctx" and ?ml = "APP_MIC_LEN (ac_aszmic ctx)"
  let ?mem = "drop (nb_off b) (nb_store b)" and ?o = "take (nb_len b) (drop (nb_off out) (nb_store out))"
  have lo: "length ?o = length enc"
    using out b(2) by (simp add: nb_basic_defs net_buf_simple_tailroom_def net_buf_simple_headroom_def)
  have m: "take ?ml (drop (nb_len b) ?mem) = mic"
    using arg_cong [OF mic(2), of "drop (nb_len b)"] b(2) mic(1) by (simp add: take_drop ac_simps)
  have e: "take (nb_len b) ?mem = enc" using b(1) by (simp add: nb_data_def)
  have "bt_ccm_decrypt tc key ?n ?mem (nb_len b) (app_aad ctx) ?o ?ml =
        bt_ccm_decrypt tc key ?n (enc @ mic) (length enc) (app_aad ctx) ?o ?ml"
    using m e b(2) mic(1) by (simp add: bt_ccm_decrypt_def)
  with ccm_decrypt_iff [OF ok length_create_app_nonce app_mic_len length_app_aad b(3) lo mic(1)] out b(2)
  show ?thesis by (simp add: bt_mesh_app_decrypt_def Let_def app_mic_def net_buf_simple_add_def)
qed

section \<open>Key derivation succeeds\<close>

lemma cmac_ok:
  assumes "tinycrypt_ok tc" "length k = 16"
  shows "\<exists>c. bt_mesh_aes_cmac tc k sg = Inr c \<and> length c = 16"
proof -
  from assms obtain c where "tc_cmac tc k (concat sg) = Some c" "length c = 16"
    unfolding tinycrypt_ok_def by blast
  then show ?thesis by (simp add: bt_mesh_aes_cmac_def)
qed

lemma cmac_one_ok: "tinycrypt_ok tc \<Longrightarrow> length k = 16 \<Longrightarrow> \<exists>c. bt_mesh_aes_cmac_one tc k m = Inr c \<and> length c = 16"
  unfolding bt_mesh_aes_cmac_one_def by (rule cmac_ok)

lemma s1_ok: "tinycrypt_ok tc \<Longrightarrow> \<exists>c. bt_mesh_s1 tc m = Inr c \<and> length c = 16"
  using cmac_one_ok [of tc "replicate 16 0" "c_str m"] by (auto simp: bt_mesh_s1_def)

lemma k2_ok:
  assumes "tinycrypt_ok tc"
  shows "\<exists>nid e p. bt_mesh_k2 tc n q = Inr (nid, e, p) \<and> nid AND 0x80 = 0 \<and> length e = 16 \<and> length p = 16"
proof -
  from s1_ok [OF assms] obtain salt where 1: "bt_mesh_s1 tc ''smk2'' = Inr salt" "length salt = 16" by blast
  from cmac_one_ok [OF assms 1(2)] obtain t where 2: "bt_mesh_aes_cmac_one tc salt n = Inr t" "length t = 16" by blast
  from cmac_ok [OF assms 2(2)] obtain a where 3: "bt_mesh_aes_cmac tc t [[], q, [0x01]] = Inr a" by blast
  from cmac_ok [OF assms 2(2)] obtain e where 4: "bt_mesh_aes_cmac tc t [a, q, [0x02]] = Inr e" "length e = 16" by blast
  from cmac_ok [OF assms 2(2)] obtain p where 5: "bt_mesh_aes_cmac tc t [e, q, [0x03]] = Inr p" "length p = 16" by blast
  have "(x AND 0x7f) AND (0x80 :: u8) = 0" for x by (simp add: and.assoc)
  with 1 2 3 4 5 show ?thesis by (simp add: bt_mesh_k2_def)
qed

lemma k3_ok:
  assumes "tinycrypt_ok tc"
  shows "\<exists>i. bt_mesh_k3 tc n = Inr i \<and> length i = 8"
proof -
  from s1_ok [OF assms] obtain salt where 1: "bt_mesh_s1 tc ''smk3'' = Inr salt" "length salt = 16" by blast
  from cmac_one_ok [OF assms 1(2)] obtain t where 2: "bt_mesh_aes_cmac_one tc salt n = Inr t" "length t = 16" by blast
  from cmac_one_ok [OF assms 2(2)] obtain a where "bt_mesh_aes_cmac_one tc t (c_str ''id64'' @ [0x01]) = Inr a" "length a = 16"
    by blast
  with 1 2 show ?thesis by (simp add: bt_mesh_k3_def)
qed

lemma k1_ok:
  assumes "tinycrypt_ok tc" "length salt = 16"
  shows "\<exists>k. bt_mesh_k1 tc ikm salt info = Inr k \<and> length k = 16"
proof -
  from cmac_one_ok [OF assms] obtain a where a: "bt_mesh_aes_cmac_one tc salt ikm = Inr a" "length a = 16" by blast
  from cmac_one_ok [OF assms(1) a(2)] a(1) show ?thesis by (simp add: bt_mesh_k1_def)
qed

lemma id128_ok: "tinycrypt_ok tc \<Longrightarrow> \<exists>k. bt_mesh_id128 tc n s = Inr k \<and> length k = 16"
  using s1_ok [of tc s] k1_ok by (fastforce simp: bt_mesh_id128_def)

lemma app_id_ok:
  assumes "tinycrypt_ok tc"
  shows "\<exists>i. bt_mesh_app_id tc key = Inr i \<and> i < 0x40"
proof -
  from s1_ok [OF assms] obtain salt where 1: "bt_mesh_s1 tc ''smk4'' = Inr salt" "length salt = 16" by blast
  from cmac_one_ok [OF assms 1(2)] obtain t where 2: "bt_mesh_aes_cmac_one tc salt key = Inr t" "length t = 16" by blast
  from cmac_one_ok [OF assms 2(2)] obtain a where 3: "bt_mesh_aes_cmac_one tc t (c_str ''id6'' @ [0x01]) = Inr a" by blast
  have "(x AND mask 6 :: u8) < 0x40" for x using and_mask_less' [of 6 x] by simp
  with 1 2 3 show ?thesis by (simp add: bt_mesh_app_id_def bt_mesh_k4_def)
qed

section \<open>The frame check sequence is a CRC\<close>

text \<open>The reference: the bitwise CRC-8 with the reversed polynomial 0x07.\<close>

definition crc_shift :: "u8 \<Rightarrow> u8" where
  "crc_shift c = (if bit c 0 then drop_bit 1 c XOR 0xe0 else drop_bit 1 c)"

definition crc8 :: "bytes \<Rightarrow> u8" where
  "crc8 data = foldl (\<lambda>c d. (crc_shift ^^ 8) (c XOR d)) 0xff data"

definition crc_shift_int :: "int \<Rightarrow> int" where
  "crc_shift_int c = (if odd c then (c div 2) XOR 0xe0 else c div 2)"

lemma uint_crc_shift: "uint (crc_shift c) = crc_shift_int (uint c)"
proof -
  have "odd (uint c) = odd c" using bit_uint_iff [of c 0] by (simp add: bit_0)
  then show ?thesis
    by (simp add: crc_shift_def crc_shift_int_def bit_0 uint_xor uint_div drop_bit_eq_div)
qed

lemma crc_shift_int_simps:
  "crc_shift_int 0 = 0" "crc_shift_int 1 = 0xe0"
  "crc_shift_int (numeral (num.Bit0 n)) = numeral n"
  "crc_shift_int (numeral (num.Bit1 n)) = numeral n XOR 0xe0"
  by (simp_all add: crc_shift_int_def)

definition crc8_int :: "int \<Rightarrow> int" where
  "crc8_int c = crc_shift_int (crc_shift_int (crc_shift_int (crc_shift_int
     (crc_shift_int (crc_shift_int (crc_shift_int (crc_shift_int c)))))))"

lemma uint_crc_shift8: "uint ((crc_shift ^^ 8) c) = crc8_int (uint c)"
  by (simp add: numeral_eq_Suc uint_crc_shift crc8_int_def)

lemma crc_table_int: "map uint crc_table = map crc8_int [0..255]"
  by (simp add: crc_table_def crc_shift_int_simps upto_rec1 crc8_int_def)

lemma length_crc_table [simp]: "length crc_table = 256"
  by (simp add: crc_table_def)

lemma crc_table_nth: "crc_table ! unat c = (crc_shift ^^ 8) c" for c :: u8
proof -
  have c: "unat c < 256" using unat_lt_pow [of c] by simp
  have "uint (crc_table ! unat c) = map crc8_int [0..255] ! unat c"
    using c by (simp flip: crc_table_int)
  also have "\<dots> = crc8_int (uint c)"
  proof -
    have "0 + int (unat c) \<le> 255" using c by linarith
    from nth_upto [OF this] have "[0..255] ! unat c = uint c" by simp
    with c show ?thesis by simp
  qed
  finally show ?thesis by (simp add: word_uint_eq_iff uint_crc_shift8)
qed

lemma xor_left_cancel: "a XOR b = a XOR c \<longleftrightarrow> b = (c :: 'a::len word)"
  by (metis xor.assoc xor_self_eq xor.left_neutral)

lemma xor_right_cancel: "b XOR a = c XOR a \<longleftrightarrow> b = (c :: 'a::len word)"
  by (metis xor.commute xor_left_cancel)

lemma inj_crc_shift: "inj crc_shift"
proof (rule injI, rule bit_word_eqI)
  fix c d :: u8 and n assume eq: "crc_shift c = crc_shift d" and n: "n < LENGTH(8)"
  have 7: "bit (crc_shift x) 7 = bit x 0" for x
    by (simp add: crc_shift_def bit_simps)
  with eq have z: "bit c 0 = bit d 0" by metis
  with eq have "drop_bit 1 c = drop_bit 1 d"
    by (auto simp: crc_shift_def xor_right_cancel split: if_splits)
  then show "bit c n = bit d n"
    using z by (cases n) (auto simp: bit_drop_bit_eq dest: arg_cong [of _ _ "\<lambda>w. bit w (n - 1)"])
qed

lemma inj_crc_shift8: "inj (crc_shift ^^ 8)"
  by (rule inj_fn [OF inj_crc_shift])

lemma crc_foldl_inj:
  "foldl (\<lambda>c d. (crc_shift ^^ 8) (c XOR d)) a xs = foldl (\<lambda>c d. (crc_shift ^^ 8) (c XOR d)) b xs \<longleftrightarrow> a = b"
  by (induction xs arbitrary: a b) (simp_all add: inj_eq [OF inj_crc_shift8] xor_right_cancel)

lemma fcs_loop_crc8: "fcs_loop data = crc8 data"
  by (simp add: fcs_loop_def crc8_def crc_table_nth)

lemma fcs_check_iff: "bt_mesh_fcs_check buf f \<longleftrightarrow> f = 0xff - crc8 (nb_data buf)"
proof -
  let ?c = "crc8 (nb_data buf)"
  have "uint (crc_table ! unat (0xff :: u8)) = 0xcf"
    unfolding crc_table_nth uint_crc_shift8 by (simp add: crc8_int_def crc_shift_int_simps)
  then have t: "crc_table ! unat (0xff :: u8) = 0xcf" by (simp add: word_uint_eq_iff)
  have neg: "(0xff :: u8) - x = NOT x" for x by (simp add: not_eq_complement)
  have "bt_mesh_fcs_check buf f \<longleftrightarrow> crc_table ! unat (?c XOR f) = crc_table ! unat (0xff :: u8)"
    unfolding bt_mesh_fcs_check_def fcs_loop_crc8 t ..
  also have "\<dots> \<longleftrightarrow> ?c XOR f = 0xff"
    unfolding crc_table_nth inj_eq [OF inj_crc_shift8] ..
  also have "\<dots> \<longleftrightarrow> f = NOT ?c"
  proof -
    have "(0xff :: u8) = ?c XOR NOT ?c" by simp
    then show ?thesis by (metis xor_left_cancel)
  qed
  finally show ?thesis using neg by simp
qed

section \<open>Properties\<close>

text \<open>C8: the address of a virtual label. Whatever the label and the keyed hash, \<^verbatim>\<open>bt_mesh_virtual_addr\<close>
  succeeds with an address of the virtual range.\<close>

theorem virtual_addr_range:
  assumes "tinycrypt_ok tc"
  shows "\<exists>a. bt_mesh_virtual_addr tc lbl = Inr a \<and> BT_MESH_ADDR_IS_VIRTUAL a"
proof -
  have v: "BT_MESH_ADDR_IS_VIRTUAL ((x AND 0x3fff) OR 0x8000)" for x
  proof -
    have m: "(0x3fff :: u16) = mask 14" "(0x8000 :: u16) = 2 ^ 15" by (simp_all add: mask_eq_exp_minus_1)
    have d: "(x AND 0x3fff) OR 0x8000 = (x AND 0x3fff) + 0x8000"
      unfolding m by (rule disjunctive_add [symmetric])
        (auto simp: bit_and_iff bit_mask_iff bit_exp_iff simp del: power_numeral)
    have "x AND 0x3fff < 0x4000" using and_mask_less' [of 14 x] by (simp add: mask_eq_exp_minus_1)
    then show ?thesis unfolding BT_MESH_ADDR_IS_VIRTUAL_def d
      by (simp add: word_less_nat_alt word_le_nat_alt unat_word_ariths)
  qed
  from s1_ok [OF assms] obtain salt where 1: "bt_mesh_s1 tc ''vtad'' = Inr salt" "length salt = 16" by blast
  from cmac_one_ok [OF assms 1(2)] obtain t where "bt_mesh_aes_cmac_one tc salt lbl = Inr t" by blast
  with 1 v show ?thesis by (simp add: bt_mesh_virtual_addr_def)
qed

theorem virtual_addr_range_witness:
  "\<exists>a. bt_mesh_virtual_addr tc_example (replicate 16 5) = Inr a \<and> BT_MESH_ADDR_IS_VIRTUAL a"
  by (rule virtual_addr_range [OF tc_example_ok])

text \<open>C9: application encryption. A payload encrypted in place by \<^verbatim>\<open>bt_mesh_app_encrypt\<close> is recovered by
  \<^verbatim>\<open>bt_mesh_app_decrypt\<close> with the same key and context in a buffer that holds the encrypted payload with
  the MIC behind it; the buffer of the receiver and its output buffer may be anywhere and of any size that
  fits.\<close>

theorem app_decrypt_encrypt:
  assumes "tinycrypt_ok tc" "length key = 16"
    and "nb_invar b" "length (nb_data b) < 256" "APP_MIC_LEN (ac_aszmic ctx) \<le> net_buf_simple_tailroom b"
    and "nb_invar out" "nb_len out = 0" "length (nb_data b) \<le> net_buf_simple_tailroom out"
  shows "\<exists>b'. bt_mesh_app_encrypt tc key ctx b = Some (Inr b') \<and> nb_invar b' \<and>
     (\<forall>r. nb_invar r \<longrightarrow> nb_data r = nb_data b' \<longrightarrow>
       (\<exists>out'. bt_mesh_app_decrypt tc key ctx (r\<lparr>nb_len := nb_len r - APP_MIC_LEN (ac_aszmic ctx)\<rparr>) out =
                Some (Inr out') \<and> nb_invar out' \<and> nb_data out' = nb_data b))"
proof -
  let ?d = "nb_data b" and ?ml = "APP_MIC_LEN (ac_aszmic ctx)" and ?n = "create_app_nonce ctx"
  let ?e = "ctr_crypt tc key ?n ?d" and ?m = "app_mic tc key ctx ?d"
  obtain b' where b': "bt_mesh_app_encrypt tc key ctx b = Some (Inr b')" "nb_invar b'" "nb_data b' = ?e @ ?m"
    using app_encrypt_data [OF assms(1-3) refl assms(4,5)] by blast
  have "\<exists>out'. bt_mesh_app_decrypt tc key ctx (r\<lparr>nb_len := nb_len r - ?ml\<rparr>) out = Some (Inr out') \<and>
      nb_invar out' \<and> nb_data out' = ?d" if r: "nb_invar r" "nb_data r = nb_data b'" for r
  proof -
    let ?r = "r\<lparr>nb_len := nb_len r - ?ml\<rparr>" and ?o = "out\<lparr>nb_len := nb_len r - ?ml\<rparr>"
    have len: "nb_len r = length ?d + ?ml" using length_nb_data [OF r(1)] r(2) b'(3) by simp
    have rd: "take (length ?d + ?ml) (drop (nb_off r) (nb_store r)) = ?e @ ?m"
      using r(2) b'(3) len by (simp add: nb_data_def)
    have e: "nb_data ?r = ?e"
      using arg_cong [OF rd, of "take (length ?d)"] len by (simp add: nb_data_def min_def)
    have dec: "bt_mesh_app_decrypt tc key ctx ?r out = Some (Inr (nb_write ?o (nb_off out) ?d))"
      using app_decrypt_data [OF assms(1,2) e _ _ _ _ assms(6,7), of ?m ctx] len rd assms(4,8)
      by (simp add: Let_def ctr_crypt_invol)
    have "nb_invar ?o" using assms(6-8) len nb_tailroom_le [OF assms(6)] by (simp add: nb_invar_def nb_size_def)
    from nb_write_data [OF this, of 0 ?d] len dec show ?thesis by simp
  qed
  with b' show ?thesis by blast
qed

theorem app_decrypt_encrypt_witness:
  "\<exists>b' out'. bt_mesh_app_encrypt tc_example (replicate 16 7)
       \<lparr>ac_dev_key = False, ac_aszmic = False, ac_src = 1, ac_dst = 2, ac_seq_num = 3, ac_iv_index = 4, ac_ad = None\<rparr>
       \<lparr>nb_store = [0, 1, 2, 0, 0, 0, 0, 0], nb_off = 1, nb_len = 2\<rparr> = Some (Inr b') \<and>
     bt_mesh_app_decrypt tc_example (replicate 16 7)
       \<lparr>ac_dev_key = False, ac_aszmic = False, ac_src = 1, ac_dst = 2, ac_seq_num = 3, ac_iv_index = 4, ac_ad = None\<rparr>
       (b'\<lparr>nb_len := nb_len b' - 4\<rparr>) (NET_BUF_SIMPLE_DEFINE [0, 0, 0]) = Some (Inr out') \<and>
     nb_data out' = [1, 2]"
proof -
  let ?c = "\<lparr>ac_dev_key = False, ac_aszmic = False, ac_src = 1, ac_dst = 2, ac_seq_num = 3, ac_iv_index = 4,
    ac_ad = None\<rparr>" and ?b = "\<lparr>nb_store = [0, 1, 2, 0, 0, 0, 0, 0], nb_off = 1, nb_len = 2\<rparr>"
  have "nb_invar ?b" "nb_data ?b = [1, 2]" "net_buf_simple_tailroom ?b = 5" "nb_len (NET_BUF_SIMPLE_DEFINE [0, 0, 0]) = 0"
    "nb_invar (NET_BUF_SIMPLE_DEFINE [0, 0, 0])" "net_buf_simple_tailroom (NET_BUF_SIMPLE_DEFINE [0, 0, 0]) = 3"
    by (simp_all add: nb_basic_defs net_buf_simple_tailroom_def net_buf_simple_headroom_def NET_BUF_SIMPLE_DEFINE_def)
  with app_decrypt_encrypt [OF tc_example_ok, of "replicate 16 7" ?b ?c "NET_BUF_SIMPLE_DEFINE [0, 0, 0]"]
  show ?thesis by (auto simp: APP_MIC_LEN_def)
qed

text \<open>C10: the frame check sequence. The table-driven \<^verbatim>\<open>bt_mesh_fcs_calc\<close> is the complement of the bitwise
  CRC-8 with polynomial 0x07, \<^verbatim>\<open>bt_mesh_fcs_check\<close> accepts exactly the FCS that \<^verbatim>\<open>bt_mesh_fcs_calc\<close>
  computes for the same data, and it rejects data in which any one byte was changed.\<close>

theorem fcs_check_calc:
  assumes "nb_data buf = data" and "length data < 256" and "i < length data"
    and "nb_data buf' = data[i := x]"
  shows "bt_mesh_fcs_calc data (length data) = 0xff - crc8 data \<and>
    (bt_mesh_fcs_check buf f \<longleftrightarrow> f = bt_mesh_fcs_calc data (length data)) \<and>
    (bt_mesh_fcs_check buf' (bt_mesh_fcs_calc data (length data)) \<longleftrightarrow> x = data ! i)"
proof -
  let ?s = "\<lambda>c d. (crc_shift ^^ 8) (c XOR d)"
  have calc: "bt_mesh_fcs_calc data (length data) = 0xff - crc8 data"
    using assms(2) by (simp add: bt_mesh_fcs_calc_def fcs_loop_crc8)
  have split: "crc8 (data[i := y]) = foldl ?s (?s (foldl ?s 0xff (take i data)) y) (drop (Suc i) data)" for y
    using assms(3) by (simp add: crc8_def upd_conv_take_nth_drop)
  have "crc8 (data[i := x]) = crc8 (data[i := data ! i]) \<longleftrightarrow> x = data ! i"
    unfolding split crc_foldl_inj inj_eq [OF inj_crc_shift8] xor_left_cancel ..
  then have "crc8 (data[i := x]) = crc8 data \<longleftrightarrow> x = data ! i" by simp
  then have "0xff - crc8 data = 0xff - crc8 (data[i := x]) \<longleftrightarrow> x = data ! i" by auto
  then show ?thesis unfolding calc fcs_check_iff assms(1,4) by simp
qed

theorem fcs_check_calc_witness:
  "bt_mesh_fcs_check (net_buf_simple_init_with_data [1, 2, 3]) (bt_mesh_fcs_calc [1, 2, 3] 3) \<and>
   \<not> bt_mesh_fcs_check (net_buf_simple_init_with_data [1, 9, 3]) (bt_mesh_fcs_calc [1, 2, 3] 3)"
proof -
  have d: "nb_data (net_buf_simple_init_with_data xs) = xs" for xs
    by (simp add: nb_data_def net_buf_simple_init_with_data_def)
  have "bt_mesh_fcs_check (net_buf_simple_init_with_data [1, 2, 3]) f \<longleftrightarrow> f = bt_mesh_fcs_calc [1, 2, 3] 3"
    "\<not> bt_mesh_fcs_check (net_buf_simple_init_with_data [1, 9, 3]) (bt_mesh_fcs_calc [1, 2, 3] 3)" for f
    using fcs_check_calc [OF d, of "[1, 2, 3]" 1 "net_buf_simple_init_with_data [1, 9, 3]" 9 f]
    unfolding d numeral_3_eq_3 by auto
  then show ?thesis by blast
qed

end
