(* ===== verification/Mesh_State.thy ===== *)
theory Mesh_State
  imports Rpl Mesh_Crypto
begin

text \<open>
  The state that the network layer shares: the singleton \<^verbatim>\<open>struct bt_mesh_net bt_mesh\<close> of net.h, the
  subnet and application key arrays of subnet.c and app_keys.c, and what settings.c keeps in flash.

  \<^item> The state records extend each other (\<open>mesh_sched\<close>, \<open>rpl_state\<close>, \<open>bt_mesh_net\<close>, \<open>mesh_state\<close>); an
    operation is a function on the scheme of the smallest record it needs, so that it applies to every
    larger state as well.
  \<^item> \<open>flash\<close> is the settings storage: a value per path. \<^verbatim>\<open>settings_save_one\<close> and \<^verbatim>\<open>settings_delete\<close> are
    taken to succeed; when they fail, the code logs the failure and goes on.
  \<^item> \<open>key_updates\<close> is the table of keys whose storage is pending. The locale \<open>update_table\<close> states what
    the code needs of such a table; the same code, duplicated for the configuration database, is modelled
    by the same functions.
\<close>

section \<open>Keys\<close>

record bt_mesh_net_cred =
  nc_nid :: u8
  nc_enc :: bytes
  nc_privacy :: bytes

record bt_mesh_subnet_keys =
  sk_valid :: bool
  sk_net :: bytes
  sk_msg :: bt_mesh_net_cred
  sk_net_id :: bytes
  sk_identity :: bytes
  sk_beacon :: bytes

record bt_mesh_subnet =
  sub_beacon_sent :: u32
  sub_beacons_last :: u8
  sub_beacons_cur :: u8
  sub_beacon_cache :: bytes
  sub_net_idx :: u16
  sub_kr_phase :: u8
  sub_node_id :: u8
  sub_node_id_start :: u32
  sub_auth :: bytes
  sub_keys :: "bt_mesh_subnet_keys list"

definition BT_MESH_KR_NORMAL :: u8 where "BT_MESH_KR_NORMAL = 0x00"
definition BT_MESH_KR_PHASE_1 :: u8 where "BT_MESH_KR_PHASE_1 = 0x01"
definition BT_MESH_KR_PHASE_2 :: u8 where "BT_MESH_KR_PHASE_2 = 0x02"
definition BT_MESH_KR_PHASE_3 :: u8 where "BT_MESH_KR_PHASE_3 = 0x03"

lemmas kr_defs = BT_MESH_KR_NORMAL_def BT_MESH_KR_PHASE_1_def BT_MESH_KR_PHASE_2_def BT_MESH_KR_PHASE_3_def

definition SUBNET_KEY_TX_IDX :: "bt_mesh_subnet \<Rightarrow> nat" where
  "SUBNET_KEY_TX_IDX sub = (if sub_kr_phase sub = BT_MESH_KR_PHASE_2 then 1 else 0)"

definition zero_keys :: bt_mesh_subnet_keys where
  "zero_keys = \<lparr>sk_valid = False, sk_net = replicate 16 0,
     sk_msg = \<lparr>nc_nid = 0, nc_enc = replicate 16 0, nc_privacy = replicate 16 0\<rparr>,
     sk_net_id = replicate 8 0, sk_identity = replicate 16 0, sk_beacon = replicate 16 0\<rparr>"

text \<open>A free slot: all zero (\<^verbatim>\<open>memset\<close>) but for the index.\<close>

definition unused_subnet :: bt_mesh_subnet where
  "unused_subnet = \<lparr>sub_beacon_sent = 0, sub_beacons_last = 0, sub_beacons_cur = 0,
     sub_beacon_cache = replicate 21 0, sub_net_idx = BT_MESH_KEY_UNUSED, sub_kr_phase = BT_MESH_KR_NORMAL,
     sub_node_id = 0, sub_node_id_start = 0, sub_auth = replicate 8 0, sub_keys = [zero_keys, zero_keys]\<rparr>"

record bt_mesh_app_cred =
  cred_id :: u8
  cred_val :: bytes

record bt_mesh_app_key =
  app_net_idx :: u16
  app_app_idx :: u16
  app_updated :: bool
  app_creds :: "bt_mesh_app_cred list"

definition zero_app_cred :: bt_mesh_app_cred where
  "zero_app_cred = \<lparr>cred_id = 0, cred_val = replicate 16 0\<rparr>"

definition unused_app_key :: bt_mesh_app_key where
  "unused_app_key = \<lparr>app_net_idx = BT_MESH_KEY_UNUSED, app_app_idx = BT_MESH_KEY_UNUSED, app_updated = False,
     app_creds = [zero_app_cred, zero_app_cred]\<rparr>"

section \<open>What is stored\<close>

record net_val =
  nv_primary_addr :: u16
  nv_dev_key :: bytes

record hb_pub_val =
  hv_dst :: u16
  hv_period :: u8
  hv_ttl :: u8
  hv_feat :: u16
  hv_net_idx :: u16
  hv_indefinite :: bool

record cfg_val =
  cv_net_transmit :: u8
  cv_relay :: u8
  cv_relay_retransmit :: u8
  cv_beacon :: u8
  cv_gatt_proxy :: u8
  cv_frnd :: u8
  cv_default_ttl :: u8

record iv_val =
  iv_iv_index :: u32
  iv_iv_update :: bool
  iv_iv_duration :: u8

record rpl_val =
  rv_seq :: u32
  rv_old_iv :: bool

record net_key_val =
  nk_kr_phase :: u8
  nk_val :: "bytes list"

record app_key_val =
  ak_net_idx :: u16
  ak_updated :: bool
  ak_val :: "bytes list"

record va_val =
  va_ref :: u16
  va_addr :: u16
  va_uuid :: bytes

record mod_pub_val =
  mp_addr :: u16
  mp_key :: u16
  mp_ttl :: u8
  mp_retransmit :: u8
  mp_period :: u8
  mp_period_div :: u8
  mp_cred :: bool

record cdb_net_val =
  cn_iv_index :: u32
  cn_iv_update :: bool

record node_val =
  nd_net_idx :: u16
  nd_num_elem :: u8
  nd_flags :: u8
  nd_uuid :: bytes
  nd_dev_key :: bytes

text \<open>
  The paths below \<^verbatim>\<open>bt/mesh/\<close>: \<open>SK_NetKey i\<close> is \<^verbatim>\<open>NetKey/<i in hex>\<close>, and so on; the model paths
  carry the element and model index of \<^verbatim>\<open>encode_mod_path\<close> and whether it is a vendor model.
\<close>

datatype settings_key =
    SK_Net | SK_IV | SK_Seq | SK_HBPub | SK_Cfg | SK_RPL u16 | SK_NetKey u16 | SK_AppKey u16 | SK_Va u16
  | SK_ModBind bool u16 | SK_ModSub bool u16 | SK_ModPub bool u16
  | SK_CdbNet | SK_CdbNode u16 | SK_CdbSubnet u16 | SK_CdbAppKey u16

datatype settings_val =
    V_Net net_val | V_IV iv_val | V_Seq bytes | V_HBPub hb_pub_val | V_Cfg cfg_val | V_RPL rpl_val
  | V_NetKey net_key_val | V_AppKey app_key_val | V_Va va_val | V_Mod "u16 list" | V_ModPub mod_pub_val
  | V_CdbNet cdb_net_val | V_CdbNode node_val

type_synonym settings_store = "settings_key \<rightharpoonup> settings_val"

record key_update =
  ku_key_idx :: u16
  ku_valid :: bool
  ku_app_key :: bool
  ku_clear :: bool

section \<open>The state\<close>

text \<open>
  \<open>bm_local_queue\<close> is \<^verbatim>\<open>bt_mesh.local_queue\<close>: for each buffer the slot of the subnet it was sent on and
  its data.
\<close>

record bt_mesh_net = rpl_state +
  bm_iv_index :: u32
  bm_seq :: u32
  bm_local_queue :: "(nat \<times> bytes) list"
  bm_ivu_duration :: u8
  bm_net_xmit :: u8
  bm_relay_xmit :: u8
  bm_default_ttl :: u8
  bm_dev_key :: bytes

record mesh_state = bt_mesh_net +
  subnets :: "bt_mesh_subnet list"
  apps :: "bt_mesh_app_key list"
  key_updates :: "key_update list"
  flash :: settings_store

definition settings_save_one :: "settings_key \<Rightarrow> settings_val \<Rightarrow> 'a mesh_state_scheme \<Rightarrow> 'a mesh_state_scheme" where
  "settings_save_one k v s = s\<lparr>flash := (flash s)(k \<mapsto> v)\<rparr>"

definition settings_delete :: "settings_key \<Rightarrow> 'a mesh_state_scheme \<Rightarrow> 'a mesh_state_scheme" where
  "settings_delete k s = s\<lparr>flash := (flash s)(k := None)\<rparr>"

section \<open>Lookup of keys\<close>

definition bt_mesh_subnet_get :: "u16 \<Rightarrow> 'a mesh_state_scheme \<Rightarrow> nat option" where
  "bt_mesh_subnet_get net_idx s = find_idx (\<lambda>sub. sub_net_idx sub = net_idx) (subnets s)"

definition app_get :: "u16 \<Rightarrow> 'a mesh_state_scheme \<Rightarrow> nat option" where
  "app_get app_idx s = find_idx (\<lambda>app. app_app_idx app = app_idx) (apps s)"

definition bt_mesh_app_key_get :: "u16 \<Rightarrow> 'a mesh_state_scheme \<Rightarrow> nat option" where
  "bt_mesh_app_key_get app_idx s = app_get app_idx s"

section \<open>The table of pending key updates\<close>

text \<open>\<^verbatim>\<open>key_update_find\<close>: the last match and the last free slot. \<^verbatim>\<open>key_idx\<close> is a 12-bit field.\<close>

definition key_update_find :: "bool \<Rightarrow> u16 \<Rightarrow> key_update list \<Rightarrow> nat option \<times> nat option" where
  "key_update_find app_key key_idx us =
     (find_last_idx (\<lambda>u. ku_valid u \<and> ku_app_key u = app_key \<and> ku_key_idx u = key_idx) us,
      find_last_idx (\<lambda>u. \<not> ku_valid u) us)"

text \<open>
  The common body of \<^verbatim>\<open>bt_mesh_store_subnet\<close>, \<^verbatim>\<open>bt_mesh_store_app_key\<close>, \<^verbatim>\<open>bt_mesh_clear_subnet\<close> and
  \<^verbatim>\<open>bt_mesh_clear_app_key\<close>: the new table, or \<open>None\<close> when there is no room and the caller has to act at
  once.
\<close>

definition key_update_put :: "bool \<Rightarrow> u16 \<Rightarrow> bool \<Rightarrow> key_update list \<Rightarrow> key_update list option" where
  "key_update_put app_key key_idx clear us =
     (case key_update_find app_key key_idx us of
        (Some i, _) \<Rightarrow> Some (us[i := (us ! i)\<lparr>ku_clear := clear\<rparr>])
      | (None, Some i) \<Rightarrow>
          Some (us[i := \<lparr>ku_key_idx = take_bit 12 key_idx, ku_valid = True, ku_app_key = app_key, ku_clear = clear\<rparr>])
      | (None, None) \<Rightarrow> None)"

definition clear_app_key :: "u16 \<Rightarrow> 'a mesh_state_scheme \<Rightarrow> 'a mesh_state_scheme" where
  "clear_app_key app_idx s = settings_delete (SK_AppKey app_idx) s"

definition clear_net_key :: "u16 \<Rightarrow> 'a mesh_state_scheme \<Rightarrow> 'a mesh_state_scheme" where
  "clear_net_key net_idx s = settings_delete (SK_NetKey net_idx) s"

definition store_subnet :: "u16 \<Rightarrow> 'a mesh_state_scheme \<Rightarrow> 'a mesh_state_scheme" where
  "store_subnet net_idx s =
     (case bt_mesh_subnet_get net_idx s of
        None \<Rightarrow> s
      | Some i \<Rightarrow>
          let sub = subnets s ! i in
          settings_save_one (SK_NetKey net_idx)
            (V_NetKey \<lparr>nk_kr_phase = take_bit 7 (sub_kr_phase sub),
                       nk_val = [sk_net (sub_keys sub ! 0), sk_net (sub_keys sub ! 1)]\<rparr>) s)"

definition store_app :: "u16 \<Rightarrow> 'a mesh_state_scheme \<Rightarrow> 'a mesh_state_scheme" where
  "store_app app_idx s =
     (case bt_mesh_app_key_get app_idx s of
        None \<Rightarrow> s
      | Some i \<Rightarrow>
          let app = apps s ! i in
          settings_save_one (SK_AppKey app_idx)
            (V_AppKey \<lparr>ak_net_idx = app_net_idx app, ak_updated = app_updated app,
                       ak_val = [cred_val (app_creds app ! 0), cred_val (app_creds app ! 1)]\<rparr>) s)"

definition bt_mesh_store_subnet :: "u16 \<Rightarrow> 'a mesh_state_scheme \<Rightarrow> 'a mesh_state_scheme" where
  "bt_mesh_store_subnet net_idx s =
     (case key_update_put False net_idx False (key_updates s) of
        None \<Rightarrow> store_subnet net_idx s
      | Some us \<Rightarrow> schedule_store BT_MESH_KEYS_PENDING (s\<lparr>key_updates := us\<rparr>))"

definition bt_mesh_store_app_key :: "u16 \<Rightarrow> 'a mesh_state_scheme \<Rightarrow> 'a mesh_state_scheme" where
  "bt_mesh_store_app_key app_idx s =
     (case key_update_put True app_idx False (key_updates s) of
        None \<Rightarrow> store_app app_idx s
      | Some us \<Rightarrow> schedule_store BT_MESH_KEYS_PENDING (s\<lparr>key_updates := us\<rparr>))"

definition bt_mesh_clear_subnet :: "u16 \<Rightarrow> 'a mesh_state_scheme \<Rightarrow> 'a mesh_state_scheme" where
  "bt_mesh_clear_subnet net_idx s =
     (case key_update_put False net_idx True (key_updates s) of
        None \<Rightarrow> clear_net_key net_idx s
      | Some us \<Rightarrow> schedule_store BT_MESH_KEYS_PENDING (s\<lparr>key_updates := us\<rparr>))"

definition bt_mesh_clear_app_key :: "u16 \<Rightarrow> 'a mesh_state_scheme \<Rightarrow> 'a mesh_state_scheme" where
  "bt_mesh_clear_app_key app_idx s =
     (case key_update_put True app_idx True (key_updates s) of
        None \<Rightarrow> clear_app_key app_idx s
      | Some us \<Rightarrow> schedule_store BT_MESH_KEYS_PENDING (s\<lparr>key_updates := us\<rparr>))"

text \<open>One round of the loop of \<^verbatim>\<open>store_pending_keys\<close>, and the loop.\<close>

definition store_key_update :: "key_update \<Rightarrow> 'a mesh_state_scheme \<Rightarrow> 'a mesh_state_scheme" where
  "store_key_update u s =
     (if \<not> ku_valid u then s
      else if ku_clear u then
        (if ku_app_key u then clear_app_key (ku_key_idx u) s else clear_net_key (ku_key_idx u) s)
      else
        (if ku_app_key u then store_app (ku_key_idx u) s else store_subnet (ku_key_idx u) s))"

definition store_pending_keys :: "'a mesh_state_scheme \<Rightarrow> 'a mesh_state_scheme" where
  "store_pending_keys s =
     (fold store_key_update (key_updates s) s)
       \<lparr>key_updates := map (\<lambda>u. u\<lparr>ku_valid := False\<rparr>) (key_updates s)\<rparr>"

section \<open>A write-behind table\<close>

text \<open>
  A table of pending writes: \<open>put\<close> records a write or refuses (the table is full and has no entry for the
  key), \<open>look\<close> reads what is pending. A client writes through at once when the table refuses. What a
  reader of the backing store sees once the table is flushed is then always the last value requested.
\<close>

locale update_table =
  fixes put :: "'k \<Rightarrow> 'v \<Rightarrow> 't \<Rightarrow> 't option"
    and look :: "'t \<Rightarrow> 'k \<Rightarrow> 'v option"
    and invar :: "'t \<Rightarrow> bool"
    and key_ok :: "'k \<Rightarrow> bool"
  assumes look_put: "invar t \<Longrightarrow> key_ok k \<Longrightarrow> put k v t = Some t' \<Longrightarrow> look t' = (look t)(k \<mapsto> v) \<and> invar t'"
    and put_None: "invar t \<Longrightarrow> key_ok k \<Longrightarrow> put k v t = None \<Longrightarrow> look t k = None"
begin

definition request :: "'k \<times> 'v \<Rightarrow> 't \<times> ('k \<rightharpoonup> 'v) \<Rightarrow> 't \<times> ('k \<rightharpoonup> 'v)" where
  "request kv tm = (case put (fst kv) (snd kv) (fst tm) of
      Some t' \<Rightarrow> (t', snd tm) | None \<Rightarrow> (fst tm, (snd tm)(fst kv \<mapsto> snd kv)))"

lemma request_flush:
  assumes "invar (fst tm)" "key_ok (fst kv)"
  shows "invar (fst (request kv tm))"
    "snd (request kv tm) ++ look (fst (request kv tm)) = (snd tm ++ look (fst tm))(fst kv \<mapsto> snd kv)"
  using look_put [OF assms] put_None [OF assms] assms
  by (auto simp: request_def map_add_def fun_eq_iff split: option.splits)

lemma requests_flush:
  "invar (fst tm) \<Longrightarrow> \<forall>kv \<in> set kvs. key_ok (fst kv) \<Longrightarrow>
   (let tm' = fold request kvs tm in invar (fst tm') \<and>
     snd tm' ++ look (fst tm') = foldl (\<lambda>m kv. m(fst kv \<mapsto> snd kv)) (snd tm ++ look (fst tm)) kvs)"
proof (induction kvs arbitrary: tm)
  case (Cons kv kvs)
  then have "key_ok (fst kv)" by simp
  with Cons.IH [OF request_flush(1)] Cons.prems request_flush(2) show ?case by (auto simp: Let_def)
qed (simp add: Let_def)

end

definition ku_match :: "bool \<times> u16 \<Rightarrow> key_update \<Rightarrow> bool" where
  "ku_match k u \<longleftrightarrow> ku_valid u \<and> ku_app_key u = fst k \<and> ku_key_idx u = snd k"

definition pend :: "key_update list \<Rightarrow> bool \<times> u16 \<Rightarrow> bool option" where
  "pend us k = map_option (\<lambda>i. ku_clear (us ! i)) (find_last_idx (ku_match k) us)"

definition ku_wf :: "key_update list \<Rightarrow> bool" where
  "ku_wf us \<longleftrightarrow> (\<forall>i < length us. \<forall>j < length us. \<forall>k. ku_match k (us ! i) \<longrightarrow> ku_match k (us ! j) \<longrightarrow> i = j)"

text \<open>In a well-formed table the match is unique, so the direction of the search does not matter.\<close>

lemma pend_Some_iff:
  assumes "ku_wf us"
  shows "pend us k = Some c \<longleftrightarrow> (\<exists>i < length us. ku_match k (us ! i) \<and> ku_clear (us ! i) = c)"
proof
  assume "pend us k = Some c"
  then show "\<exists>i < length us. ku_match k (us ! i) \<and> ku_clear (us ! i) = c"
    by (auto simp: pend_def dest: find_last_idx_SomeD)
next
  assume "\<exists>i < length us. ku_match k (us ! i) \<and> ku_clear (us ! i) = c"
  then obtain i where i: "i < length us" "ku_match k (us ! i)" "ku_clear (us ! i) = c" by blast
  with assms have "find_last_idx (ku_match k) us = Some i"
    unfolding find_last_idx_Some_iff ku_wf_def by (metis less_irrefl)
  with i show "pend us k = Some c" by (simp add: pend_def)
qed

lemma pend_None_iff: "pend us k = None \<longleftrightarrow> (\<forall>u \<in> set us. \<not> ku_match k u)"
  by (simp add: pend_def find_last_idx_None_iff)

lemma key_update_find_eq: "key_update_find a k us = (find_last_idx (ku_match (a, k)) us, find_last_idx (\<lambda>u. \<not> ku_valid u) us)"
  by (simp add: key_update_find_def ku_match_def [abs_def])

lemma ku_put_update:
  assumes wf: "ku_wf us" and i: "i < length us"
    and u: "\<And>k'. ku_match k' u \<longleftrightarrow> k' = k" "ku_clear u = c"
    and old: "\<And>j. j < length us \<Longrightarrow> ku_match k (us ! j) \<Longrightarrow> j = i"
      "\<And>k'. ku_match k' (us ! i) \<Longrightarrow> k' = k"
  shows "ku_wf (us[i := u])" "pend (us[i := u]) = (pend us)(k \<mapsto> c)"
proof -
  have m: "ku_match k' (us[i := u] ! j) \<longleftrightarrow> (if j = i then k' = k else ku_match k' (us ! j))"
    if "j < length us" for j k' using that i u(1) by simp
  have out: "k' \<noteq> k" if "j < length us" "j \<noteq> i" "ku_match k' (us ! j)" for j k' using that old(1) by blast
  show wf': "ku_wf (us[i := u])"
    unfolding ku_wf_def
  proof (intro allI impI)
    fix p q k' assume p: "p < length (us[i := u])" "q < length (us[i := u])"
      and a: "ku_match k' (us[i := u] ! p)" "ku_match k' (us[i := u] ! q)"
    then have pq: "p < length us" "q < length us" by simp_all
    have "ku_match k' (us ! p) \<Longrightarrow> ku_match k' (us ! q) \<Longrightarrow> p = q" using wf pq unfolding ku_wf_def by blast
    with a m [OF pq(1), of k'] m [OF pq(2), of k'] out [OF pq(1), of k'] out [OF pq(2), of k'] show "p = q"
      by (auto split: if_splits)
  qed
  show "pend (us[i := u]) = (pend us)(k \<mapsto> c)"
  proof (rule ext)
    fix k'
    show "pend (us[i := u]) k' = ((pend us)(k \<mapsto> c)) k'"
    proof (cases "k' = k")
      case True
      have "pend (us[i := u]) k = Some c"
        unfolding pend_Some_iff [OF wf'] using i u by (intro exI [of _ i]) simp
      with True show ?thesis by simp
    next
      case False
      have "pend (us[i := u]) k' = Some d \<longleftrightarrow> pend us k' = Some d" for d
      proof -
        have "(ku_match k' (us[i := u] ! j) \<and> ku_clear (us[i := u] ! j) = d) \<longleftrightarrow>
              (ku_match k' (us ! j) \<and> ku_clear (us ! j) = d)" if "j < length us" for j
          using m [OF that, of k'] False old(2) [of k'] by (cases "j = i") auto
        then show ?thesis unfolding pend_Some_iff [OF wf] pend_Some_iff [OF wf'] by auto
      qed
      with False show ?thesis by (cases "pend us k'"; cases "pend (us[i := u]) k'") auto
    qed
  qed
qed

lemma key_update_put_look:
  assumes wf: "ku_wf us" and k: "snd k < 2 ^ 12" and put: "key_update_put (fst k) (snd k) c us = Some us'"
  shows "pend us' = (pend us)(k \<mapsto> c) \<and> ku_wf us'"
proof (cases "find_last_idx (ku_match k) us")
  case (Some i)
  then have us': "us' = us[i := (us ! i)\<lparr>ku_clear := c\<rparr>]"
    using put by (simp add: key_update_put_def key_update_find_eq)
  from find_last_idx_SomeD [OF Some] have i: "i < length us" "ku_match k (us ! i)" by auto
  let ?u = "(us ! i)\<lparr>ku_clear := c\<rparr>"
  have u: "ku_match k' ?u \<longleftrightarrow> k' = k" and o: "ku_match k' (us ! i) \<Longrightarrow> k' = k" for k'
    using i(2) by (auto simp: ku_match_def prod_eq_iff)
  have j: "j = i" if "j < length us" "ku_match k (us ! j)" for j
    using wf i that unfolding ku_wf_def by blast
  have c: "ku_clear ?u = c" by simp
  show ?thesis unfolding us' using ku_put_update [OF wf i(1) u c j o] by blast
next
  case None
  then obtain i where i: "find_last_idx (\<lambda>u. \<not> ku_valid u) us = Some i"
    and us': "us' = us[i := \<lparr>ku_key_idx = take_bit 12 (snd k), ku_valid = True, ku_app_key = fst k, ku_clear = c\<rparr>]"
    using put by (auto simp: key_update_put_def key_update_find_eq split: option.splits)
  have t: "take_bit 12 (snd k) = snd k"
    using k by (simp add: take_bit_word_id)
  let ?u = "\<lparr>ku_key_idx = snd k, ku_valid = True, ku_app_key = fst k, ku_clear = c\<rparr>"
  from find_last_idx_SomeD [OF i] have il: "i < length us" and iv: "\<not> ku_valid (us ! i)" by auto
  have u: "ku_match k' ?u \<longleftrightarrow> k' = k" and o: "ku_match k' (us ! i) \<Longrightarrow> k' = k" for k'
    using iv by (auto simp: ku_match_def prod_eq_iff)
  have j: "j = i" if "j < length us" "ku_match k (us ! j)" for j
    using that None by (simp add: find_last_idx_None_iff)
  have c: "ku_clear ?u = c" by simp
  show ?thesis unfolding us' t using ku_put_update [OF wf il u c j o] by blast
qed

interpretation ku: update_table "\<lambda>k c. key_update_put (fst k) (snd k) c" pend ku_wf "\<lambda>k. snd k < 2 ^ 12"
proof
  show "pend t' = (pend t)(k \<mapsto> v) \<and> ku_wf t'"
    if "ku_wf t" "snd k < 2 ^ 12" "key_update_put (fst k) (snd k) v t = Some t'" for t k v t'
    using key_update_put_look [OF that] .
  show "pend t k = None" if "key_update_put (fst k) (snd k) v t = None" for t k v
    using that by (auto simp: key_update_put_def key_update_find_eq pend_def split: option.splits)
qed

section \<open>What reaches the flash\<close>

text \<open>
  \<open>ram_key s (False, i)\<close> and \<open>ram_key s (True, i)\<close> are the values that the network key and the application
  key of index \<open>i\<close> are to have in flash, and \<open>flushed s\<close> those that they will have once the pending updates
  are written.
\<close>

definition ram_key :: "'a mesh_state_scheme \<Rightarrow> bool \<times> u16 \<Rightarrow> settings_val option" where
  "ram_key s k =
     (if fst k then
        map_option (\<lambda>i. V_AppKey \<lparr>ak_net_idx = app_net_idx (apps s ! i), ak_updated = app_updated (apps s ! i),
          ak_val = [cred_val (app_creds (apps s ! i) ! 0), cred_val (app_creds (apps s ! i) ! 1)]\<rparr>)
          (app_get (snd k) s)
      else
        map_option (\<lambda>i. V_NetKey \<lparr>nk_kr_phase = take_bit 7 (sub_kr_phase (subnets s ! i)),
          nk_val = [sk_net (sub_keys (subnets s ! i) ! 0), sk_net (sub_keys (subnets s ! i) ! 1)]\<rparr>)
          (bt_mesh_subnet_get (snd k) s))"

definition key_path :: "bool \<times> u16 \<Rightarrow> settings_key" where
  "key_path k = (if fst k then SK_AppKey (snd k) else SK_NetKey (snd k))"

lemma key_path_inj [simp]: "key_path k = key_path k' \<longleftrightarrow> k = k'"
  by (auto simp: key_path_def prod_eq_iff split: if_splits)

definition flushed :: "'a mesh_state_scheme \<Rightarrow> bool \<times> u16 \<Rightarrow> settings_val option" where
  "flushed s k =
     (case pend (key_updates s) k of
        None \<Rightarrow> flash s (key_path k)
      | Some True \<Rightarrow> None
      | Some False \<Rightarrow> (case ram_key s k of None \<Rightarrow> flash s (key_path k) | Some v \<Rightarrow> Some v))"

lemma ram_key_cong: "subnets s = subnets s' \<Longrightarrow> apps s = apps s' \<Longrightarrow> ram_key s = ram_key s'"
  by (simp add: ram_key_def fun_eq_iff app_get_def bt_mesh_subnet_get_def)

lemmas key_store_defs = clear_app_key_def clear_net_key_def store_subnet_def store_app_def settings_save_one_def
  settings_delete_def bt_mesh_app_key_get_def

definition key_save :: "bool \<times> u16 \<Rightarrow> 'a mesh_state_scheme \<Rightarrow> 'a mesh_state_scheme" where
  "key_save k s = (if fst k then store_app (snd k) s else store_subnet (snd k) s)"

definition key_erase :: "bool \<times> u16 \<Rightarrow> 'a mesh_state_scheme \<Rightarrow> 'a mesh_state_scheme" where
  "key_erase k s = (if fst k then clear_app_key (snd k) s else clear_net_key (snd k) s)"

lemma key_save_eq:
  "key_save k s = (case ram_key s k of None \<Rightarrow> s | Some v \<Rightarrow> s\<lparr>flash := (flash s)(key_path k \<mapsto> v)\<rparr>)"
  by (auto simp: key_save_def key_store_defs ram_key_def key_path_def Let_def split: option.splits)

lemma key_erase_eq: "key_erase k s = s\<lparr>flash := (flash s)(key_path k := None)\<rparr>"
  by (simp add: key_erase_def key_store_defs key_path_def)

lemma store_key_update_eq:
  "store_key_update u s =
    (if \<not> ku_valid u then s
     else if ku_clear u then key_erase (ku_app_key u, ku_key_idx u) s
     else key_save (ku_app_key u, ku_key_idx u) s)"
  by (simp add: store_key_update_def key_erase_def key_save_def)

lemma key_save_keeps [simp]:
  "subnets (key_save k s) = subnets s" "apps (key_save k s) = apps s" "key_updates (key_save k s) = key_updates s"
  "subnets (key_erase k s) = subnets s" "apps (key_erase k s) = apps s" "key_updates (key_erase k s) = key_updates s"
  by (simp_all add: key_save_eq key_erase_eq split: option.splits)

lemma store_key_update_keeps [simp]:
  "subnets (store_key_update u s) = subnets s" "apps (store_key_update u s) = apps s"
  "key_updates (store_key_update u s) = key_updates s"
  by (simp_all add: store_key_update_eq)

lemma fold_store_keeps [simp]:
  "subnets (fold store_key_update us s) = subnets s" "apps (fold store_key_update us s) = apps s"
  by (induction us arbitrary: s) simp_all

lemma store_key_update_flash:
  "flash (store_key_update u s) p =
    (if \<exists>k. p = key_path k \<and> ku_match k u
     then (let k = (ku_app_key u, ku_key_idx u) in
           if ku_clear u then None else case ram_key s k of None \<Rightarrow> flash s p | Some v \<Rightarrow> Some v)
     else flash s p)"
  by (auto simp: store_key_update_eq key_save_eq key_erase_eq ku_match_def Let_def split: option.splits)

lemma fold_store_flash:
  assumes "ku_wf us"
  shows "flash (fold store_key_update us s) (key_path k) =
    (case pend us k of
        None \<Rightarrow> flash s (key_path k)
      | Some True \<Rightarrow> None
      | Some False \<Rightarrow> (case ram_key s k of None \<Rightarrow> flash s (key_path k) | Some v \<Rightarrow> Some v))"
  using assms
proof (induction us arbitrary: s rule: rev_induct)
  case Nil
  then show ?case by (simp add: pend_def)
next
  case (snoc u us)
  have wf: "ku_wf us"
    unfolding ku_wf_def
  proof (intro allI impI)
    fix i j k' assume "i < length us" "j < length us" "ku_match k' (us ! i)" "ku_match k' (us ! j)"
    then show "i = j" using snoc.prems unfolding ku_wf_def
      by (metis length_append_singleton less_SucI nth_append)
  qed
  let ?s = "fold store_key_update us s"
  have ram: "ram_key ?s = ram_key s" by (rule ram_key_cong) simp_all
  show ?case
  proof (cases "ku_match k u")
    case True
    then have k: "k = (ku_app_key u, ku_key_idx u)" by (simp add: ku_match_def prod_eq_iff)
    have "pend (us @ [u]) k = Some (ku_clear u)"
      unfolding pend_Some_iff [OF snoc.prems] using True by (intro exI [of _ "length us"]) simp
    moreover have "pend us k = None"
      unfolding pend_None_iff
    proof
      fix x assume "x \<in> set us"
      then obtain i where i: "i < length us" "us ! i = x" by (auto simp: in_set_conv_nth)
      show "\<not> ku_match k x"
      proof
        assume "ku_match k x"
        then have "i = length us" using snoc.prems True i unfolding ku_wf_def
          by (metis length_append_singleton less_SucI lessI nth_append nth_append_length)
        with i show False by simp
      qed
    qed
    ultimately show ?thesis
      using True k snoc.IH [OF wf, of s] ram by (auto simp: store_key_update_flash Let_def split: option.splits)
  next
    case False
    have "pend (us @ [u]) k = pend us k"
    proof -
      have "pend (us @ [u]) k = Some c \<longleftrightarrow> pend us k = Some c" for c
        unfolding pend_Some_iff [OF snoc.prems] pend_Some_iff [OF wf]
        using False by (metis length_append_singleton less_SucI less_antisym nth_append nth_append_length)
      then show ?thesis by (cases "pend us k"; cases "pend (us @ [u]) k") auto
    qed
    with False snoc.IH [OF wf, of s] show ?thesis by (simp add: store_key_update_flash)
  qed
qed

lemma store_pending_keys_flash:
  assumes "ku_wf (key_updates s)"
  shows "flash (store_pending_keys s) (key_path k) = flushed s k"
  using fold_store_flash [OF assms] by (simp add: store_pending_keys_def flushed_def)

text \<open>The four requests of settings.h are one function of the key and the action.\<close>

definition key_request :: "bool \<times> u16 \<Rightarrow> bool \<Rightarrow> 'a mesh_state_scheme \<Rightarrow> 'a mesh_state_scheme" where
  "key_request k clear s =
     (case key_update_put (fst k) (snd k) clear (key_updates s) of
        None \<Rightarrow> if clear then key_erase k s else key_save k s
      | Some us \<Rightarrow> schedule_store BT_MESH_KEYS_PENDING (s\<lparr>key_updates := us\<rparr>))"

lemma key_requests:
  "bt_mesh_store_subnet i s = key_request (False, i) False s"
  "bt_mesh_store_app_key i s = key_request (True, i) False s"
  "bt_mesh_clear_subnet i s = key_request (False, i) True s"
  "bt_mesh_clear_app_key i s = key_request (True, i) True s"
  by (simp_all add: key_request_def bt_mesh_store_subnet_def bt_mesh_store_app_key_def bt_mesh_clear_subnet_def
      bt_mesh_clear_app_key_def key_save_def key_erase_def split: option.split)

text \<open>Scheduling touches the flags and the deadline only.\<close>

lemma schedule_store_keeps [simp]:
  "replay_list (schedule_store f r) = replay_list r"
  "bm_iv_index (schedule_store f b) = bm_iv_index b" "bm_seq (schedule_store f b) = bm_seq b"
  "bm_local_queue (schedule_store f b) = bm_local_queue b" "bm_ivu_duration (schedule_store f b) = bm_ivu_duration b"
  "bm_net_xmit (schedule_store f b) = bm_net_xmit b" "bm_relay_xmit (schedule_store f b) = bm_relay_xmit b"
  "bm_default_ttl (schedule_store f b) = bm_default_ttl b" "bm_dev_key (schedule_store f b) = bm_dev_key b"
  "subnets (schedule_store f s) = subnets s" "apps (schedule_store f s) = apps s"
  "key_updates (schedule_store f s) = key_updates s" "flash (schedule_store f s) = flash s"
  by (simp_all add: schedule_store_def set_flag_def Let_def)

lemma key_request_keeps [simp]:
  "subnets (key_request k c s) = subnets s" "apps (key_request k c s) = apps s"
  "ram_key (key_request k c s) = ram_key s"
proof -
  show "subnets (key_request k c s) = subnets s" "apps (key_request k c s) = apps s"
    by (simp_all add: key_request_def split: option.splits)
  then show "ram_key (key_request k c s) = ram_key s" by (rule ram_key_cong)
qed

lemma key_request_cases:
  assumes wf: "ku_wf (key_updates s)" and k: "snd k < 2 ^ 12"
  obtains (now) "key_updates (key_request k c s) = key_updates s" "pend (key_updates s) k = None"
      "flash (key_request k c s) = (flash s)(key_path k := if c then None
        else case ram_key s k of None \<Rightarrow> flash s (key_path k) | Some v \<Rightarrow> Some v)"
  | (later) "pend (key_updates (key_request k c s)) = (pend (key_updates s))(k \<mapsto> c)"
      "ku_wf (key_updates (key_request k c s))" "flash (key_request k c s) = flash s"
proof (cases "key_update_put (fst k) (snd k) c (key_updates s)")
  case None
  have "key_updates (key_request k c s) = key_updates s" using None by (simp add: key_request_def)
  moreover have "flash (key_request k c s) = (flash s)(key_path k := if c then None
        else case ram_key s k of None \<Rightarrow> flash s (key_path k) | Some v \<Rightarrow> Some v)"
    using None by (simp add: key_request_def key_save_eq key_erase_eq split: option.split)
  ultimately show thesis using now ku.put_None [OF wf k None] by blast
next
  case (Some us)
  then have "key_updates (key_request k c s) = us" "flash (key_request k c s) = flash s"
    by (simp_all add: key_request_def)
  then show thesis using later ku.look_put [OF wf k Some] by simp
qed

lemma key_request_flushed:
  assumes wf: "ku_wf (key_updates s)" and k: "snd k < 2 ^ 12"
  shows "ku_wf (key_updates (key_request k c s))"
    "flushed (key_request k c s) k' =
      (if k' = k then if c then None else case ram_key s k of None \<Rightarrow> flash s (key_path k) | Some v \<Rightarrow> Some v
       else flushed s k')"
    "k' \<noteq> k \<Longrightarrow> pend (key_updates (key_request k c s)) k' = pend (key_updates s) k'"
    "c \<Longrightarrow> pend (key_updates (key_request k c s)) k \<noteq> Some False"
proof -
  have ram: "ram_key (key_request k c s) = ram_key s" by simp
  have "ku_wf (key_updates (key_request k c s)) \<and> flushed (key_request k c s) k' =
      (if k' = k then if c then None else case ram_key s k of None \<Rightarrow> flash s (key_path k) | Some v \<Rightarrow> Some v
       else flushed s k') \<and>
    (k' \<noteq> k \<longrightarrow> pend (key_updates (key_request k c s)) k' = pend (key_updates s) k') \<and>
    (c \<longrightarrow> pend (key_updates (key_request k c s)) k \<noteq> Some False)"
    using assms
  proof (cases rule: key_request_cases [where c = c])
    case now
    show ?thesis unfolding flushed_def now(1,3) ram using now(2) wf
      by (cases "k' = k") (simp_all split: option.split bool.split)
  next
    case later
    show ?thesis unfolding flushed_def later(1,3) ram using later(2)
      by (cases "k' = k") (simp_all split: option.split bool.split)
  qed
  then show "ku_wf (key_updates (key_request k c s))"
    "flushed (key_request k c s) k' =
      (if k' = k then if c then None else case ram_key s k of None \<Rightarrow> flash s (key_path k) | Some v \<Rightarrow> Some v
       else flushed s k')"
    "k' \<noteq> k \<Longrightarrow> pend (key_updates (key_request k c s)) k' = pend (key_updates s) k'"
    "c \<Longrightarrow> pend (key_updates (key_request k c s)) k \<noteq> Some False" by blast+
qed

subsection \<open>Flash and memory agree\<close>

text \<open>
  \<open>persist s D\<close>: apart from the keys in \<open>D\<close>, which are being changed, what will be in flash once the
  pending updates are written is what is in memory. \<open>cleared s k\<close>: the removal of \<open>k\<close> has been requested.
\<close>

definition persist :: "'a mesh_state_scheme \<Rightarrow> (bool \<times> u16) set \<Rightarrow> bool" where
  "persist s D \<longleftrightarrow> ku_wf (key_updates s) \<and> (\<forall>k. snd k < 2 ^ 12 \<longrightarrow> k \<notin> D \<longrightarrow> flushed s k = ram_key s k)"

definition cleared :: "'a mesh_state_scheme \<Rightarrow> bool \<times> u16 \<Rightarrow> bool" where
  "cleared s k \<longleftrightarrow> flushed s k = None \<and> pend (key_updates s) k \<noteq> Some False"

lemma persist_store:
  assumes "persist s D" "snd k < 2 ^ 12" "ram_key s k \<noteq> None"
  shows "persist (key_request k False s) (D - {k})"
  using assms key_request_flushed [of s k, where c = False] by (auto simp: persist_def)

lemma persist_clear:
  assumes "persist s D" "snd k < 2 ^ 12"
  shows "persist (key_request k True s) (insert k D)" "cleared (key_request k True s) k"
  using assms key_request_flushed [of s k, where c = True] by (auto simp: persist_def cleared_def)

lemma cleared_keep:
  assumes "persist s D" "snd k' < 2 ^ 12" "cleared s k" "k' \<noteq> k"
  shows "cleared (key_request k' c s) k"
  using assms key_request_flushed [of s k', where c = c] by (auto simp: persist_def cleared_def)

lemma flushed_ram:
  assumes "key_updates s' = key_updates s" "flash s' = flash s" "ram_key s' k = ram_key s k"
  shows "flushed s' k = flushed s k"
  using assms by (simp add: flushed_def split: option.split bool.split)

lemma persist_ram:
  assumes "persist s D" "key_updates s' = key_updates s" "flash s' = flash s"
    and "\<And>k. snd k < 2 ^ 12 \<Longrightarrow> k \<notin> D' \<Longrightarrow> k \<notin> D \<Longrightarrow> ram_key s' k = ram_key s k"
  shows "persist s' (D \<union> D')"
  using assms flushed_ram [of s' s] by (auto simp: persist_def)

lemma persist_cleared:
  assumes "persist s D" "cleared s k" "ram_key s k = None"
  shows "persist s (D - {k})"
  using assms by (auto simp: persist_def cleared_def)

lemma cleared_ram:
  assumes "cleared s k" "key_updates s' = key_updates s" "flash s' = flash s"
  shows "cleared s' k"
  using assms by (auto simp: cleared_def flushed_def split: option.splits bool.splits)

lemma persist_mono: "persist s D \<Longrightarrow> D \<subseteq> D' \<Longrightarrow> persist s D'"
  by (auto simp: persist_def)

text \<open>A slot of the arrays changes the value of no other index.\<close>

lemma ram_key_subnet:
  assumes "i < length (subnets s)" "subnets s' = (subnets s)[i := sub]" "apps s' = apps s"
    and "k \<noteq> (False, sub_net_idx (subnets s ! i))" "k \<noteq> (False, sub_net_idx sub)"
  shows "ram_key s' k = ram_key s k"
proof (cases "fst k")
  case True
  then show ?thesis using assms(3) by (simp add: ram_key_def app_get_def)
next
  case False
  then have "snd k \<noteq> sub_net_idx (subnets s ! i)" "snd k \<noteq> sub_net_idx sub"
    using assms(4,5) by (auto simp: prod_eq_iff)
  then have f: "bt_mesh_subnet_get (snd k) s' = bt_mesh_subnet_get (snd k) s"
    using assms(1,2) find_idx_update_other [of "\<lambda>x. sub_net_idx x = snd k" "subnets s" i sub]
    by (auto simp: bt_mesh_subnet_get_def)
  have "subnets s' ! j = subnets s ! j" if "bt_mesh_subnet_get (snd k) s = Some j" for j
    using find_idx_SomeD [OF that [unfolded bt_mesh_subnet_get_def]] \<open>snd k \<noteq> sub_net_idx (subnets s ! i)\<close> assms(2)
    by (cases "j = i") auto
  with f False show ?thesis by (cases "bt_mesh_subnet_get (snd k) s") (simp_all add: ram_key_def)
qed

lemma ram_key_app:
  assumes "i < length (apps s)" "apps s' = (apps s)[i := app]" "subnets s' = subnets s"
    and "k \<noteq> (True, app_app_idx (apps s ! i))" "k \<noteq> (True, app_app_idx app)"
  shows "ram_key s' k = ram_key s k"
proof (cases "fst k")
  case False
  then show ?thesis using assms(3) by (simp add: ram_key_def bt_mesh_subnet_get_def)
next
  case True
  then have "snd k \<noteq> app_app_idx (apps s ! i)" "snd k \<noteq> app_app_idx app"
    using assms(4,5) by (auto simp: prod_eq_iff)
  then have f: "app_get (snd k) s' = app_get (snd k) s"
    using assms(1,2) find_idx_update_other [of "\<lambda>x. app_app_idx x = snd k" "apps s" i app]
    by (auto simp: app_get_def)
  have "apps s' ! j = apps s ! j" if "app_get (snd k) s = Some j" for j
    using find_idx_SomeD [OF that [unfolded app_get_def]] \<open>snd k \<noteq> app_app_idx (apps s ! i)\<close> assms(2)
    by (cases "j = i") auto
  with f True show ?thesis by (cases "app_get (snd k) s") (simp_all add: ram_key_def)
qed

end
