(* ===== verification/Subnet.thy ===== *)
theory Subnet
  imports Mesh_State
begin

text \<open>
  The network keys of subsys/bluetooth/mesh/subnet.c: the array of subnets, the key refresh procedure and
  the search for the credentials that decrypt a packet. A subnet pointer is the index of its slot.

  \<^item> The handlers that other modules register with \<^verbatim>\<open>BT_MESH_SUBNET_CB_DEFINE\<close> are collected by the linker;
    they are the list \<open>cbs\<close> of functions on the state, called in order by \<open>subnet_evt\<close>. The locale
    \<open>subnet_handlers\<close> states what subnet.c needs of them.
  \<^item> When a key derivation fails, the arrays filled so far are not read, since \<^verbatim>\<open>valid\<close> is not set; the
    model leaves them as they were.
  \<^item> \<open>subnet_ok\<close> is the invariant of a slot: what the key refresh phase says about the two keys.
\<close>

section \<open>Events and status codes\<close>

datatype bt_mesh_key_evt =
  BT_MESH_KEY_ADDED | BT_MESH_KEY_DELETED | BT_MESH_KEY_UPDATED | BT_MESH_KEY_SWAPPED | BT_MESH_KEY_REVOKED

datatype mesh_status =
    STATUS_SUCCESS | STATUS_INVALID_ADDRESS | STATUS_INVALID_MODEL | STATUS_INVALID_APPKEY
  | STATUS_INVALID_NETKEY | STATUS_INSUFF_RESOURCES | STATUS_IDX_ALREADY_STORED | STATUS_NVAL_PUB_PARAM
  | STATUS_NOT_SUB_MOD | STATUS_STORAGE_FAIL | STATUS_FEAT_NOT_SUPP | STATUS_CANNOT_UPDATE
  | STATUS_CANNOT_REMOVE | STATUS_CANNOT_BIND | STATUS_TEMP_STATE_CHG_FAIL | STATUS_CANNOT_SET
  | STATUS_UNSPECIFIED | STATUS_INVALID_BINDING

type_synonym 'a subnet_cb = "nat \<Rightarrow> bt_mesh_key_evt \<Rightarrow> 'a mesh_state_scheme \<Rightarrow> 'a mesh_state_scheme"

definition BT_MESH_FEATURE_DISABLED :: u8 where "BT_MESH_FEATURE_DISABLED = 0"
definition BT_MESH_FEATURE_ENABLED :: u8 where "BT_MESH_FEATURE_ENABLED = 1"
definition BT_MESH_FEATURE_NOT_SUPPORTED :: u8 where "BT_MESH_FEATURE_NOT_SUPPORTED = 2"

lemmas feature_defs = BT_MESH_FEATURE_DISABLED_def BT_MESH_FEATURE_ENABLED_def BT_MESH_FEATURE_NOT_SUPPORTED_def

definition upd_sub :: "nat \<Rightarrow> (bt_mesh_subnet \<Rightarrow> bt_mesh_subnet) \<Rightarrow> 'a mesh_state_scheme \<Rightarrow> 'a mesh_state_scheme" where
  "upd_sub i f s = s\<lparr>subnets := (subnets s)[i := f (subnets s ! i)]\<rparr>"

definition subnet_evt :: "'a subnet_cb list \<Rightarrow> 'a subnet_cb" where
  "subnet_evt cbs sub evt s = fold (\<lambda>cb. cb sub evt) cbs s"

section \<open>Key refresh\<close>

definition bt_mesh_net_flags :: "nat option \<Rightarrow> 'a mesh_state_scheme \<Rightarrow> u8" where
  "bt_mesh_net_flags sub s =
     (case sub of Some i \<Rightarrow> if sub_kr_phase (subnets s ! i) = BT_MESH_KR_PHASE_2 then 0x01 else 0x00
                | None \<Rightarrow> 0x00)
     OR (if flags s BT_MESH_IVU_IN_PROGRESS then 0x02 else 0x00)"

text \<open>beacon.c \<^verbatim>\<open>bt_mesh_beacon_update\<close>: the authentication value of the beacons of a subnet.\<close>

definition bt_mesh_beacon_update :: "tinycrypt \<Rightarrow> nat \<Rightarrow> 'a mesh_state_scheme \<Rightarrow> 'a mesh_state_scheme" where
  "bt_mesh_beacon_update tc i s =
     (let sub = subnets s ! i; keys = sub_keys sub ! SUBNET_KEY_TX_IDX sub in
      case bt_mesh_beacon_auth tc (sk_beacon keys) (bt_mesh_net_flags (Some i) s) (sk_net_id keys) (bm_iv_index s) of
        Inl _ \<Rightarrow> s
      | Inr auth \<Rightarrow> upd_sub i (\<lambda>sub. sub\<lparr>sub_auth := auth\<rparr>) s)"

definition key_revoke :: "bt_mesh_subnet \<Rightarrow> bt_mesh_subnet" where
  "key_revoke sub = sub\<lparr>sub_kr_phase := BT_MESH_KR_NORMAL,
     sub_keys := [sub_keys sub ! 1, (sub_keys sub ! 1)\<lparr>sk_valid := False\<rparr>]\<rparr>"

definition key_refresh :: "'a subnet_cb list \<Rightarrow> nat \<Rightarrow> u8 \<Rightarrow> 'a mesh_state_scheme \<Rightarrow> 'a mesh_state_scheme" where
  "key_refresh cbs i new_phase s =
     (if new_phase = BT_MESH_KR_PHASE_3 \<and> sub_kr_phase (subnets s ! i) = BT_MESH_KR_NORMAL then s
      else
        let s = (if new_phase = BT_MESH_KR_PHASE_1 then
                   subnet_evt cbs i BT_MESH_KEY_UPDATED (upd_sub i (\<lambda>sub. sub\<lparr>sub_kr_phase := new_phase\<rparr>) s)
                 else if new_phase = BT_MESH_KR_PHASE_2 then
                   subnet_evt cbs i BT_MESH_KEY_SWAPPED (upd_sub i (\<lambda>sub. sub\<lparr>sub_kr_phase := new_phase\<rparr>) s)
                 else if new_phase = BT_MESH_KR_PHASE_3 \<or> new_phase = BT_MESH_KR_NORMAL then
                   subnet_evt cbs i BT_MESH_KEY_REVOKED (upd_sub i key_revoke s)
                 else s) in
        bt_mesh_store_subnet (sub_net_idx (subnets s ! i)) s)"

definition bt_mesh_kr_update ::
    "'a subnet_cb list \<Rightarrow> nat \<Rightarrow> bool \<Rightarrow> bool \<Rightarrow> 'a mesh_state_scheme \<Rightarrow> 'a mesh_state_scheme" where
  "bt_mesh_kr_update cbs i kr_flag new_key s =
     (if \<not> new_key then s
      else if sub_kr_phase (subnets s ! i) = BT_MESH_KR_PHASE_1 then
        key_refresh cbs i (if kr_flag then BT_MESH_KR_PHASE_2 else BT_MESH_KR_PHASE_3) s
      else if sub_kr_phase (subnets s ! i) = BT_MESH_KR_PHASE_2 \<and> \<not> kr_flag then
        key_refresh cbs i BT_MESH_KR_PHASE_3 s
      else s)"

section \<open>Adding and removing subnets\<close>

definition subnet_alloc :: "u16 \<Rightarrow> 'a mesh_state_scheme \<Rightarrow> nat option" where
  "subnet_alloc net_idx s =
     (case find_idx (\<lambda>sub. sub_net_idx sub = net_idx) (subnets s) of
        Some i \<Rightarrow> Some i
      | None \<Rightarrow> find_idx (\<lambda>sub. sub_net_idx sub = BT_MESH_KEY_UNUSED) (subnets s))"

text \<open>net.c \<^verbatim>\<open>bt_mesh_net_loopback_clear\<close>: the buffers of the other subnets stay queued, in order.\<close>

definition bt_mesh_net_loopback_clear :: "u16 \<Rightarrow> 'a mesh_state_scheme \<Rightarrow> 'a mesh_state_scheme" where
  "bt_mesh_net_loopback_clear net_idx s =
     s\<lparr>bm_local_queue :=
         filter (\<lambda>(i, d). \<not> (net_idx = BT_MESH_KEY_ANY \<or> net_idx = sub_net_idx (subnets s ! i))) (bm_local_queue s)\<rparr>"

definition subnet_del :: "'a subnet_cb list \<Rightarrow> nat \<Rightarrow> 'a mesh_state_scheme \<Rightarrow> 'a mesh_state_scheme" where
  "subnet_del cbs i s =
     (let net_idx = sub_net_idx (subnets s ! i);
          s = bt_mesh_clear_subnet net_idx s;
          s = bt_mesh_net_loopback_clear net_idx s;
          s = subnet_evt cbs i BT_MESH_KEY_DELETED s in
      upd_sub i (\<lambda>sub. unused_subnet) s)"

definition msg_cred_create :: "tinycrypt \<Rightarrow> bytes \<Rightarrow> bytes \<Rightarrow> errno + bt_mesh_net_cred" where
  "msg_cred_create tc p key =
     ebind (bt_mesh_k2 tc key p) (\<lambda>(nid, enc, privacy). Inr \<lparr>nc_nid = nid, nc_enc = enc, nc_privacy = privacy\<rparr>)"

definition net_keys_create :: "tinycrypt \<Rightarrow> bytes \<Rightarrow> errno + bt_mesh_subnet_keys" where
  "net_keys_create tc key =
     ebind (msg_cred_create tc [0] key) (\<lambda>msg.
     ebind (bt_mesh_k3 tc key) (\<lambda>net_id.
     ebind (bt_mesh_identity_key tc key) (\<lambda>identity.
     ebind (bt_mesh_beacon_key tc key) (\<lambda>beacon.
     Inr \<lparr>sk_valid = True, sk_net = take 16 key, sk_msg = msg, sk_net_id = net_id, sk_identity = identity,
          sk_beacon = beacon\<rparr>))))"

definition bt_mesh_subnet_add ::
    "tinycrypt \<Rightarrow> 'a subnet_cb list \<Rightarrow> u16 \<Rightarrow> bytes \<Rightarrow> 'a mesh_state_scheme \<Rightarrow> mesh_status \<times> 'a mesh_state_scheme" where
  "bt_mesh_subnet_add tc cbs net_idx key s =
     (case subnet_alloc net_idx s of
        None \<Rightarrow> (STATUS_INSUFF_RESOURCES, s)
      | Some i \<Rightarrow>
          let sub = subnets s ! i in
          if sub_net_idx sub = net_idx then
            (if take 16 key \<noteq> sk_net (sub_keys sub ! 0) then (STATUS_IDX_ALREADY_STORED, s) else (STATUS_SUCCESS, s))
          else (case net_keys_create tc key of
                  Inl _ \<Rightarrow> (STATUS_UNSPECIFIED, s)
                | Inr keys \<Rightarrow>
                    let s = upd_sub i (\<lambda>sub. sub\<lparr>sub_keys := (sub_keys sub)[0 := keys], sub_net_idx := net_idx,
                              sub_kr_phase := BT_MESH_KR_NORMAL, sub_node_id := BT_MESH_FEATURE_DISABLED\<rparr>) s;
                        s = subnet_evt cbs i BT_MESH_KEY_ADDED s in
                    (STATUS_SUCCESS, bt_mesh_store_subnet (sub_net_idx (subnets s ! i)) s)))"

definition bt_mesh_subnet_exists :: "u16 \<Rightarrow> 'a mesh_state_scheme \<Rightarrow> bool" where
  "bt_mesh_subnet_exists net_idx s \<longleftrightarrow> bt_mesh_subnet_get net_idx s \<noteq> None"

text \<open>The switch on the phase has no default: a phase above 3 falls through to the update.\<close>

definition bt_mesh_subnet_update ::
    "tinycrypt \<Rightarrow> 'a subnet_cb list \<Rightarrow> u16 \<Rightarrow> bytes \<Rightarrow> 'a mesh_state_scheme \<Rightarrow> mesh_status \<times> 'a mesh_state_scheme" where
  "bt_mesh_subnet_update tc cbs net_idx key s =
     (case bt_mesh_subnet_get net_idx s of
        None \<Rightarrow> (STATUS_INVALID_NETKEY, s)
      | Some i \<Rightarrow>
          let sub = subnets s ! i; phase = sub_kr_phase sub in
          if phase = BT_MESH_KR_NORMAL \<and> take 16 key = sk_net (sub_keys sub ! 0) then (STATUS_IDX_ALREADY_STORED, s)
          else if phase = BT_MESH_KR_PHASE_1 \<and> take 16 key = sk_net (sub_keys sub ! 1) then (STATUS_SUCCESS, s)
          else if phase = BT_MESH_KR_PHASE_1 \<or> phase = BT_MESH_KR_PHASE_2 \<or> phase = BT_MESH_KR_PHASE_3
          then (STATUS_CANNOT_UPDATE, s)
          else (case net_keys_create tc key of
                  Inl _ \<Rightarrow> (STATUS_CANNOT_UPDATE, s)
                | Inr keys \<Rightarrow>
                    (STATUS_SUCCESS, key_refresh cbs i BT_MESH_KR_PHASE_1
                       (upd_sub i (\<lambda>sub. sub\<lparr>sub_keys := (sub_keys sub)[1 := keys]\<rparr>) s))))"

definition bt_mesh_subnet_del ::
    "'a subnet_cb list \<Rightarrow> u16 \<Rightarrow> 'a mesh_state_scheme \<Rightarrow> mesh_status \<times> 'a mesh_state_scheme" where
  "bt_mesh_subnet_del cbs net_idx s =
     (case bt_mesh_subnet_get net_idx s of
        None \<Rightarrow> (STATUS_INVALID_NETKEY, s)
      | Some i \<Rightarrow> (STATUS_SUCCESS, subnet_del cbs i s))"

definition bt_mesh_friend_cred_create ::
    "tinycrypt \<Rightarrow> u16 \<Rightarrow> u16 \<Rightarrow> u16 \<Rightarrow> u16 \<Rightarrow> bytes \<Rightarrow> errno + bt_mesh_net_cred" where
  "bt_mesh_friend_cred_create tc lpn_addr frnd_addr lpn_counter frnd_counter key =
     msg_cred_create tc (0x01 # sys_put_be16 lpn_addr @ sys_put_be16 frnd_addr
                          @ sys_put_be16 lpn_counter @ sys_put_be16 frnd_counter) key"

section \<open>Phase and identity of a subnet\<close>

definition valid_transitions :: "u8 list" where
  "valid_transitions = [push_bit 3 1, push_bit 2 1 OR push_bit 3 1, push_bit 3 1]"

definition bt_mesh_subnet_kr_phase_set ::
    "'a subnet_cb list \<Rightarrow> u16 \<Rightarrow> u8 \<Rightarrow> 'a mesh_state_scheme \<Rightarrow> mesh_status \<times> u8 \<times> 'a mesh_state_scheme" where
  "bt_mesh_subnet_kr_phase_set cbs net_idx phase s =
     (case bt_mesh_subnet_get net_idx s of
        None \<Rightarrow> (STATUS_INVALID_NETKEY, 0x00, s)
      | Some i \<Rightarrow>
          let kr_phase = sub_kr_phase (subnets s ! i) in
          if phase = kr_phase then (STATUS_SUCCESS, phase, s)
          else if unat kr_phase < length valid_transitions \<and> bit (valid_transitions ! unat kr_phase) (unat phase) then
            (let s = key_refresh cbs i phase s in (STATUS_SUCCESS, sub_kr_phase (subnets s ! i), s))
          else (STATUS_CANNOT_UPDATE, kr_phase, s))"

definition bt_mesh_subnet_kr_phase_get :: "u16 \<Rightarrow> 'a mesh_state_scheme \<Rightarrow> mesh_status \<times> u8" where
  "bt_mesh_subnet_kr_phase_get net_idx s =
     (case bt_mesh_subnet_get net_idx s of
        None \<Rightarrow> (STATUS_INVALID_NETKEY, BT_MESH_KR_NORMAL)
      | Some i \<Rightarrow> (STATUS_SUCCESS, sub_kr_phase (subnets s ! i)))"

text \<open>proxy.c: \<^verbatim>\<open>node_id_start\<close> stamps the subnet with the uptime \<open>now\<close>.\<close>

definition bt_mesh_proxy_identity_start :: "u32 \<Rightarrow> nat \<Rightarrow> 'a mesh_state_scheme \<Rightarrow> 'a mesh_state_scheme" where
  "bt_mesh_proxy_identity_start now i s =
     upd_sub i (\<lambda>sub. sub\<lparr>sub_node_id := BT_MESH_FEATURE_ENABLED, sub_node_id_start := now\<rparr>) s"

definition bt_mesh_proxy_identity_stop :: "nat \<Rightarrow> 'a mesh_state_scheme \<Rightarrow> 'a mesh_state_scheme" where
  "bt_mesh_proxy_identity_stop i s =
     upd_sub i (\<lambda>sub. sub\<lparr>sub_node_id := BT_MESH_FEATURE_DISABLED, sub_node_id_start := 0\<rparr>) s"

definition bt_mesh_subnet_node_id_set ::
    "u32 \<Rightarrow> u16 \<Rightarrow> u8 \<Rightarrow> 'a mesh_state_scheme \<Rightarrow> mesh_status \<times> 'a mesh_state_scheme" where
  "bt_mesh_subnet_node_id_set now net_idx node_id s =
     (if node_id = BT_MESH_FEATURE_NOT_SUPPORTED then (STATUS_CANNOT_SET, s)
      else case bt_mesh_subnet_get net_idx s of
             None \<Rightarrow> (STATUS_INVALID_NETKEY, s)
           | Some i \<Rightarrow>
               (STATUS_SUCCESS,
                if node_id \<noteq> 0 then bt_mesh_proxy_identity_start now i s else bt_mesh_proxy_identity_stop i s))"

definition bt_mesh_subnet_node_id_get :: "u16 \<Rightarrow> 'a mesh_state_scheme \<Rightarrow> mesh_status \<times> u8" where
  "bt_mesh_subnet_node_id_get net_idx s =
     (case bt_mesh_subnet_get net_idx s of
        None \<Rightarrow> (STATUS_INVALID_NETKEY, 0x00)
      | Some i \<Rightarrow> (STATUS_SUCCESS, sub_node_id (subnets s ! i)))"

section \<open>Iteration\<close>

text \<open>
  The loop that \<^verbatim>\<open>bt_mesh_subnets_get\<close> and \<^verbatim>\<open>bt_mesh_app_keys_get\<close> share: the indices from the \<open>skip\<close>-th on,
  \<^verbatim>\<open>-ENOMEM\<close> when there are more than \<open>mx\<close>.
\<close>

fun idxs_get :: "u16 list \<Rightarrow> nat \<Rightarrow> nat \<Rightarrow> errno + u16 list" where
  "idxs_get [] mx skip = Inr []"
| "idxs_get (x # xs) mx (Suc skip) = idxs_get xs mx skip"
| "idxs_get (x # xs) 0 0 = Inl ENOMEM"
| "idxs_get (x # xs) (Suc mx) 0 = ebind (idxs_get xs mx 0) (\<lambda>r. Inr (x # r))"

definition bt_mesh_subnets_get :: "nat \<Rightarrow> nat \<Rightarrow> 'a mesh_state_scheme \<Rightarrow> errno + u16 list" where
  "bt_mesh_subnets_get mx skip s =
     idxs_get (filter (\<lambda>i. i \<noteq> BT_MESH_KEY_UNUSED) (map sub_net_idx (subnets s))) mx skip"

definition bt_mesh_subnet_set ::
    "tinycrypt \<Rightarrow> u16 \<Rightarrow> u8 \<Rightarrow> bytes option \<Rightarrow> bytes option \<Rightarrow> 'a mesh_state_scheme \<Rightarrow>
     errno option \<times> 'a mesh_state_scheme" where
  "bt_mesh_subnet_set tc net_idx kr_phase old_key new_key s =
     (case subnet_alloc net_idx s of
        None \<Rightarrow> (Some ENOMEM, s)
      | Some i \<Rightarrow>
          if sub_net_idx (subnets s ! i) = net_idx then (Some EALREADY, s)
          else
            let put = (\<lambda>j key s. case key of
                         None \<Rightarrow> Inr s
                       | Some k \<Rightarrow> (case net_keys_create tc k of
                           Inl _ \<Rightarrow> Inl s
                         | Inr keys \<Rightarrow> Inr (upd_sub i (\<lambda>sub. sub\<lparr>sub_keys := (sub_keys sub)[j := keys]\<rparr>) s))) in
            (case ebind (put 0 old_key s) (put 1 new_key) of
               Inl s \<Rightarrow> (Some EIO, s)
             | Inr s \<Rightarrow>
                 (None, bt_mesh_beacon_update tc i
                          (upd_sub i (\<lambda>sub. sub\<lparr>sub_net_idx := net_idx, sub_kr_phase := kr_phase,
                             sub_node_id := BT_MESH_FEATURE_DISABLED\<rparr>) s))))"

text \<open>The slots in use, in order; \<open>foreach\<close> also returns how many there are.\<close>

definition used_slots :: "'a mesh_state_scheme \<Rightarrow> nat list" where
  "used_slots s = filter (\<lambda>i. sub_net_idx (subnets s ! i) \<noteq> BT_MESH_KEY_UNUSED) [0..<length (subnets s)]"

definition bt_mesh_subnet_find :: "(bt_mesh_subnet \<Rightarrow> bool) option \<Rightarrow> 'a mesh_state_scheme \<Rightarrow> nat option" where
  "bt_mesh_subnet_find cb s =
     find_idx (\<lambda>sub. sub_net_idx sub \<noteq> BT_MESH_KEY_UNUSED \<and> (case cb of None \<Rightarrow> True | Some f \<Rightarrow> f sub)) (subnets s)"

definition bt_mesh_subnet_foreach ::
    "(nat \<Rightarrow> 'a mesh_state_scheme \<Rightarrow> 'a mesh_state_scheme) \<Rightarrow> 'a mesh_state_scheme \<Rightarrow> nat \<times> 'a mesh_state_scheme" where
  "bt_mesh_subnet_foreach cb s =
     fold (\<lambda>i (n, s). if sub_net_idx (subnets s ! i) = BT_MESH_KEY_UNUSED then (n, s) else (n + 1, cb i s))
       [0..<length (subnets s)] (0, s)"

text \<open>The loop of \<^verbatim>\<open>bt_mesh_subnet_next\<close>: at most one round over the array from slot \<open>i\<close> on.\<close>

primrec subnet_next_from :: "nat \<Rightarrow> nat \<Rightarrow> bt_mesh_subnet list \<Rightarrow> nat option" where
  "subnet_next_from 0 i subs = None"
| "subnet_next_from (Suc n) i subs =
     (let i = (if i = length subs then 0 else i) in
      if sub_net_idx (subs ! i) \<noteq> BT_MESH_KEY_UNUSED then Some i else subnet_next_from n (Suc i) subs)"

definition bt_mesh_subnet_next :: "nat option \<Rightarrow> 'a mesh_state_scheme \<Rightarrow> nat option" where
  "bt_mesh_subnet_next sub s =
     subnet_next_from (length (subnets s)) (case sub of Some i \<Rightarrow> Suc i | None \<Rightarrow> 0) (subnets s)"

definition bt_mesh_net_keys_reset :: "'a subnet_cb list \<Rightarrow> 'a mesh_state_scheme \<Rightarrow> 'a mesh_state_scheme" where
  "bt_mesh_net_keys_reset cbs s =
     fold (\<lambda>i s. if sub_net_idx (subnets s ! i) \<noteq> BT_MESH_KEY_UNUSED then subnet_del cbs i s else s)
       [0..<length (subnets s)] s"

section \<open>Finding the credentials of a packet\<close>

text \<open>
  The credentials that \<^verbatim>\<open>bt_mesh_net_cred_find\<close> tries, in order: those of the friendships (\<open>frnd\<close> has for
  each entry of \<^verbatim>\<open>bt_mesh.frnd\<close> with a subnet the slot of the subnet and its two credentials), then those of
  the subnets. \<open>cb\<close> is the callback; it may change the reception context and the output buffer also when it
  rejects the credentials.
\<close>

record cred_cand =
  cc_sub :: nat
  cc_idx :: nat
  cc_friend :: bool
  cc_cred :: bt_mesh_net_cred

definition friend_cands :: "(nat \<times> bt_mesh_net_cred list) option list \<Rightarrow> 'a mesh_state_scheme \<Rightarrow> cred_cand list" where
  "friend_cands frnd s =
     concat (map (\<lambda>f. case f of None \<Rightarrow> [] | Some (i, creds) \<Rightarrow>
       map (\<lambda>j. \<lparr>cc_sub = i, cc_idx = j, cc_friend = True, cc_cred = creds ! j\<rparr>)
         (filter (\<lambda>j. sk_valid (sub_keys (subnets s ! i) ! j)) [0..<length creds])) frnd)"

definition subnet_cands :: "'a mesh_state_scheme \<Rightarrow> cred_cand list" where
  "subnet_cands s =
     concat (map (\<lambda>i. let sub = subnets s ! i in
       map (\<lambda>j. \<lparr>cc_sub = i, cc_idx = j, cc_friend = False, cc_cred = sk_msg (sub_keys sub ! j)\<rparr>)
         (filter (\<lambda>j. sk_valid (sub_keys sub ! j)) [0..<length (sub_keys sub)])) (used_slots s))"

primrec cred_try ::
    "(bt_mesh_net_rx \<Rightarrow> 'b \<Rightarrow> bt_mesh_net_cred \<Rightarrow> bool \<times> bt_mesh_net_rx \<times> 'b) \<Rightarrow> 'a mesh_state_scheme \<Rightarrow>
     cred_cand list \<Rightarrow> bt_mesh_net_rx \<Rightarrow> 'b \<Rightarrow> (bt_mesh_net_rx \<times> 'b) option" where
  "cred_try cb s [] rx out = None"
| "cred_try cb s (c # cs) rx out =
     (case cb (rx\<lparr>rx_sub := Some (cc_sub c)\<rparr>) out (cc_cred c) of
        (True, rx, out) \<Rightarrow>
          Some (rx\<lparr>rx_new_key := cc_idx c > 0, rx_friend_cred := cc_friend c,
                   rx_ctx := (rx_ctx rx)\<lparr>ctx_net_idx := sub_net_idx (subnets s ! cc_sub c)\<rparr>\<rparr>, out)
      | (False, rx, out) \<Rightarrow> cred_try cb s cs rx out)"

definition bt_mesh_net_cred_find ::
    "(nat \<times> bt_mesh_net_cred list) option list \<Rightarrow>
     (bt_mesh_net_rx \<Rightarrow> 'b \<Rightarrow> bt_mesh_net_cred \<Rightarrow> bool \<times> bt_mesh_net_rx \<times> 'b) \<Rightarrow> 'a mesh_state_scheme \<Rightarrow>
     bt_mesh_net_rx \<Rightarrow> 'b \<Rightarrow> (bt_mesh_net_rx \<times> 'b) option" where
  "bt_mesh_net_cred_find frnd cb s rx out = cred_try cb s (friend_cands frnd s @ subnet_cands s) rx out"

section \<open>The invariant of the subnets\<close>

definition phase_ok :: "bt_mesh_subnet \<Rightarrow> bool" where
  "phase_ok sub \<longleftrightarrow>
     (sub_kr_phase sub = BT_MESH_KR_NORMAL \<and> sk_valid (sub_keys sub ! 0) \<and> \<not> sk_valid (sub_keys sub ! 1)) \<or>
     (sub_kr_phase sub = BT_MESH_KR_PHASE_1 \<and> sk_valid (sub_keys sub ! 0) \<and> sk_valid (sub_keys sub ! 1)) \<or>
     (sub_kr_phase sub = BT_MESH_KR_PHASE_2 \<and> sk_valid (sub_keys sub ! 1))"

definition subnet_ok :: "bt_mesh_subnet \<Rightarrow> bool" where
  "subnet_ok sub \<longleftrightarrow> length (sub_keys sub) = 2 \<and>
     (if sub_net_idx sub = BT_MESH_KEY_UNUSED
      then \<not> sk_valid (sub_keys sub ! 0) \<and> \<not> sk_valid (sub_keys sub ! 1)
      else sub_net_idx sub < 2 ^ 12 \<and> phase_ok sub)"

text \<open>No two slots in use have the same index.\<close>

definition idx_distinct :: "u16 list \<Rightarrow> bool" where
  "idx_distinct is \<longleftrightarrow> (\<forall>i < length is. \<forall>j < length is. is ! i = is ! j \<longrightarrow> is ! i \<noteq> BT_MESH_KEY_UNUSED \<longrightarrow> i = j)"

definition subnets_ok :: "'a mesh_state_scheme \<Rightarrow> bool" where
  "subnets_ok s \<longleftrightarrow> list_all subnet_ok (subnets s) \<and> idx_distinct (map sub_net_idx (subnets s))"

text \<open>What the invariant depends on.\<close>

definition sub_core :: "bt_mesh_subnet \<Rightarrow> u16 \<times> u8 \<times> bt_mesh_subnet_keys list" where
  "sub_core sub = (sub_net_idx sub, sub_kr_phase sub, sub_keys sub)"

definition same_core :: "'a mesh_state_scheme \<Rightarrow> 'a mesh_state_scheme \<Rightarrow> bool" where
  "same_core s s' \<longleftrightarrow> map sub_core (subnets s') = map sub_core (subnets s)"

lemma same_core_refl [simp]: "same_core s s"
  by (simp add: same_core_def)

lemma same_core_trans: "same_core s s' \<Longrightarrow> same_core s' s'' \<Longrightarrow> same_core s s''"
  by (simp add: same_core_def)

lemma same_core_length: "same_core s s' \<Longrightarrow> length (subnets s') = length (subnets s)"
  using map_eq_imp_length_eq by (auto simp: same_core_def)

lemma same_core_nth:
  assumes "same_core s s'" "i < length (subnets s)"
  shows "sub_net_idx (subnets s' ! i) = sub_net_idx (subnets s ! i)"
    "sub_kr_phase (subnets s' ! i) = sub_kr_phase (subnets s ! i)"
    "sub_keys (subnets s' ! i) = sub_keys (subnets s ! i)"
proof -
  have "sub_core (subnets s' ! i) = sub_core (subnets s ! i)"
    using assms same_core_length [OF assms(1)] unfolding same_core_def by (metis nth_map)
  then show "sub_net_idx (subnets s' ! i) = sub_net_idx (subnets s ! i)"
    "sub_kr_phase (subnets s' ! i) = sub_kr_phase (subnets s ! i)"
    "sub_keys (subnets s' ! i) = sub_keys (subnets s ! i)" by (simp_all add: sub_core_def)
qed

lemma same_core_idx: "same_core s s' \<Longrightarrow> map sub_net_idx (subnets s') = map sub_net_idx (subnets s)"
  by (rule nth_equalityI) (simp_all add: same_core_length same_core_nth)

lemma same_core_ok: "same_core s s' \<Longrightarrow> subnets_ok s \<Longrightarrow> subnets_ok s'"
  using same_core_idx [of s s'] by (auto simp: subnets_ok_def list_all_length same_core_length same_core_nth
      subnet_ok_def phase_ok_def)

lemma same_core_get: "same_core s s' \<Longrightarrow> bt_mesh_subnet_get k s' = bt_mesh_subnet_get k s"
  unfolding bt_mesh_subnet_get_def by (rule find_idx_cong) (simp_all add: same_core_length same_core_nth)

lemma same_core_ram: "same_core s s' \<Longrightarrow> apps s' = apps s \<Longrightarrow> ram_key s' = ram_key s"
proof (rule ext)
  fix k assume c: "same_core s s'" "apps s' = apps s"
  show "ram_key s' k = ram_key s k"
  proof (cases "bt_mesh_subnet_get (snd k) s")
    case (Some i)
    then have "i < length (subnets s)" unfolding bt_mesh_subnet_get_def by (auto dest: find_idx_SomeD)
    with c Some same_core_get [OF c(1)] show ?thesis by (simp add: ram_key_def app_get_def same_core_nth)
  next
    case None
    with c same_core_get [OF c(1)] show ?thesis by (simp add: ram_key_def app_get_def)
  qed
qed

lemma upd_sub_simps [simp]:
  "apps (upd_sub i f s) = apps s" "key_updates (upd_sub i f s) = key_updates s" "flash (upd_sub i f s) = flash s"
  "flags (upd_sub i f s) = flags s" "bm_iv_index (upd_sub i f s) = bm_iv_index s"
  "subnets (upd_sub i f s) = (subnets s)[i := f (subnets s ! i)]"
  by (simp_all add: upd_sub_def)

lemma key_request_core [simp]: "same_core s (key_request k c s)"
  by (simp add: same_core_def)

text \<open>Changing one slot.\<close>

lemma upd_sub_ok:
  assumes "subnets_ok s" "i < length (subnets s)" "subnet_ok (f (subnets s ! i))"
    and "sub_net_idx (f (subnets s ! i)) = sub_net_idx (subnets s ! i) \<or>
         sub_net_idx (f (subnets s ! i)) = BT_MESH_KEY_UNUSED \<or>
         (\<forall>sub \<in> set (subnets s). sub_net_idx sub \<noteq> sub_net_idx (f (subnets s ! i)))"
  shows "subnets_ok (upd_sub i f s)"
proof -
  have "list_all subnet_ok ((subnets s)[i := f (subnets s ! i)])"
    using assms by (simp add: subnets_ok_def list_all_updateI)
  moreover have "idx_distinct (map sub_net_idx ((subnets s)[i := f (subnets s ! i)]))"
    unfolding idx_distinct_def
  proof (intro allI impI)
    fix p q assume p: "p < length (map sub_net_idx ((subnets s)[i := f (subnets s ! i)]))"
      "q < length (map sub_net_idx ((subnets s)[i := f (subnets s ! i)]))"
      and eq: "map sub_net_idx ((subnets s)[i := f (subnets s ! i)]) ! p = map sub_net_idx ((subnets s)[i := f (subnets s ! i)]) ! q"
      and u: "map sub_net_idx ((subnets s)[i := f (subnets s ! i)]) ! p \<noteq> BT_MESH_KEY_UNUSED"
    from assms(1) have d: "p = q" if "sub_net_idx (subnets s ! p) = sub_net_idx (subnets s ! q)"
      "sub_net_idx (subnets s ! p) \<noteq> BT_MESH_KEY_UNUSED"
      using that p unfolding subnets_ok_def idx_distinct_def by simp
    have "subnets s ! p \<in> set (subnets s)" "subnets s ! q \<in> set (subnets s)" using p by simp_all
    then show "p = q"
      using eq u p d assms(2,4) by (cases "p = i"; cases "q = i") auto
  qed
  ultimately show ?thesis by (simp add: subnets_ok_def)
qed

lemma persist_upd_sub:
  assumes "persist s D" "i < length (subnets s)"
  shows "persist (upd_sub i f s) (D \<union> {(False, sub_net_idx (subnets s ! i)), (False, sub_net_idx (f (subnets s ! i)))})"
  by (rule persist_ram [OF assms(1)]) (use assms(2) ram_key_subnet [of i s "upd_sub i f s" "f (subnets s ! i)"] in auto)

lemma UNUSED_not_small [simp]: "\<not> BT_MESH_KEY_UNUSED < 4096"
  by (simp add: BT_MESH_KEY_UNUSED_def)

lemma UNUSED_large: "k < 4096 \<Longrightarrow> k \<noteq> BT_MESH_KEY_UNUSED"
  by auto

lemma persist_unused: "persist s (insert (b, BT_MESH_KEY_UNUSED) D) \<longleftrightarrow> persist s D"
  by (auto simp: persist_def dest: UNUSED_large)

lemma transitions_bits:
  assumes "bit (valid_transitions ! unat p) m" "unat p < 3"
  shows "m = 3 \<or> m = 2 \<and> unat p = 1"
proof -
  have "m < 8" using assms(1) by (auto dest: bit_imp_le_length)
  then have "m = 0 \<or> m = 1 \<or> m = 2 \<or> m = 3 \<or> m = 4 \<or> m = 5 \<or> m = 6 \<or> m = 7" by auto
  moreover have "unat p = 0 \<or> unat p = 1 \<or> unat p = 2" using assms(2) by auto
  ultimately show ?thesis using assms(1) by (auto simp: valid_transitions_def bit_1_0)
qed

lemma slot_cases:
  assumes "subnets_ok s" "i < length (subnets s)" "sub_net_idx (subnets s ! i) \<noteq> BT_MESH_KEY_UNUSED"
  shows "length (sub_keys (subnets s ! i)) = 2" "sub_net_idx (subnets s ! i) < 2 ^ 12" "phase_ok (subnets s ! i)"
    "subnet_ok (subnets s ! i)"
  using assms by (auto simp: subnets_ok_def list_all_length subnet_ok_def)

lemma get_slot:
  assumes "bt_mesh_subnet_get net_idx s = Some i"
  shows "i < length (subnets s)" "sub_net_idx (subnets s ! i) = net_idx"
  using find_idx_SomeD [OF assms [unfolded bt_mesh_subnet_get_def]] by auto

lemma alloc_new:
  assumes "subnet_alloc net_idx s = Some i" "sub_net_idx (subnets s ! i) \<noteq> net_idx"
  shows "i < length (subnets s)" "sub_net_idx (subnets s ! i) = BT_MESH_KEY_UNUSED"
    "\<forall>sub \<in> set (subnets s). sub_net_idx sub \<noteq> net_idx"
  using assms by (auto simp: subnet_alloc_def find_idx_None_iff split: option.splits dest!: find_idx_SomeD)

lemma net_keys_valid: "net_keys_create tc key = Inr keys \<Longrightarrow> sk_valid keys \<and> sk_net keys = take 16 key"
  by (auto simp: net_keys_create_def ebind_eq_Inr)

lemma loopback_clear_simps [simp]:
  "subnets (bt_mesh_net_loopback_clear k s) = subnets s" "apps (bt_mesh_net_loopback_clear k s) = apps s"
  "key_updates (bt_mesh_net_loopback_clear k s) = key_updates s" "flash (bt_mesh_net_loopback_clear k s) = flash s"
  by (simp_all add: bt_mesh_net_loopback_clear_def)

text \<open>The transitions of the key refresh state machine: only those with both keys at hand.\<close>

definition kr_allowed :: "bt_mesh_subnet \<Rightarrow> u8 \<Rightarrow> bool" where
  "kr_allowed sub phase \<longleftrightarrow>
     phase = BT_MESH_KR_PHASE_2 \<and> sub_kr_phase sub = BT_MESH_KR_PHASE_1 \<or> phase = BT_MESH_KR_PHASE_3"

section \<open>The contract of the handlers\<close>

text \<open>
  What subnet.c relies on when it calls the registered handlers: they leave index, phase and keys of every
  subnet alone, keep their own invariant \<open>inv\<close> (which does not depend on the subnets), keep memory and flash
  in step, and do not revive the record of a network key that is being removed.
\<close>

locale subnet_handlers =
  fixes cbs :: "'a subnet_cb list"
    and inv :: "'a mesh_state_scheme \<Rightarrow> bool"
  assumes inv_apps: "apps s = apps s' \<Longrightarrow> inv s = inv s'"
    and cb_core: "cb \<in> set cbs \<Longrightarrow> same_core s (cb i evt s)"
    and cb_inv: "cb \<in> set cbs \<Longrightarrow> inv s \<Longrightarrow> persist s D \<Longrightarrow> inv (cb i evt s) \<and> persist (cb i evt s) D"
    and cb_cleared: "cb \<in> set cbs \<Longrightarrow> inv s \<Longrightarrow> persist s D \<Longrightarrow> cleared s (False, k) \<Longrightarrow> cleared (cb i evt s) (False, k)"
begin

lemma evt_fold:
  assumes "set l \<subseteq> set cbs" "inv s" "persist s D"
  shows "same_core s (fold (\<lambda>cb. cb i evt) l s) \<and> inv (fold (\<lambda>cb. cb i evt) l s) \<and>
    persist (fold (\<lambda>cb. cb i evt) l s) D \<and>
    (cleared s (False, k) \<longrightarrow> cleared (fold (\<lambda>cb. cb i evt) l s) (False, k))"
  using assms
proof (induction l arbitrary: s)
  case (Cons cb l)
  then have cb: "cb \<in> set cbs" by simp
  from cb_inv [OF cb] Cons.prems have s: "inv (cb i evt s)" "persist (cb i evt s) D" by blast+
  from Cons.IH [OF _ s] Cons.prems cb_core [OF cb, of s i evt] cb_cleared [OF cb Cons.prems(2,3), of k i evt]
  show ?case by (auto intro: same_core_trans)
qed simp

lemma evt_ok:
  assumes "inv s" "persist s D"
  shows "same_core s (subnet_evt cbs i evt s)" "inv (subnet_evt cbs i evt s)" "persist (subnet_evt cbs i evt s) D"
    "cleared s (False, k) \<Longrightarrow> cleared (subnet_evt cbs i evt s) (False, k)"
  using evt_fold [OF _ assms, of cbs i evt k] by (simp_all add: subnet_evt_def)

text \<open>The state that all operations keep.\<close>

definition keys_inv :: "'a mesh_state_scheme \<Rightarrow> bool" where
  "keys_inv s \<longleftrightarrow> subnets_ok s \<and> inv s \<and> persist s {}"

text \<open>A slot is changed, the handlers are told, and the key is stored.\<close>

lemma change_and_store:
  fixes evt :: bt_mesh_key_evt
  assumes s: "subnets_ok s" "inv s" "persist s D" "D \<subseteq> {(False, k)}" "i < length (subnets s)"
    and f: "subnet_ok (f (subnets s ! i))" "sub_net_idx (f (subnets s ! i)) = k" "k < 2 ^ 12"
      "sub_net_idx (subnets s ! i) = k \<or> sub_net_idx (subnets s ! i) = BT_MESH_KEY_UNUSED \<and>
         (\<forall>sub \<in> set (subnets s). sub_net_idx sub \<noteq> k)"
  defines "s' \<equiv> subnet_evt cbs i evt (upd_sub i f s)"
  shows "keys_inv (bt_mesh_store_subnet (sub_net_idx (subnets s' ! i)) s')"
    "same_core (upd_sub i f s) (bt_mesh_store_subnet (sub_net_idx (subnets s' ! i)) s')"
proof -
  let ?u = "upd_sub i f s"
  have u: "subnets_ok ?u" by (rule upd_sub_ok [OF s(1,5), where f = f]) (use f in auto)
  have "inv ?u" using s(2) inv_apps [of s ?u] by simp
  have "persist ?u {(False, k), (False, BT_MESH_KEY_UNUSED)}"
    by (rule persist_mono [OF persist_upd_sub [OF s(3,5), of f]]) (use f s(4) in auto)
  then have "persist ?u {(False, k)}"
    using persist_unused [of ?u False "{(False, k)}"] by (simp add: insert_commute)
  note e = evt_ok [OF \<open>inv ?u\<close> this, where i = i and evt = evt, folded s'_def]
  have idx: "sub_net_idx (subnets s' ! i) = k" using same_core_nth(1) [OF e(1), of i] s(5) f(2) by simp
  have il: "i < length (subnets s')" using same_core_length [OF e(1)] s(5) by simp
  then have "bt_mesh_subnet_get k s' \<noteq> None"
    using idx by (auto simp: bt_mesh_subnet_get_def find_idx_None_iff)
  then have ram: "ram_key s' (False, k) \<noteq> None" by (simp add: ram_key_def)
  have p: "persist (key_request (False, k) False s') {}"
    using persist_store [OF e(3), of "(False, k)"] ram f(3) by simp
  have core: "same_core ?u (key_request (False, k) False s')"
    using same_core_trans [OF e(1) key_request_core] .
  from core show "same_core ?u (bt_mesh_store_subnet (sub_net_idx (subnets s' ! i)) s')"
    by (simp add: key_requests idx)
  have "inv (key_request (False, k) False s')" using e(2) inv_apps [of "key_request (False, k) False s'" s'] by simp
  with p same_core_ok [OF core u] show "keys_inv (bt_mesh_store_subnet (sub_net_idx (subnets s' ! i)) s')"
    by (simp add: keys_inv_def key_requests idx)
qed


lemma key_refresh_ok:
  assumes s: "keys_inv s" "i < length (subnets s)" "sub_net_idx (subnets s ! i) \<noteq> BT_MESH_KEY_UNUSED"
    and a: "kr_allowed (subnets s ! i) phase"
  shows "keys_inv (key_refresh cbs i phase s)"
proof -
  note sub = slot_cases [OF _ s(2,3)]
  have ks: "subnets_ok s" "inv s" "persist s {}" using s(1) by (auto simp: keys_inv_def)
  note sub = slot_cases [OF ks(1) s(2,3)]
  have step: "keys_inv (let s = subnet_evt cbs i evt (upd_sub i f s) in
      bt_mesh_store_subnet (sub_net_idx (subnets s ! i)) s)"
    if "subnet_ok (f (subnets s ! i))" "sub_net_idx (f (subnets s ! i)) = sub_net_idx (subnets s ! i)" for f evt
    unfolding Let_def by (rule change_and_store [OF ks _ s(2)]) (use that sub in auto)
  show ?thesis
  proof (cases "phase = BT_MESH_KR_PHASE_3")
    case True
    show ?thesis
    proof (cases "sub_kr_phase (subnets s ! i) = BT_MESH_KR_NORMAL")
      case True
      with \<open>phase = _\<close> s(1) show ?thesis by (simp add: key_refresh_def)
    next
      case False
      then have "subnet_ok (key_revoke (subnets s ! i))"
        using sub by (auto simp: subnet_ok_def key_revoke_def phase_ok_def kr_defs)
      from step [where f = key_revoke, OF this] False True show ?thesis
        by (simp add: key_refresh_def Let_def kr_defs key_revoke_def)
    qed
  next
    case False
    with a have p: "phase = BT_MESH_KR_PHASE_2" "sub_kr_phase (subnets s ! i) = BT_MESH_KR_PHASE_1"
      by (auto simp: kr_allowed_def)
    then have "subnet_ok ((subnets s ! i)\<lparr>sub_kr_phase := phase\<rparr>)"
      using sub by (auto simp: subnet_ok_def phase_ok_def kr_defs)
    from step [where f = "\<lambda>sub. sub\<lparr>sub_kr_phase := phase\<rparr>", OF this] p show ?thesis by (simp add: key_refresh_def Let_def kr_defs)
  qed
qed

lemma kr_update_ok:
  assumes "keys_inv s" "i < length (subnets s)" "sub_net_idx (subnets s ! i) \<noteq> BT_MESH_KEY_UNUSED"
  shows "keys_inv (bt_mesh_kr_update cbs i kr_flag new_key s)"
  using assms key_refresh_ok [OF assms] by (auto simp: bt_mesh_kr_update_def kr_allowed_def)

lemma kr_phase_set_ok:
  assumes "keys_inv s" "net_idx \<noteq> BT_MESH_KEY_UNUSED"
  shows "keys_inv (snd (snd (bt_mesh_subnet_kr_phase_set cbs net_idx phase s)))"
proof (cases "bt_mesh_subnet_get net_idx s")
  case (Some i)
  note i = get_slot [OF Some]
  have ph: "phase_ok (subnets s ! i)"
    using slot_cases(3) [of s i] assms i by (simp add: keys_inv_def)
  let ?p = "sub_kr_phase (subnets s ! i)"
  have "kr_allowed (subnets s ! i) phase"
    if b: "bit (valid_transitions ! unat ?p) (unat phase)" "unat ?p < 3"
  proof -
    have "unat phase = 3 \<or> unat phase = 2 \<and> ?p = BT_MESH_KR_PHASE_1"
      using ph transitions_bits [OF b] by (auto simp: phase_ok_def kr_defs)
    then show ?thesis by (auto simp: kr_allowed_def kr_defs word_unat_eq_iff)
  qed
  with key_refresh_ok [OF assms(1) i(1), of phase] i assms Some show ?thesis
    by (auto simp: bt_mesh_subnet_kr_phase_set_def Let_def valid_transitions_def)
qed (use assms in \<open>simp add: bt_mesh_subnet_kr_phase_set_def\<close>)

lemma subnet_add_ok:
  assumes s: "keys_inv s" and k: "net_idx < 2 ^ 12"
  shows "keys_inv (snd (bt_mesh_subnet_add tc cbs net_idx key s))"
proof (cases "subnet_alloc net_idx s")
  case (Some i)
  show ?thesis
  proof (cases "sub_net_idx (subnets s ! i) = net_idx")
    case True
    with Some s show ?thesis by (simp add: bt_mesh_subnet_add_def)
  next
    case False
    note a = alloc_new [OF Some False]
    have ks: "subnets_ok s" "inv s" "persist s {}" using s by (auto simp: keys_inv_def)
    have free: "length (sub_keys (subnets s ! i)) = 2" "\<not> sk_valid (sub_keys (subnets s ! i) ! 1)"
      using ks(1) a(1,2) by (auto simp: subnets_ok_def list_all_length subnet_ok_def)
    show ?thesis
    proof (cases "net_keys_create tc key")
      case (Inl e)
      with Some False s show ?thesis by (simp add: bt_mesh_subnet_add_def)
    next
      case (Inr keys)
      let ?f = "\<lambda>sub. sub\<lparr>sub_keys := (sub_keys sub)[0 := keys], sub_net_idx := net_idx,
                  sub_kr_phase := BT_MESH_KR_NORMAL, sub_node_id := BT_MESH_FEATURE_DISABLED\<rparr>"
      have "subnet_ok (?f (subnets s ! i))"
        using free net_keys_valid [OF Inr] k by (auto simp: subnet_ok_def phase_ok_def dest: UNUSED_large)
      from change_and_store(1) [where f = ?f, OF ks _ a(1) this _ k] a(2,3) Some False Inr show ?thesis
        by (simp add: bt_mesh_subnet_add_def Let_def)
    qed
  qed
qed (use s in \<open>simp add: bt_mesh_subnet_add_def\<close>)

lemma subnet_update_ok:
  assumes s: "keys_inv s" and k: "net_idx \<noteq> BT_MESH_KEY_UNUSED"
  shows "keys_inv (snd (bt_mesh_subnet_update tc cbs net_idx key s))"
proof (cases "bt_mesh_subnet_get net_idx s")
  case (Some i)
  note i = get_slot [OF Some]
  have ks: "subnets_ok s" "inv s" "persist s {}" using s by (auto simp: keys_inv_def)
  note sub = slot_cases [OF ks(1) i(1)]
  let ?sub = "subnets s ! i"
  show ?thesis
  proof (cases "sub_kr_phase ?sub = BT_MESH_KR_NORMAL \<and> take 16 key \<noteq> sk_net (sub_keys ?sub ! 0)")
    case False
    then have "snd (bt_mesh_subnet_update tc cbs net_idx key s) = s"
      using Some sub(3) i k by (auto simp: bt_mesh_subnet_update_def Let_def phase_ok_def)
    with s show ?thesis by simp
  next
    case True
    show ?thesis
    proof (cases "net_keys_create tc key")
      case (Inl e)
      with Some s True show ?thesis by (auto simp: bt_mesh_subnet_update_def Let_def)
    next
      case (Inr keys)
      let ?f = "\<lambda>sub. sub\<lparr>sub_keys := (sub_keys sub)[1 := keys]\<rparr>"
      let ?g = "\<lambda>sub. sub\<lparr>sub_keys := (sub_keys sub)[1 := keys], sub_kr_phase := BT_MESH_KR_PHASE_1\<rparr>"
      have "subnet_ok (?g ?sub)"
        using sub i k True net_keys_valid [OF Inr] by (auto simp: subnet_ok_def phase_ok_def kr_defs)
      note st = change_and_store(1) [where f = ?g and evt = BT_MESH_KEY_UPDATED, OF ks _ i(1) this]
      have "upd_sub i (\<lambda>sub. sub\<lparr>sub_kr_phase := BT_MESH_KR_PHASE_1\<rparr>) (upd_sub i ?f s) = upd_sub i ?g s"
        using i(1) by (simp add: upd_sub_def)
      with st Some Inr True sub i k show ?thesis
        by (simp add: bt_mesh_subnet_update_def key_refresh_def Let_def kr_defs)
    qed
  qed
qed (use s in \<open>simp add: bt_mesh_subnet_update_def\<close>)

lemma subnet_del_ok:
  assumes s: "keys_inv s" "i < length (subnets s)" "sub_net_idx (subnets s ! i) \<noteq> BT_MESH_KEY_UNUSED"
  shows "keys_inv (subnet_del cbs i s)" "length (subnets (subnet_del cbs i s)) = length (subnets s)"
    "\<And>j. j < length (subnets s) \<Longrightarrow> sub_net_idx (subnets (subnet_del cbs i s) ! j) =
       (if j = i then BT_MESH_KEY_UNUSED else sub_net_idx (subnets s ! j))"
proof -
  let ?k = "sub_net_idx (subnets s ! i)"
  have ks: "subnets_ok s" "inv s" "persist s {}" using s by (auto simp: keys_inv_def)
  note sub = slot_cases [OF ks(1) s(2,3)]
  let ?a = "key_request (False, ?k) True s"
  let ?b = "bt_mesh_net_loopback_clear ?k ?a"
  let ?c = "subnet_evt cbs i BT_MESH_KEY_DELETED ?b"
  let ?d = "upd_sub i (\<lambda>sub. unused_subnet) ?c"
  have del: "subnet_del cbs i s = ?d" by (simp add: subnet_del_def Let_def key_requests)
  have a: "persist ?a {(False, ?k)}" "cleared ?a (False, ?k)" using persist_clear [OF ks(3), of "(False, ?k)"] sub by auto
  have b: "persist ?b {(False, ?k)}" "cleared ?b (False, ?k)"
    using persist_ram [OF a(1), of ?b "{}"] cleared_ram [OF a(2), of ?b] ram_key_cong [of ?b ?a] by simp_all
  have "inv ?b" using ks(2) inv_apps [of ?b s] by simp
  note c = evt_ok [OF this b(1), where i = i and evt = BT_MESH_KEY_DELETED]
  have core: "same_core s ?b" by (simp add: same_core_def)
  note sc = same_core_trans [OF core c(1)]
  have il: "i < length (subnets ?c)" using same_core_length [OF sc] s(2) by simp
  have idx: "sub_net_idx (subnets ?c ! j) = sub_net_idx (subnets s ! j)" if "j < length (subnets s)" for j
    using same_core_nth(1) [OF sc that] .
  have d_idx: "sub_net_idx (subnets ?d ! j) = (if j = i then BT_MESH_KEY_UNUSED else sub_net_idx (subnets s ! j))"
    if "j < length (subnets s)" for j
    using that il idx by (simp add: nth_list_update unused_subnet_def)
  have "subnet_ok unused_subnet" by (simp add: subnet_ok_def unused_subnet_def zero_keys_def)
  then have ok: "subnets_ok ?d"
    using upd_sub_ok [OF same_core_ok [OF sc ks(1)] il, where f = "\<lambda>sub. unused_subnet"]
    by (simp add: unused_subnet_def)
  have "persist ?d {(False, ?k), (False, BT_MESH_KEY_UNUSED)}"
    by (rule persist_mono [OF persist_upd_sub [OF c(3) il, where f = "\<lambda>sub. unused_subnet"]])
      (use idx [OF s(2)] in \<open>auto simp: unused_subnet_def\<close>)
  then have p: "persist ?d {(False, ?k)}"
    using persist_unused [of ?d False "{(False, ?k)}"] by (simp add: insert_commute)
  have cl: "cleared ?d (False, ?k)" using cleared_ram [OF c(4) [OF b(2)], of ?d] by simp
  have ld: "length (subnets ?d) = length (subnets s)" using same_core_length [OF sc] by simp
  have "bt_mesh_subnet_get ?k ?d = None"
    unfolding bt_mesh_subnet_get_def find_idx_None_iff
  proof
    fix x assume "x \<in> set (subnets ?d)"
    then obtain j where j: "j < length (subnets s)" "x = subnets ?d ! j" using ld by (metis in_set_conv_nth)
    then show "sub_net_idx x \<noteq> ?k"
      using d_idx [OF j(1)] ks(1) s(2,3) unfolding subnets_ok_def idx_distinct_def by auto
  qed
  then have "ram_key ?d (False, ?k) = None" by (simp add: ram_key_def)
  from persist_cleared [OF p cl this] have "persist ?d {}" by simp
  moreover have "inv ?d" using c(2) inv_apps [of ?d ?c] by simp
  ultimately show "keys_inv (subnet_del cbs i s)" using ok by (simp add: keys_inv_def del)
  show "length (subnets (subnet_del cbs i s)) = length (subnets s)" using ld by (simp add: del)
  show "\<And>j. j < length (subnets s) \<Longrightarrow> sub_net_idx (subnets (subnet_del cbs i s) ! j) =
       (if j = i then BT_MESH_KEY_UNUSED else sub_net_idx (subnets s ! j))" using d_idx by (simp add: del)
qed

lemma bt_mesh_subnet_del_ok:
  assumes "keys_inv s" "net_idx \<noteq> BT_MESH_KEY_UNUSED"
  shows "keys_inv (snd (bt_mesh_subnet_del cbs net_idx s))"
  using assms subnet_del_ok(1) [OF assms(1)] get_slot [of net_idx s]
  by (auto simp: bt_mesh_subnet_del_def split: option.splits)

lemma keys_reset_fold:
  assumes "keys_inv s" "n \<le> length (subnets s)"
  defines "s' \<equiv> fold (\<lambda>i s. if sub_net_idx (subnets s ! i) \<noteq> BT_MESH_KEY_UNUSED then subnet_del cbs i s else s) [0..<n] s"
  shows "keys_inv s' \<and> length (subnets s') = length (subnets s) \<and>
    (\<forall>j < n. sub_net_idx (subnets s' ! j) = BT_MESH_KEY_UNUSED)"
  using assms(2) unfolding s'_def
proof (induction n)
  case (Suc n)
  let ?t = "fold (\<lambda>i s. if sub_net_idx (subnets s ! i) \<noteq> BT_MESH_KEY_UNUSED then subnet_del cbs i s else s) [0..<n] s"
  from Suc have t: "keys_inv ?t" "length (subnets ?t) = length (subnets s)"
    "\<forall>j < n. sub_net_idx (subnets ?t ! j) = BT_MESH_KEY_UNUSED" by auto
  then have n: "n < length (subnets ?t)" using Suc.prems by simp
  show ?case
  proof (cases "sub_net_idx (subnets ?t ! n) = BT_MESH_KEY_UNUSED")
    case True
    with t show ?thesis by (simp add: less_Suc_eq)
  next
    case False
    from subnet_del_ok [OF t(1) n False] t False n show ?thesis by (auto simp: less_Suc_eq)
  qed
qed (use assms(1) in simp)

lemma keys_reset_ok:
  assumes "keys_inv s"
  shows "keys_inv (bt_mesh_net_keys_reset cbs s)"
    "\<forall>sub \<in> set (subnets (bt_mesh_net_keys_reset cbs s)). sub_net_idx sub = BT_MESH_KEY_UNUSED"
  using keys_reset_fold [OF assms order_refl] by (auto simp: bt_mesh_net_keys_reset_def in_set_conv_nth)
end

end
