(* ===== verification/App_Keys.thy ===== *)
theory App_Keys
  imports Subnet
begin

text \<open>
  The application keys of subsys/bluetooth/mesh/app_keys.c: the array of keys, each bound to a subnet and
  refreshed with it, the handler that follows the subnet's key refresh, and the choice of the key that
  encrypts or decrypts a message. A key pointer is the index of its slot; \<open>acbs\<close> are the handlers
  registered with \<^verbatim>\<open>BT_MESH_APP_KEY_CB_DEFINE\<close>.

  The locale \<open>app_handlers\<close> states what app_keys.c needs of these handlers. In it, the handler of this module
  and the one of beacon.c are shown to meet the contract \<open>subnet_handlers\<close> of subnet.c, which gives the
  invariant of both key arrays and the agreement of memory and flash for every operation.
\<close>

type_synonym 'a app_cb = "u16 \<Rightarrow> u16 \<Rightarrow> bt_mesh_key_evt \<Rightarrow> 'a mesh_state_scheme \<Rightarrow> 'a mesh_state_scheme"

definition upd_app :: "nat \<Rightarrow> (bt_mesh_app_key \<Rightarrow> bt_mesh_app_key) \<Rightarrow> 'a mesh_state_scheme \<Rightarrow> 'a mesh_state_scheme" where
  "upd_app i f s = s\<lparr>apps := (apps s)[i := f (apps s ! i)]\<rparr>"

definition app_key_evt :: "'a app_cb list \<Rightarrow> nat \<Rightarrow> bt_mesh_key_evt \<Rightarrow> 'a mesh_state_scheme \<Rightarrow> 'a mesh_state_scheme" where
  "app_key_evt acbs i evt s = fold (\<lambda>cb s. cb (app_app_idx (apps s ! i)) (app_net_idx (apps s ! i)) evt s) acbs s"

definition app_key_alloc :: "u16 \<Rightarrow> 'a mesh_state_scheme \<Rightarrow> nat option" where
  "app_key_alloc app_idx s =
     (case find_idx (\<lambda>app. app_app_idx app = app_idx) (apps s) of
        Some i \<Rightarrow> Some i
      | None \<Rightarrow> find_idx (\<lambda>app. app_app_idx app = BT_MESH_KEY_UNUSED) (apps s))"

definition app_key_del :: "'a app_cb list \<Rightarrow> nat \<Rightarrow> 'a mesh_state_scheme \<Rightarrow> 'a mesh_state_scheme" where
  "app_key_del acbs i s =
     (let s = bt_mesh_clear_app_key (app_app_idx (apps s ! i)) s;
          s = app_key_evt acbs i BT_MESH_KEY_DELETED s in
      upd_app i (\<lambda>app. app\<lparr>app_net_idx := BT_MESH_KEY_UNUSED, app_app_idx := BT_MESH_KEY_UNUSED,
                   app_creds := [zero_app_cred, zero_app_cred]\<rparr>) s)"

definition app_key_revoke :: "'a app_cb list \<Rightarrow> nat \<Rightarrow> 'a mesh_state_scheme \<Rightarrow> 'a mesh_state_scheme" where
  "app_key_revoke acbs i s =
     (if \<not> app_updated (apps s ! i) then s
      else
        let s = upd_app i (\<lambda>app. app\<lparr>app_creds := [app_creds app ! 1, zero_app_cred], app_updated := False\<rparr>) s;
            s = bt_mesh_store_app_key (app_app_idx (apps s ! i)) s in
        app_key_evt acbs i BT_MESH_KEY_REVOKED s)"

section \<open>The operations of the configuration server\<close>

definition bt_mesh_app_key_add ::
    "tinycrypt \<Rightarrow> 'a app_cb list \<Rightarrow> u16 \<Rightarrow> u16 \<Rightarrow> bytes \<Rightarrow> 'a mesh_state_scheme \<Rightarrow> mesh_status \<times> 'a mesh_state_scheme" where
  "bt_mesh_app_key_add tc acbs app_idx net_idx key s =
     (if bt_mesh_subnet_get net_idx s = None then (STATUS_INVALID_NETKEY, s)
      else case app_key_alloc app_idx s of
             None \<Rightarrow> (STATUS_INSUFF_RESOURCES, s)
           | Some i \<Rightarrow>
               let app = apps s ! i in
               if app_app_idx app = app_idx then
                 (if app_net_idx app \<noteq> net_idx then (STATUS_INVALID_BINDING, s)
                  else if take 16 key \<noteq> cred_val (app_creds app ! 0) then (STATUS_IDX_ALREADY_STORED, s)
                  else (STATUS_SUCCESS, s))
               else (case bt_mesh_app_id tc key of
                       Inl _ \<Rightarrow> (STATUS_CANNOT_SET, s)
                     | Inr aid \<Rightarrow>
                         let s = upd_app i (\<lambda>app. app\<lparr>
                                   app_creds := (app_creds app)[0 := \<lparr>cred_id = aid, cred_val = take 16 key\<rparr>],
                                   app_net_idx := net_idx, app_app_idx := app_idx, app_updated := False\<rparr>) s;
                             s = bt_mesh_store_app_key (app_app_idx (apps s ! i)) s in
                         (STATUS_SUCCESS, app_key_evt acbs i BT_MESH_KEY_ADDED s)))"

definition bt_mesh_app_key_update ::
    "tinycrypt \<Rightarrow> 'a app_cb list \<Rightarrow> u16 \<Rightarrow> u16 \<Rightarrow> bytes \<Rightarrow> 'a mesh_state_scheme \<Rightarrow> mesh_status \<times> 'a mesh_state_scheme" where
  "bt_mesh_app_key_update tc acbs app_idx net_idx key s =
     (case app_get app_idx s of
        None \<Rightarrow> (STATUS_INVALID_APPKEY, s)
      | Some i \<Rightarrow>
          let app = apps s ! i in
          if net_idx \<noteq> BT_MESH_KEY_UNUSED \<and> app_net_idx app \<noteq> net_idx then (STATUS_INVALID_BINDING, s)
          else case bt_mesh_subnet_get (app_net_idx app) s of
                 None \<Rightarrow> (STATUS_INVALID_NETKEY, s)
               | Some j \<Rightarrow>
                   if sub_kr_phase (subnets s ! j) \<noteq> BT_MESH_KR_PHASE_1 then (STATUS_CANNOT_UPDATE, s)
                   else if app_updated app then
                     (if cred_val (app_creds app ! 1) \<noteq> take 16 key then (STATUS_IDX_ALREADY_STORED, s)
                      else (STATUS_SUCCESS, s))
                   else (case bt_mesh_app_id tc key of
                           Inl _ \<Rightarrow> (STATUS_CANNOT_UPDATE, s)
                         | Inr aid \<Rightarrow>
                             let s = upd_app i (\<lambda>app. app\<lparr>
                                       app_creds := (app_creds app)[1 := \<lparr>cred_id = aid, cred_val = take 16 key\<rparr>],
                                       app_updated := True\<rparr>) s;
                                 s = bt_mesh_store_app_key (app_app_idx (apps s ! i)) s in
                             (STATUS_SUCCESS, app_key_evt acbs i BT_MESH_KEY_UPDATED s)))"

definition bt_mesh_app_key_del ::
    "'a app_cb list \<Rightarrow> u16 \<Rightarrow> u16 \<Rightarrow> 'a mesh_state_scheme \<Rightarrow> mesh_status \<times> 'a mesh_state_scheme" where
  "bt_mesh_app_key_del acbs app_idx net_idx s =
     (if net_idx \<noteq> BT_MESH_KEY_UNUSED \<and> bt_mesh_subnet_get net_idx s = None then (STATUS_INVALID_NETKEY, s)
      else case app_get app_idx s of
             None \<Rightarrow> (STATUS_SUCCESS, s)
           | Some i \<Rightarrow>
               if net_idx \<noteq> BT_MESH_KEY_UNUSED \<and> net_idx \<noteq> app_net_idx (apps s ! i) then (STATUS_INVALID_BINDING, s)
               else (STATUS_SUCCESS, app_key_del acbs i s))"

text \<open>An error after the first \<^verbatim>\<open>memcpy\<close> leaves a slot that is still marked unused; its keys are not read.\<close>

definition bt_mesh_app_key_set ::
    "tinycrypt \<Rightarrow> u16 \<Rightarrow> u16 \<Rightarrow> bytes \<Rightarrow> bytes option \<Rightarrow> 'a mesh_state_scheme \<Rightarrow> errno option \<times> 'a mesh_state_scheme" where
  "bt_mesh_app_key_set tc app_idx net_idx old_key new_key s =
     (case app_key_alloc app_idx s of
        None \<Rightarrow> (Some ENOMEM, s)
      | Some i \<Rightarrow>
          if app_app_idx (apps s ! i) = app_idx then (None, s)
          else case bt_mesh_app_id tc old_key of
                 Inl _ \<Rightarrow> (Some EIO, s)
               | Inr id0 \<Rightarrow>
                   let s = upd_app i (\<lambda>app. app\<lparr>app_creds :=
                             (app_creds app)[0 := \<lparr>cred_id = id0, cred_val = take 16 old_key\<rparr>]\<rparr>) s;
                       fin = upd_app i (\<lambda>app. app\<lparr>app_net_idx := net_idx, app_app_idx := app_idx,
                               app_updated := new_key \<noteq> None\<rparr>) in
                   (case new_key of
                      None \<Rightarrow> (None, fin s)
                    | Some k \<Rightarrow>
                        (case bt_mesh_app_id tc k of
                           Inl _ \<Rightarrow> (Some EIO, s)
                         | Inr id1 \<Rightarrow>
                             (None, fin (upd_app i (\<lambda>app. app\<lparr>app_creds :=
                                (app_creds app)[1 := \<lparr>cred_id = id1, cred_val = take 16 k\<rparr>]\<rparr>) s)))))"

definition bt_mesh_app_key_exists :: "u16 \<Rightarrow> 'a mesh_state_scheme \<Rightarrow> bool" where
  "bt_mesh_app_key_exists app_idx s \<longleftrightarrow> (\<exists>app \<in> set (apps s). app_app_idx app = app_idx)"

definition bt_mesh_app_keys_get :: "u16 \<Rightarrow> nat \<Rightarrow> nat \<Rightarrow> 'a mesh_state_scheme \<Rightarrow> errno + u16 list" where
  "bt_mesh_app_keys_get net_idx mx skip s =
     idxs_get (map app_app_idx (filter (\<lambda>app. app_app_idx app \<noteq> BT_MESH_KEY_UNUSED \<and>
       (net_idx = BT_MESH_KEY_ANY \<or> app_net_idx app = net_idx)) (apps s))) mx skip"

section \<open>Choosing keys\<close>

text \<open>
  \<open>elem_find\<close> says whether an address is one of ours (access.c), \<open>cdb_dev_key\<close> is the device key that the
  configuration database has for an address (none when it is not compiled in). The result is the slot of the
  subnet, the key and its AID.
\<close>

definition bt_mesh_keys_resolve ::
    "(u16 \<Rightarrow> bool) \<Rightarrow> (u16 \<Rightarrow> bytes option) \<Rightarrow> bt_mesh_msg_ctx \<Rightarrow> 'a mesh_state_scheme \<Rightarrow>
     errno + (nat \<times> bytes \<times> u8)" where
  "bt_mesh_keys_resolve elem_find cdb_dev_key ctx s =
     (if BT_MESH_IS_DEV_KEY (ctx_app_idx ctx) then
        (case bt_mesh_subnet_get (ctx_net_idx ctx) s of
           None \<Rightarrow> Inl EINVAL
         | Some sub \<Rightarrow>
             if ctx_app_idx ctx = BT_MESH_KEY_DEV_REMOTE \<and> \<not> elem_find (ctx_addr ctx) then
               (case cdb_dev_key (ctx_addr ctx) of
                  None \<Rightarrow> Inl EINVAL
                | Some dev_key \<Rightarrow> Inr (sub, dev_key, 0))
             else Inr (sub, bm_dev_key s, 0))
      else
        (case app_get (ctx_app_idx ctx) s of
           None \<Rightarrow> Inl EINVAL
         | Some i \<Rightarrow>
             let app = apps s ! i in
             (case bt_mesh_subnet_get (app_net_idx app) s of
                None \<Rightarrow> Inl EINVAL
              | Some sub \<Rightarrow>
                  let cred = (if sub_kr_phase (subnets s ! sub) = BT_MESH_KR_PHASE_2 \<and> app_updated app
                              then app_creds app ! 1 else app_creds app ! 0) in
                  Inr (sub, cred_val cred, cred_id cred))))"

text \<open>
  The loop of \<^verbatim>\<open>bt_mesh_app_key_find\<close>. \<open>cb\<close> tries a key; \<open>Some r\<close> is its success (a return value of 0)
  with what it decrypted.
\<close>

primrec app_key_try ::
    "u8 \<Rightarrow> bool \<Rightarrow> u16 \<Rightarrow> (bytes \<Rightarrow> 'b option) \<Rightarrow> bt_mesh_app_key list \<Rightarrow> (u16 \<times> 'b) option" where
  "app_key_try aid new_key net_idx cb [] = None"
| "app_key_try aid new_key net_idx cb (app # as) =
     (let cred = (if new_key \<and> app_updated app then app_creds app ! 1 else app_creds app ! 0) in
      if app_app_idx app = BT_MESH_KEY_UNUSED \<or> app_net_idx app \<noteq> net_idx \<or> cred_id cred \<noteq> aid
      then app_key_try aid new_key net_idx cb as
      else case cb (cred_val cred) of
             None \<Rightarrow> app_key_try aid new_key net_idx cb as
           | Some r \<Rightarrow> Some (app_app_idx app, r))"

definition bt_mesh_app_key_find ::
    "(u16 \<Rightarrow> bytes option) \<Rightarrow> bool \<Rightarrow> u8 \<Rightarrow> bt_mesh_net_rx \<Rightarrow> (bytes \<Rightarrow> 'b option) \<Rightarrow> 'a mesh_state_scheme \<Rightarrow>
     (u16 \<times> 'b) option" where
  "bt_mesh_app_key_find cdb_dev_key dev_key aid rx cb s =
     (if dev_key then
        (case (if rx_net_if rx \<noteq> BT_MESH_NET_IF_LOCAL
               then Option.bind (cdb_dev_key (ctx_addr (rx_ctx rx))) cb else None) of
           Some r \<Rightarrow> Some (BT_MESH_KEY_DEV_REMOTE, r)
         | None \<Rightarrow>
             if BT_MESH_ADDR_IS_UNICAST (ctx_recv_dst (rx_ctx rx))
             then map_option (Pair BT_MESH_KEY_DEV_LOCAL) (cb (bm_dev_key s)) else None)
      else app_key_try aid (rx_new_key rx) (sub_net_idx (subnets s ! the (rx_sub rx))) cb (apps s))"

section \<open>Following the subnet\<close>

definition app_subnet_step ::
    "'a app_cb list \<Rightarrow> nat \<Rightarrow> bt_mesh_key_evt \<Rightarrow> nat \<Rightarrow> 'a mesh_state_scheme \<Rightarrow> 'a mesh_state_scheme" where
  "app_subnet_step acbs sub evt i s =
     (let app = apps s ! i in
      if app_app_idx app = BT_MESH_KEY_UNUSED then s
      else if app_net_idx app \<noteq> sub_net_idx (subnets s ! sub) then s
      else if evt = BT_MESH_KEY_DELETED then app_key_del acbs i s
      else if evt = BT_MESH_KEY_REVOKED then app_key_revoke acbs i s
      else if evt = BT_MESH_KEY_SWAPPED \<and> app_updated app then app_key_evt acbs i BT_MESH_KEY_SWAPPED s
      else s)"

definition app_subnet_evt :: "'a app_cb list \<Rightarrow> 'a subnet_cb" where
  "app_subnet_evt acbs sub evt s =
     (if evt = BT_MESH_KEY_UPDATED \<or> evt = BT_MESH_KEY_ADDED then s
      else fold (app_subnet_step acbs sub evt) [0..<length (apps s)] s)"

definition bt_mesh_app_keys_reset :: "'a app_cb list \<Rightarrow> 'a mesh_state_scheme \<Rightarrow> 'a mesh_state_scheme" where
  "bt_mesh_app_keys_reset acbs s =
     fold (\<lambda>i s. if app_app_idx (apps s ! i) \<noteq> BT_MESH_KEY_UNUSED then app_key_del acbs i s else s)
       [0..<length (apps s)] s"

text \<open>The handler of beacon.c.\<close>

definition beacon_subnet_evt :: "tinycrypt \<Rightarrow> 'a subnet_cb" where
  "beacon_subnet_evt tc sub evt s = (if evt \<noteq> BT_MESH_KEY_DELETED then bt_mesh_beacon_update tc sub s else s)"

section \<open>The invariant of the application keys\<close>

definition app_ok :: "bt_mesh_app_key \<Rightarrow> bool" where
  "app_ok app \<longleftrightarrow> length (app_creds app) = 2 \<and>
     (app_app_idx app \<noteq> BT_MESH_KEY_UNUSED \<longrightarrow> app_app_idx app < 2 ^ 12)"

definition apps_ok :: "'a mesh_state_scheme \<Rightarrow> bool" where
  "apps_ok s \<longleftrightarrow> list_all app_ok (apps s) \<and> idx_distinct (map app_app_idx (apps s))"

lemma upd_app_simps [simp]:
  "subnets (upd_app i f s) = subnets s" "key_updates (upd_app i f s) = key_updates s" "flash (upd_app i f s) = flash s"
  "apps (upd_app i f s) = (apps s)[i := f (apps s ! i)]"
  by (simp_all add: upd_app_def)

lemma upd_app_ok:
  assumes "apps_ok s" "i < length (apps s)" "app_ok (f (apps s ! i))"
    and "app_app_idx (f (apps s ! i)) = app_app_idx (apps s ! i) \<or>
         app_app_idx (f (apps s ! i)) = BT_MESH_KEY_UNUSED \<or>
         (\<forall>app \<in> set (apps s). app_app_idx app \<noteq> app_app_idx (f (apps s ! i)))"
  shows "apps_ok (upd_app i f s)"
proof -
  have "list_all app_ok ((apps s)[i := f (apps s ! i)])"
    using assms by (simp add: apps_ok_def list_all_updateI)
  moreover have "idx_distinct (map app_app_idx ((apps s)[i := f (apps s ! i)]))"
    unfolding idx_distinct_def
  proof (intro allI impI)
    fix p q assume p: "p < length (map app_app_idx ((apps s)[i := f (apps s ! i)]))"
      "q < length (map app_app_idx ((apps s)[i := f (apps s ! i)]))"
      and eq: "map app_app_idx ((apps s)[i := f (apps s ! i)]) ! p = map app_app_idx ((apps s)[i := f (apps s ! i)]) ! q"
      and u: "map app_app_idx ((apps s)[i := f (apps s ! i)]) ! p \<noteq> BT_MESH_KEY_UNUSED"
    from assms(1) have d: "p = q" if "app_app_idx (apps s ! p) = app_app_idx (apps s ! q)"
      "app_app_idx (apps s ! p) \<noteq> BT_MESH_KEY_UNUSED"
      using that p unfolding apps_ok_def idx_distinct_def by simp
    have "apps s ! p \<in> set (apps s)" "apps s ! q \<in> set (apps s)" using p by simp_all
    then show "p = q"
      using eq u p d assms(2,4) by (cases "p = i"; cases "q = i") auto
  qed
  ultimately show ?thesis by (simp add: apps_ok_def)
qed

lemma persist_upd_app:
  assumes "persist s D" "i < length (apps s)"
  shows "persist (upd_app i f s) (D \<union> {(True, app_app_idx (apps s ! i)), (True, app_app_idx (f (apps s ! i)))})"
  by (rule persist_ram [OF assms(1)]) (use assms(2) ram_key_app [of i s "upd_app i f s" "f (apps s ! i)"] in auto)

lemma app_slot:
  assumes "apps_ok s" "i < length (apps s)" "app_app_idx (apps s ! i) \<noteq> BT_MESH_KEY_UNUSED"
  shows "length (app_creds (apps s ! i)) = 2" "app_app_idx (apps s ! i) < 2 ^ 12" "app_ok (apps s ! i)"
  using assms by (auto simp: apps_ok_def list_all_length app_ok_def)

lemma app_get_slot:
  assumes "app_get app_idx s = Some i"
  shows "i < length (apps s)" "app_app_idx (apps s ! i) = app_idx"
  using find_idx_SomeD [OF assms [unfolded app_get_def]] by auto

lemma apps_ok_cong: "apps s = apps s' \<Longrightarrow> apps_ok s = apps_ok s'"
  by (simp add: apps_ok_def)

text \<open>A slot of memory is in flash once its index is stored.\<close>

lemma ram_app_Some: "i < length (apps s) \<Longrightarrow> ram_key s (True, app_app_idx (apps s ! i)) \<noteq> None"
  by (auto simp: ram_key_def app_get_def find_idx_None_iff)

section \<open>The contract of the handlers of application keys\<close>

locale app_handlers =
  fixes acbs :: "'a app_cb list"
  assumes acb_keeps: "cb \<in> set acbs \<Longrightarrow> subnets (cb a n evt s) = subnets s \<and> apps (cb a n evt s) = apps s \<and>
    key_updates (cb a n evt s) = key_updates s \<and> flash (cb a n evt s) = flash s"
begin

lemma app_evt_keeps [simp]:
  "subnets (app_key_evt acbs i evt s) = subnets s" "apps (app_key_evt acbs i evt s) = apps s"
  "key_updates (app_key_evt acbs i evt s) = key_updates s" "flash (app_key_evt acbs i evt s) = flash s"
proof -
  have "subnets (fold (\<lambda>cb s. cb (app_app_idx (apps s ! i)) (app_net_idx (apps s ! i)) evt s) l s) = subnets s \<and>
    apps (fold (\<lambda>cb s. cb (app_app_idx (apps s ! i)) (app_net_idx (apps s ! i)) evt s) l s) = apps s \<and>
    key_updates (fold (\<lambda>cb s. cb (app_app_idx (apps s ! i)) (app_net_idx (apps s ! i)) evt s) l s) = key_updates s \<and>
    flash (fold (\<lambda>cb s. cb (app_app_idx (apps s ! i)) (app_net_idx (apps s ! i)) evt s) l s) = flash s"
    if "set l \<subseteq> set acbs" for l
    using that by (induction l arbitrary: s) (auto simp: acb_keeps)
  from this [of acbs] show "subnets (app_key_evt acbs i evt s) = subnets s" "apps (app_key_evt acbs i evt s) = apps s"
    "key_updates (app_key_evt acbs i evt s) = key_updates s" "flash (app_key_evt acbs i evt s) = flash s"
    by (simp_all add: app_key_evt_def)
qed

lemma app_evt_persist: "persist (app_key_evt acbs i evt s) D \<longleftrightarrow> persist s D"
  using persist_ram [of s D "app_key_evt acbs i evt s" "{}"] persist_ram [of "app_key_evt acbs i evt s" D s "{}"]
    ram_key_cong [of "app_key_evt acbs i evt s" s] by auto

text \<open>What an operation on the application keys may change.\<close>

definition app_step_ok :: "'a mesh_state_scheme \<Rightarrow> 'a mesh_state_scheme \<Rightarrow> bool" where
  "app_step_ok s s' \<longleftrightarrow> subnets s' = subnets s \<and> length (apps s') = length (apps s) \<and> apps_ok s' \<and>
     (\<forall>D. persist s D \<longrightarrow> persist s' D) \<and>
     (\<forall>D k. persist s D \<longrightarrow> cleared s (False, k) \<longrightarrow> cleared s' (False, k))"

lemma app_step_refl: "apps_ok s \<Longrightarrow> app_step_ok s s"
  by (simp add: app_step_ok_def)

lemma app_step_trans: "app_step_ok s s' \<Longrightarrow> app_step_ok s' s'' \<Longrightarrow> app_step_ok s s''"
  unfolding app_step_ok_def by metis

lemma app_step_evt: "app_step_ok s s' \<Longrightarrow> app_step_ok s (app_key_evt acbs i evt s')"
  unfolding app_step_ok_def app_evt_persist
  using cleared_ram [of s' _ "app_key_evt acbs i evt s'"] apps_ok_cong [of "app_key_evt acbs i evt s'" s'] by auto

lemma app_change_store:
  assumes s: "apps_ok s" "i < length (apps s)"
    and f: "app_ok (f (apps s ! i))" "app_app_idx (f (apps s ! i)) = k" "k < 2 ^ 12"
      "app_app_idx (apps s ! i) = k \<or> app_app_idx (apps s ! i) = BT_MESH_KEY_UNUSED \<and>
         (\<forall>app \<in> set (apps s). app_app_idx app \<noteq> k)"
  shows "app_step_ok s (bt_mesh_store_app_key k (upd_app i f s))"
proof -
  let ?u = "upd_app i f s" and ?k = "(True, k)"
  have ok: "apps_ok ?u" by (rule upd_app_ok [OF s, where f = f]) (use f in auto)
  have ram: "ram_key ?u ?k \<noteq> None" using ram_app_Some [of i ?u] s(2) f(2) by simp
  have P: "persist (key_request ?k False ?u) D" "persist ?u (insert ?k D)" if D: "persist s D" for D
  proof -
    have "persist ?u (insert (True, BT_MESH_KEY_UNUSED) (insert ?k D))"
      by (rule persist_mono [OF persist_upd_app [OF D s(2), of f]]) (use f in auto)
    then show p: "persist ?u (insert ?k D)" by (simp add: persist_unused)
    show "persist (key_request ?k False ?u) D"
      by (rule persist_mono [OF persist_store [OF p _ ram]]) (use f in auto)
  qed
  have "cleared (key_request ?k False ?u) (False, j)" if D: "persist s D" and c: "cleared s (False, j)" for D j
    by (rule cleared_keep [OF P(2) [OF D] _ cleared_ram [OF c]]) (use f in simp_all)
  with P ok show ?thesis unfolding app_step_ok_def key_requests by (auto simp: apps_ok_def)
qed

lemma app_del_ok:
  assumes s: "apps_ok s" "i < length (apps s)" "app_app_idx (apps s ! i) \<noteq> BT_MESH_KEY_UNUSED"
  shows "app_step_ok s (app_key_del acbs i s)"
    "\<And>j. j < length (apps s) \<Longrightarrow> app_app_idx (apps (app_key_del acbs i s) ! j) =
       (if j = i then BT_MESH_KEY_UNUSED else app_app_idx (apps s ! j))"
proof -
  let ?k = "(True, app_app_idx (apps s ! i))"
  let ?a = "key_request ?k True s"
  let ?b = "app_key_evt acbs i BT_MESH_KEY_DELETED ?a"
  let ?f = "\<lambda>app. app\<lparr>app_net_idx := BT_MESH_KEY_UNUSED, app_app_idx := BT_MESH_KEY_UNUSED,
                   app_creds := [zero_app_cred, zero_app_cred]\<rparr>"
  let ?c = "upd_app i ?f ?b"
  have del: "app_key_del acbs i s = ?c" by (simp add: app_key_del_def Let_def key_requests)
  note sl = app_slot [OF s]
  have ib: "i < length (apps ?b)" "apps ?b = apps s" using s(2) by simp_all
  have "apps_ok ?b" using s(1) apps_ok_cong [OF ib(2)] by simp
  then have ok: "apps_ok ?c" using upd_app_ok [OF _ ib(1), where f = ?f] by (simp add: app_ok_def)
  have idx: "app_app_idx (apps ?c ! j) = (if j = i then BT_MESH_KEY_UNUSED else app_app_idx (apps s ! j))"
    if "j < length (apps s)" for j using that s(2) by (simp add: nth_list_update)
  have "app_get (app_app_idx (apps s ! i)) ?c = None"
    unfolding app_get_def find_idx_None_iff
  proof
    fix x assume "x \<in> set (apps ?c)"
    then obtain j where j: "j < length (apps ?c)" "x = apps ?c ! j" by (metis in_set_conv_nth)
    then have "j < length (apps s)" by simp
    then show "app_app_idx x \<noteq> app_app_idx (apps s ! i)"
      using idx [of j] j(2) s unfolding apps_ok_def idx_distinct_def by auto
  qed
  then have ram: "ram_key ?c ?k = None" by (simp add: ram_key_def)
  have P: "persist ?a (insert ?k D)" "persist ?c D" if D: "persist s D" for D
  proof -
    from persist_clear [OF D, of ?k] sl have a: "persist ?a (insert ?k D)" "cleared ?a ?k" by auto
    show "persist ?a (insert ?k D)" by (rule a)
    then have "persist ?b (insert ?k D)" by (simp add: app_evt_persist)
    from persist_upd_app [OF this ib(1), of ?f]
    have "persist ?c (insert (True, BT_MESH_KEY_UNUSED) (insert ?k D))"
      by (rule persist_mono) auto
    then have "persist ?c (insert ?k D)" by (simp add: persist_unused)
    from persist_cleared [OF this _ ram] cleared_ram [OF a(2), of ?c] have "persist ?c (insert ?k D - {?k})" by simp
    then show "persist ?c D" by (rule persist_mono) auto
  qed
  have "cleared ?c (False, j)" if D: "persist s D" and c: "cleared s (False, j)" for D j
  proof -
    have "cleared ?a (False, j)" using cleared_keep [OF D _ c, of ?k True] sl by simp
    then show ?thesis by (rule cleared_ram) simp_all
  qed
  with P ok show "app_step_ok s (app_key_del acbs i s)" by (auto simp: app_step_ok_def del)
  show "\<And>j. j < length (apps s) \<Longrightarrow> app_app_idx (apps (app_key_del acbs i s) ! j) =
       (if j = i then BT_MESH_KEY_UNUSED else app_app_idx (apps s ! j))" using idx by (simp add: del)
qed

lemma app_revoke_ok:
  assumes "apps_ok s" "i < length (apps s)" "app_app_idx (apps s ! i) \<noteq> BT_MESH_KEY_UNUSED"
  shows "app_step_ok s (app_key_revoke acbs i s)"
proof (cases "app_updated (apps s ! i)")
  case True
  let ?f = "\<lambda>app. app\<lparr>app_creds := [app_creds app ! 1, zero_app_cred], app_updated := False\<rparr>"
  have "app_step_ok s (bt_mesh_store_app_key (app_app_idx (apps s ! i)) (upd_app i ?f s))"
    by (rule app_change_store [OF assms(1,2), where f = ?f]) (use app_slot [OF assms] in \<open>auto simp: app_ok_def\<close>)
  from app_step_evt [OF this] True assms(2) show ?thesis by (simp add: app_key_revoke_def Let_def)
qed (use assms in \<open>simp add: app_key_revoke_def app_step_refl\<close>)

lemma app_subnet_step_ok:
  assumes "apps_ok s" "i < length (apps s)"
  shows "app_step_ok s (app_subnet_step acbs sub evt i s)"
  using app_del_ok(1) [OF assms] app_revoke_ok [OF assms] app_step_refl [OF assms(1)]
    app_step_evt [OF app_step_refl [OF assms(1)]]
  by (simp add: app_subnet_step_def Let_def)

lemma app_steps_ok:
  assumes "apps_ok s" and step: "\<And>i s. apps_ok s \<Longrightarrow> i < length (apps s) \<Longrightarrow> app_step_ok s (g i s)"
    and "n \<le> length (apps s)"
  shows "app_step_ok s (fold g [0..<n] s)"
  using assms(3)
proof (induction n)
  case (Suc n)
  then have t: "app_step_ok s (fold g [0..<n] s)" by simp
  then have "apps_ok (fold g [0..<n] s)" "n < length (apps (fold g [0..<n] s))"
    using Suc.prems by (auto simp: app_step_ok_def)
  from app_step_trans [OF t step [OF this]] show ?case by simp
qed (simp add: app_step_refl assms(1))

lemma app_subnet_evt_ok: "apps_ok s \<Longrightarrow> app_step_ok s (app_subnet_evt acbs sub evt s)"
  using app_steps_ok [of s "app_subnet_step acbs sub evt", OF _ app_subnet_step_ok] app_step_refl
  by (simp add: app_subnet_evt_def)

lemma app_subnet_evt_subnets: "subnets (app_subnet_evt acbs sub evt s) = subnets s"
proof -
  have "subnets (app_subnet_step acbs sub evt i s) = subnets s" for i s
    by (simp add: app_subnet_step_def app_key_del_def app_key_revoke_def Let_def key_requests)
  then have "subnets (fold (app_subnet_step acbs sub evt) l s) = subnets s" for l
    by (induction l arbitrary: s) simp_all
  then show ?thesis by (simp add: app_subnet_evt_def)
qed

end

lemma beacon_update_keeps:
  "apps (bt_mesh_beacon_update tc i s) = apps s" "key_updates (bt_mesh_beacon_update tc i s) = key_updates s"
  "flash (bt_mesh_beacon_update tc i s) = flash s" "same_core s (bt_mesh_beacon_update tc i s)"
proof -
  show "apps (bt_mesh_beacon_update tc i s) = apps s" "key_updates (bt_mesh_beacon_update tc i s) = key_updates s"
    "flash (bt_mesh_beacon_update tc i s) = flash s"
    by (simp_all add: bt_mesh_beacon_update_def Let_def split: sum.splits)
  have "map sub_core ((subnets s)[i := (subnets s ! i)\<lparr>sub_auth := a\<rparr>]) = map sub_core (subnets s)" for a
    by (cases "i < length (subnets s)")
      (auto simp: map_update sub_core_def intro!: nth_equalityI simp: nth_list_update)
  then show "same_core s (bt_mesh_beacon_update tc i s)"
    by (simp add: bt_mesh_beacon_update_def Let_def same_core_def split: sum.splits)
qed

lemma beacon_evt_keeps:
  "apps (beacon_subnet_evt tc i evt s) = apps s" "key_updates (beacon_subnet_evt tc i evt s) = key_updates s"
  "flash (beacon_subnet_evt tc i evt s) = flash s" "same_core s (beacon_subnet_evt tc i evt s)"
  by (simp_all add: beacon_subnet_evt_def beacon_update_keeps)

sublocale app_handlers \<subseteq> sub: subnet_handlers "[app_subnet_evt acbs, beacon_subnet_evt tc]" apps_ok for tc
proof
  let ?l = "[app_subnet_evt acbs, beacon_subnet_evt tc]"
  fix s s' :: "'a mesh_state_scheme" and cb :: "'a subnet_cb" and i evt D k
  show "apps_ok s = apps_ok s'" if "apps s = apps s'" using that by (rule apps_ok_cong)
  show "same_core s (cb i evt s)" if "cb \<in> set ?l"
    using that app_subnet_evt_subnets beacon_evt_keeps(4) by (auto simp: same_core_def)
  have b: "persist (beacon_subnet_evt tc i evt s) D" if "persist s D"
    using persist_ram [OF that, of "beacon_subnet_evt tc i evt s" "{}"]
      same_core_ram [OF beacon_evt_keeps(4) beacon_evt_keeps(1), of tc i evt s] by (simp add: beacon_evt_keeps)
  show "apps_ok (cb i evt s) \<and> persist (cb i evt s) D" if "cb \<in> set ?l" "apps_ok s" "persist s D"
    using that app_subnet_evt_ok [OF that(2), of i evt] b apps_ok_cong [OF beacon_evt_keeps(1), of tc i evt s]
    by (auto simp: app_step_ok_def)
  show "cleared (cb i evt s) (False, k)" if "cb \<in> set ?l" "apps_ok s" "persist s D" "cleared s (False, k)"
    using that app_subnet_evt_ok [OF that(2), of i evt] cleared_ram [OF that(4) beacon_evt_keeps(2,3)]
    by (auto simp: app_step_ok_def)
qed


section \<open>Both key arrays together\<close>

text \<open>The registered handlers that touch the state of this development.\<close>

definition subnet_cbs :: "tinycrypt \<Rightarrow> 'a app_cb list \<Rightarrow> 'a subnet_cb list" where
  "subnet_cbs tc acbs = [app_subnet_evt acbs, beacon_subnet_evt tc]"

text \<open>
  Every application key in use is bound to a subnet in use, and has a second key only while that subnet is
  being refreshed.
\<close>

definition bound_to :: "bt_mesh_app_key \<Rightarrow> bt_mesh_subnet \<Rightarrow> bool" where
  "bound_to app sub \<longleftrightarrow> sub_net_idx sub = app_net_idx app \<and> sub_net_idx sub \<noteq> BT_MESH_KEY_UNUSED \<and>
     (app_updated app \<longrightarrow> sub_kr_phase sub \<noteq> BT_MESH_KR_NORMAL)"

definition bind_ok :: "'a mesh_state_scheme \<Rightarrow> bool" where
  "bind_ok s \<longleftrightarrow> (\<forall>app \<in> set (apps s). app_app_idx app \<noteq> BT_MESH_KEY_UNUSED \<longrightarrow>
     (\<exists>sub \<in> set (subnets s). bound_to app sub))"

definition keys_ok :: "'a mesh_state_scheme \<Rightarrow> bool" where
  "keys_ok s \<longleftrightarrow> subnets_ok s \<and> apps_ok s \<and> persist s {} \<and> bind_ok s"

text \<open>What the handler of this module does to one key.\<close>

definition app_follow :: "u16 \<Rightarrow> bt_mesh_key_evt \<Rightarrow> bt_mesh_app_key \<Rightarrow> bt_mesh_app_key" where
  "app_follow net_idx evt app =
     (if app_app_idx app = BT_MESH_KEY_UNUSED \<or> app_net_idx app \<noteq> net_idx then app
      else if evt = BT_MESH_KEY_DELETED then
        app\<lparr>app_net_idx := BT_MESH_KEY_UNUSED, app_app_idx := BT_MESH_KEY_UNUSED,
            app_creds := [zero_app_cred, zero_app_cred]\<rparr>
      else if evt = BT_MESH_KEY_REVOKED \<and> app_updated app then
        app\<lparr>app_creds := [app_creds app ! 1, zero_app_cred], app_updated := False\<rparr>
      else app)"

lemma app_follow_same: "app_follow k BT_MESH_KEY_UPDATED = id" "app_follow k BT_MESH_KEY_ADDED = id"
  by (simp_all add: fun_eq_iff app_follow_def)

lemma kr_distinct:
  "BT_MESH_KR_PHASE_1 \<noteq> BT_MESH_KR_NORMAL" "BT_MESH_KR_PHASE_2 \<noteq> BT_MESH_KR_NORMAL"
  by (simp_all add: kr_defs)

lemma key_refresh_phases:
  "key_refresh cbs i BT_MESH_KR_PHASE_1 s =
     (let s = subnet_evt cbs i BT_MESH_KEY_UPDATED (upd_sub i (\<lambda>sub. sub\<lparr>sub_kr_phase := BT_MESH_KR_PHASE_1\<rparr>) s) in
      bt_mesh_store_subnet (sub_net_idx (subnets s ! i)) s)"
  "key_refresh cbs i BT_MESH_KR_PHASE_2 s =
     (let s = subnet_evt cbs i BT_MESH_KEY_SWAPPED (upd_sub i (\<lambda>sub. sub\<lparr>sub_kr_phase := BT_MESH_KR_PHASE_2\<rparr>) s) in
      bt_mesh_store_subnet (sub_net_idx (subnets s ! i)) s)"
  "key_refresh cbs i BT_MESH_KR_PHASE_3 s =
     (if sub_kr_phase (subnets s ! i) = BT_MESH_KR_NORMAL then s else
      let s = subnet_evt cbs i BT_MESH_KEY_REVOKED (upd_sub i key_revoke s) in
      bt_mesh_store_subnet (sub_net_idx (subnets s ! i)) s)"
  by (simp_all add: key_refresh_def kr_defs)

lemma app_alloc_new:
  assumes "app_key_alloc app_idx s = Some i" "app_app_idx (apps s ! i) \<noteq> app_idx"
  shows "i < length (apps s)" "app_app_idx (apps s ! i) = BT_MESH_KEY_UNUSED"
    "\<forall>app \<in> set (apps s). app_app_idx app \<noteq> app_idx"
  using assms by (auto simp: app_key_alloc_def find_idx_None_iff dest: find_idx_SomeD split: option.splits)

context app_handlers
begin

lemma app_subnet_step_apps:
  assumes "i < length (apps s)"
  shows "apps (app_subnet_step acbs sub evt i s) =
    (apps s)[i := app_follow (sub_net_idx (subnets s ! sub)) evt (apps s ! i)]"
  using assms by (auto simp: app_subnet_step_def app_follow_def app_key_del_def app_key_revoke_def Let_def key_requests)

lemma app_subnet_step_subnets: "subnets (app_subnet_step acbs sub evt i s) = subnets s"
  by (simp add: app_subnet_step_def app_key_del_def app_key_revoke_def Let_def key_requests)

lemma app_subnet_fold:
  "n \<le> length (apps s) \<Longrightarrow>
   apps (fold (app_subnet_step acbs sub evt) [0..<n] s) =
     map (app_follow (sub_net_idx (subnets s ! sub)) evt) (take n (apps s)) @ drop n (apps s) \<and>
   subnets (fold (app_subnet_step acbs sub evt) [0..<n] s) = subnets s"
proof (induction n)
  case (Suc n)
  let ?t = "fold (app_subnet_step acbs sub evt) [0..<n] s"
  from Suc have t: "apps ?t = map (app_follow (sub_net_idx (subnets s ! sub)) evt) (take n (apps s)) @ drop n (apps s)"
    "subnets ?t = subnets s" by auto
  then have n: "n < length (apps ?t)" "apps ?t ! n = apps s ! n" using Suc.prems by (simp_all add: nth_append)
  have upd: "(map g (take n xs) @ drop n xs)[n := g (xs ! n)] = map g (take (Suc n) xs) @ drop (Suc n) xs"
    if "n < length xs" for g and xs :: "bt_mesh_app_key list"
    using that by (simp add: list_update_append take_Suc_conv_app_nth Cons_nth_drop_Suc [symmetric])
  show ?case using Suc.prems upd [of "apps s" "app_follow (sub_net_idx (subnets s ! sub)) evt"]
    by (simp only: upt_Suc_append fold_append fold_simps comp_apply
        app_subnet_step_apps [OF n(1)] app_subnet_step_subnets n(2)) (simp add: t)
qed simp

lemma app_subnet_evt_apps:
  "apps (app_subnet_evt acbs sub evt s) = map (app_follow (sub_net_idx (subnets s ! sub)) evt) (apps s)"
  using app_subnet_fold [of "length (apps s)" s sub evt] by (simp add: app_subnet_evt_def app_follow_same)

lemma subnet_evt_apps:
  "apps (subnet_evt (subnet_cbs tc acbs) i evt s) = map (app_follow (sub_net_idx (subnets s ! i)) evt) (apps s)"
  by (simp add: subnet_evt_def subnet_cbs_def beacon_evt_keeps app_subnet_evt_apps)

lemma subnet_evt_core: "same_core s (subnet_evt (subnet_cbs tc acbs) i evt s)"
  by (simp add: subnet_evt_def subnet_cbs_def same_core_def beacon_evt_keeps(4) [unfolded same_core_def]
      app_subnet_evt_subnets)

lemma keys_inv_eq: "sub.keys_inv s \<longleftrightarrow> subnets_ok s \<and> apps_ok s \<and> persist s {}"
  by (simp add: sub.keys_inv_def)

lemma bound_to_core:
  assumes "same_core s s'" "j < length (subnets s)"
  shows "bound_to app (subnets s' ! j) = bound_to app (subnets s ! j)"
  using same_core_nth [OF assms] by (simp add: bound_to_def)

text \<open>How \<open>bind_ok\<close> survives a change of one subnet and of the keys bound to it.\<close>

lemma bind_change:
  assumes "bind_ok s" and i: "i < length (subnets s)" and core: "same_core (upd_sub i f s) s'"
    and apps: "\<And>app. app \<in> set (apps s') \<Longrightarrow> app_app_idx app \<noteq> BT_MESH_KEY_UNUSED \<Longrightarrow>
      \<exists>app' \<in> set (apps s). app_app_idx app' \<noteq> BT_MESH_KEY_UNUSED \<and> app_net_idx app' = app_net_idx app \<and>
        (app_updated app \<longrightarrow> app_updated app')"
    and slot: "\<And>app. app \<in> set (apps s') \<Longrightarrow> app_app_idx app \<noteq> BT_MESH_KEY_UNUSED \<Longrightarrow>
      bound_to app (subnets s ! i) \<Longrightarrow> bound_to app (f (subnets s ! i))"
  shows "bind_ok s'"
  unfolding bind_ok_def
proof (intro ballI impI)
  fix app assume app: "app \<in> set (apps s')" "app_app_idx app \<noteq> BT_MESH_KEY_UNUSED"
  from apps [OF this] obtain app' where a: "app' \<in> set (apps s)" "app_app_idx app' \<noteq> BT_MESH_KEY_UNUSED"
    "app_net_idx app' = app_net_idx app" "app_updated app \<longrightarrow> app_updated app'" by blast
  with assms(1) obtain sub where "sub \<in> set (subnets s)" "bound_to app' sub" unfolding bind_ok_def by blast
  then obtain j where j: "j < length (subnets s)" "bound_to app' (subnets s ! j)" by (metis in_set_conv_nth)
  from j(2) a have "bound_to app (subnets s ! j)" by (auto simp: bound_to_def)
  then have "bound_to app (subnets (upd_sub i f s) ! j)"
    using slot [OF app] j(1) by (cases "j = i") simp_all
  then have b: "bound_to app (subnets s' ! j)" using bound_to_core [OF core] j(1) by simp
  have "j < length (subnets s')" using same_core_length [OF core] j(1) by simp
  with b show "\<exists>sub \<in> set (subnets s'). bound_to app sub" by (meson nth_mem)
qed

lemma app_follow_old:
  assumes "app \<in> set (map (app_follow k evt) l)" "app_app_idx app \<noteq> BT_MESH_KEY_UNUSED"
  shows "\<exists>app' \<in> set l. app_app_idx app' \<noteq> BT_MESH_KEY_UNUSED \<and> app_net_idx app' = app_net_idx app \<and>
        (app_updated app \<longrightarrow> app_updated app') \<and> app = app_follow k evt app'"
proof -
  from assms(1) obtain x where x: "x \<in> set l" "app = app_follow k evt x" by auto
  have "app_app_idx (app_follow k evt x) \<noteq> BT_MESH_KEY_UNUSED \<Longrightarrow> app_app_idx x \<noteq> BT_MESH_KEY_UNUSED \<and>
      app_net_idx x = app_net_idx (app_follow k evt x) \<and> (app_updated (app_follow k evt x) \<longrightarrow> app_updated x)"
    by (simp add: app_follow_def split: if_splits)
  with x assms(2) show ?thesis by blast
qed

lemma app_follow_deleted:
  "app_app_idx x \<noteq> BT_MESH_KEY_UNUSED \<Longrightarrow> app_net_idx x = k \<Longrightarrow>
   app_app_idx (app_follow k BT_MESH_KEY_DELETED x) = BT_MESH_KEY_UNUSED"
  by (simp add: app_follow_def)

lemma app_follow_revoked:
  "app_app_idx x \<noteq> BT_MESH_KEY_UNUSED \<Longrightarrow> app_net_idx x = k \<Longrightarrow> \<not> app_updated (app_follow k BT_MESH_KEY_REVOKED x)"
  by (simp add: app_follow_def)

text \<open>A subnet changes and the keys bound to it follow the event: revoked with it, removed with it.\<close>

lemma evt_bind:
  assumes b: "bind_ok s" and i: "i < length (subnets s)" and core: "same_core (upd_sub i f s) s'"
    and apps: "apps s' = map (app_follow (sub_net_idx (subnets s ! i)) evt) (apps s)"
    and f: "sub_net_idx (subnets s ! i) = BT_MESH_KEY_UNUSED \<or> evt = BT_MESH_KEY_DELETED \<or>
      sub_net_idx (f (subnets s ! i)) = sub_net_idx (subnets s ! i) \<and>
      (evt = BT_MESH_KEY_REVOKED \<or> sub_kr_phase (f (subnets s ! i)) \<noteq> BT_MESH_KR_NORMAL)"
  shows "bind_ok s'"
proof (rule bind_change [OF b i core])
  fix app assume app: "app \<in> set (apps s')" "app_app_idx app \<noteq> BT_MESH_KEY_UNUSED"
  let ?k = "sub_net_idx (subnets s ! i)"
  from app apps have a: "app \<in> set (map (app_follow ?k evt) (apps s))" by simp
  from app_follow_old [OF this app(2)] show "\<exists>app' \<in> set (apps s). app_app_idx app' \<noteq> BT_MESH_KEY_UNUSED \<and>
      app_net_idx app' = app_net_idx app \<and> (app_updated app \<longrightarrow> app_updated app')" by blast
  show "bound_to app (f (subnets s ! i))" if that: "bound_to app (subnets s ! i)"
  proof -
    from app_follow_old [OF a app(2)] obtain x where x: "app_app_idx x \<noteq> BT_MESH_KEY_UNUSED"
      "app_net_idx x = app_net_idx app" "app = app_follow ?k evt x" by blast
    have k: "app_net_idx x = ?k" using that x(2) by (simp add: bound_to_def)
    have "evt = BT_MESH_KEY_REVOKED \<Longrightarrow> \<not> app_updated app" using app_follow_revoked [OF x(1) k] x(3) by simp
    moreover have "evt \<noteq> BT_MESH_KEY_DELETED" using app_follow_deleted [OF x(1) k] x(3) app(2) by auto
    ultimately show ?thesis using that f by (auto simp: bound_to_def)
  qed
qed

lemma evt_store_bind:
  assumes "bind_ok s" "i < length (subnets s)"
    and "sub_net_idx (subnets s ! i) = BT_MESH_KEY_UNUSED \<and> evt = BT_MESH_KEY_ADDED \<or>
      sub_net_idx (f (subnets s ! i)) = sub_net_idx (subnets s ! i) \<and>
      (evt = BT_MESH_KEY_REVOKED \<or> sub_kr_phase (f (subnets s ! i)) \<noteq> BT_MESH_KR_NORMAL)"
  shows "bind_ok (let s = subnet_evt (subnet_cbs tc acbs) i evt (upd_sub i f s) in
    bt_mesh_store_subnet (sub_net_idx (subnets s ! i)) s)"
  unfolding Let_def key_requests
proof (rule evt_bind [OF assms(1,2) same_core_trans [OF subnet_evt_core key_request_core]])
  show "apps (key_request (False, sub_net_idx (subnets (subnet_evt (subnet_cbs tc acbs) i evt (upd_sub i f s)) ! i)) False
      (subnet_evt (subnet_cbs tc acbs) i evt (upd_sub i f s))) =
    map (app_follow (sub_net_idx (subnets s ! i)) evt) (apps s)"
    using assms(2,3) by (auto simp: subnet_evt_apps app_follow_same)
qed (use assms(3) in blast)

lemma key_refresh_bind:
  assumes s: "bind_ok s" "i < length (subnets s)"
    and phase: "phase = BT_MESH_KR_PHASE_1 \<or> phase = BT_MESH_KR_PHASE_2 \<or> phase = BT_MESH_KR_PHASE_3"
  shows "bind_ok (key_refresh (subnet_cbs tc acbs) i phase s)"
proof -
  note step = evt_store_bind [OF s, where tc = tc]
  have s12: "bind_ok (let s = subnet_evt (subnet_cbs tc acbs) i evt (upd_sub i (\<lambda>sub. sub\<lparr>sub_kr_phase := phase\<rparr>) s) in
      bt_mesh_store_subnet (sub_net_idx (subnets s ! i)) s)" if "phase \<noteq> BT_MESH_KR_NORMAL" for evt
    by (rule step) (simp_all add: that)
  have s3: "bind_ok (let s = subnet_evt (subnet_cbs tc acbs) i BT_MESH_KEY_REVOKED (upd_sub i key_revoke s) in
      bt_mesh_store_subnet (sub_net_idx (subnets s ! i)) s)"
    by (rule step) (simp_all add: key_revoke_def)
  from phase show ?thesis
  proof (elim disjE)
    assume p: "phase = BT_MESH_KR_PHASE_1"
    show ?thesis unfolding p key_refresh_phases by (rule s12 [unfolded p, OF kr_distinct(1)])
  next
    assume p: "phase = BT_MESH_KR_PHASE_2"
    show ?thesis unfolding p key_refresh_phases by (rule s12 [unfolded p, OF kr_distinct(2)])
  next
    assume p: "phase = BT_MESH_KR_PHASE_3"
    show ?thesis unfolding p key_refresh_phases using s3 s(1)
      by (cases "sub_kr_phase (subnets s ! i) = BT_MESH_KR_NORMAL") (simp_all only: if_True if_False refl simp_thms)
  qed
qed

lemma keys_okI: "sub.keys_inv s \<Longrightarrow> bind_ok s \<Longrightarrow> keys_ok s"
  by (simp add: keys_inv_eq keys_ok_def)

lemma keys_okD: "keys_ok s \<Longrightarrow> sub.keys_inv s"
  by (simp add: keys_inv_eq keys_ok_def)

lemma key_refresh_keys_ok:
  assumes s: "keys_ok s" "i < length (subnets s)" "sub_net_idx (subnets s ! i) \<noteq> BT_MESH_KEY_UNUSED"
    and a: "kr_allowed (subnets s ! i) phase"
  shows "keys_ok (key_refresh (subnet_cbs tc acbs) i phase s)"
proof (rule keys_okI)
  show "sub.keys_inv (key_refresh (subnet_cbs tc acbs) i phase s)"
    unfolding subnet_cbs_def by (rule sub.key_refresh_ok [OF keys_okD [OF s(1)] s(2,3) a])
  show "bind_ok (key_refresh (subnet_cbs tc acbs) i phase s)"
    by (rule key_refresh_bind) (use s a in \<open>auto simp only: kr_allowed_def keys_ok_def\<close>)
qed

lemma kr_update_keys_ok:
  assumes "keys_ok s" "i < length (subnets s)" "sub_net_idx (subnets s ! i) \<noteq> BT_MESH_KEY_UNUSED"
  shows "keys_ok (bt_mesh_kr_update (subnet_cbs tc acbs) i kr_flag new_key s)"
  using assms(1) key_refresh_keys_ok [OF assms, of BT_MESH_KR_PHASE_2 tc]
    key_refresh_keys_ok [OF assms, of BT_MESH_KR_PHASE_3 tc]
  by (simp add: bt_mesh_kr_update_def kr_allowed_def)
lemma kr_phase_set_keys_ok:
  assumes "keys_ok s" "net_idx \<noteq> BT_MESH_KEY_UNUSED"
  shows "keys_ok (snd (snd (bt_mesh_subnet_kr_phase_set (subnet_cbs tc acbs) net_idx phase s)))"
proof (rule keys_okI)
  show "sub.keys_inv (snd (snd (bt_mesh_subnet_kr_phase_set (subnet_cbs tc acbs) net_idx phase s)))"
    unfolding subnet_cbs_def by (rule sub.kr_phase_set_ok [OF keys_okD [OF assms(1)] assms(2)])
  show "bind_ok (snd (snd (bt_mesh_subnet_kr_phase_set (subnet_cbs tc acbs) net_idx phase s)))"
  proof (cases "bt_mesh_subnet_get net_idx s")
    case (Some i)
    have b: "bind_ok s" using assms(1) by (simp add: keys_ok_def)
    have "phase = BT_MESH_KR_PHASE_1 \<or> phase = BT_MESH_KR_PHASE_2 \<or> phase = BT_MESH_KR_PHASE_3"
      if "bit (valid_transitions ! unat p) (unat phase)" "unat p < 3" for p :: u8
      using transitions_bits [OF that] by (auto simp: kr_defs word_unat_eq_iff)
    with key_refresh_bind [OF b get_slot(1) [OF Some], of phase tc] b Some show ?thesis
      by (auto simp: bt_mesh_subnet_kr_phase_set_def Let_def valid_transitions_def)
  qed (use assms in \<open>simp add: bt_mesh_subnet_kr_phase_set_def keys_ok_def\<close>)
qed

lemma subnet_add_keys_ok:
  assumes "keys_ok s" "net_idx < 2 ^ 12"
  shows "keys_ok (snd (bt_mesh_subnet_add tc (subnet_cbs tc acbs) net_idx key s))"
proof (rule keys_okI)
  let ?r = "bt_mesh_subnet_add tc (subnet_cbs tc acbs) net_idx key s"
  show "sub.keys_inv (snd ?r)"
    unfolding subnet_cbs_def by (rule sub.subnet_add_ok [OF keys_okD [OF assms(1)] assms(2)])
  have b: "bind_ok s" using assms(1) by (simp add: keys_ok_def)
  show "bind_ok (snd ?r)"
  proof (cases "\<exists>i keys. subnet_alloc net_idx s = Some i \<and> sub_net_idx (subnets s ! i) \<noteq> net_idx \<and>
      net_keys_create tc key = Inr keys")
    case True
    then obtain i keys where i: "subnet_alloc net_idx s = Some i" "sub_net_idx (subnets s ! i) \<noteq> net_idx"
      "net_keys_create tc key = Inr keys" by blast
    note a = alloc_new [OF i(1,2)]
    have "bind_ok (let s = subnet_evt (subnet_cbs tc acbs) i BT_MESH_KEY_ADDED (upd_sub i (\<lambda>sub. sub\<lparr>
        sub_keys := (sub_keys sub)[0 := keys], sub_net_idx := net_idx, sub_kr_phase := BT_MESH_KR_NORMAL,
        sub_node_id := BT_MESH_FEATURE_DISABLED\<rparr>) s) in bt_mesh_store_subnet (sub_net_idx (subnets s ! i)) s)"
      by (rule evt_store_bind [OF b a(1)]) (simp add: a(2))
    with i show ?thesis by (simp add: bt_mesh_subnet_add_def Let_def)
  next
    case False
    with b show ?thesis by (auto simp: bt_mesh_subnet_add_def Let_def split: option.split sum.split)
  qed
qed

lemma subnet_update_keys_ok:
  assumes "keys_ok s" "net_idx \<noteq> BT_MESH_KEY_UNUSED"
  shows "keys_ok (snd (bt_mesh_subnet_update tc (subnet_cbs tc acbs) net_idx key s))"
proof (rule keys_okI)
  let ?r = "bt_mesh_subnet_update tc (subnet_cbs tc acbs) net_idx key s"
  show "sub.keys_inv (snd ?r)"
    unfolding subnet_cbs_def by (rule sub.subnet_update_ok [OF keys_okD [OF assms(1)] assms(2)])
  have b: "bind_ok s" using assms(1) by (simp add: keys_ok_def)
  have "bind_ok (key_refresh (subnet_cbs tc acbs) i BT_MESH_KR_PHASE_1
      (upd_sub i (\<lambda>sub. sub\<lparr>sub_keys := (sub_keys sub)[1 := keys]\<rparr>) s))" if i: "i < length (subnets s)" for i keys
  proof (rule key_refresh_bind)
    show "bind_ok (upd_sub i (\<lambda>sub. sub\<lparr>sub_keys := (sub_keys sub)[1 := keys]\<rparr>) s)"
      by (rule bind_change [OF b i same_core_refl]) (auto simp: bound_to_def)
  qed (use i in simp_all)
  then show "bind_ok (snd ?r)"
    using b get_slot(1) [of net_idx s]
    by (auto simp: bt_mesh_subnet_update_def Let_def split: option.split sum.split)
qed

lemma subnet_del_keys_ok:
  assumes s: "keys_ok s" "i < length (subnets s)" "sub_net_idx (subnets s ! i) \<noteq> BT_MESH_KEY_UNUSED"
  shows "keys_ok (subnet_del (subnet_cbs tc acbs) i s)"
proof (rule keys_okI)
  show "sub.keys_inv (subnet_del (subnet_cbs tc acbs) i s)"
    unfolding subnet_cbs_def by (rule sub.subnet_del_ok(1) [OF keys_okD [OF s(1)] s(2,3)])
  let ?k = "sub_net_idx (subnets s ! i)"
  let ?b = "bt_mesh_net_loopback_clear ?k (key_request (False, ?k) True s)"
  let ?c = "subnet_evt (subnet_cbs tc acbs) i BT_MESH_KEY_DELETED ?b"
  have del: "subnet_del (subnet_cbs tc acbs) i s = upd_sub i (\<lambda>sub. unused_subnet) ?c"
    by (simp add: subnet_del_def Let_def key_requests)
  have "same_core ?b ?c" by (rule subnet_evt_core)
  then have core: "same_core (upd_sub i (\<lambda>sub. unused_subnet) s) (upd_sub i (\<lambda>sub. unused_subnet) ?c)"
    by (simp add: same_core_def map_update)
  show "bind_ok (subnet_del (subnet_cbs tc acbs) i s)"
    unfolding del
    by (rule evt_bind [OF _ s(2) core, where evt = BT_MESH_KEY_DELETED])
      (use s in \<open>simp_all add: keys_ok_def subnet_evt_apps\<close>)
qed

lemma bt_mesh_subnet_del_keys_ok:
  assumes "keys_ok s" "net_idx \<noteq> BT_MESH_KEY_UNUSED"
  shows "keys_ok (snd (bt_mesh_subnet_del (subnet_cbs tc acbs) net_idx s))"
  using assms subnet_del_keys_ok [OF assms(1), where tc = tc] get_slot [of net_idx s]
  by (auto simp: bt_mesh_subnet_del_def split: option.splits)

text \<open>The operations on one application key.\<close>

lemma bind_change_app:
  assumes "bind_ok s" "subnets s' = subnets s" "apps s' = (apps s)[i := a]"
    and "app_app_idx a = BT_MESH_KEY_UNUSED \<or> (\<exists>sub \<in> set (subnets s). bound_to a sub)"
  shows "bind_ok s'"
  using assms unfolding bind_ok_def by (auto dest!: subsetD [OF set_update_subset_insert])

lemma app_step_keys_ok:
  assumes "keys_ok s" "app_step_ok s s'" "bind_ok s'"
  shows "keys_ok s'"
  using assms by (auto simp: keys_ok_def app_step_ok_def subnets_ok_def)

lemma app_key_del_keys_ok:
  assumes s: "keys_ok s" "i < length (apps s)" "app_app_idx (apps s ! i) \<noteq> BT_MESH_KEY_UNUSED"
  shows "keys_ok (app_key_del acbs i s)"
proof (rule app_step_keys_ok [OF s(1)])
  show "app_step_ok s (app_key_del acbs i s)" using app_del_ok(1) [OF _ s(2,3)] s(1) by (simp add: keys_ok_def)
  show "bind_ok (app_key_del acbs i s)"
    by (rule bind_change_app [of s, where i = i and a = "(apps s ! i)\<lparr>app_net_idx := BT_MESH_KEY_UNUSED,
          app_app_idx := BT_MESH_KEY_UNUSED, app_creds := [zero_app_cred, zero_app_cred]\<rparr>"])
      (use s(1) in \<open>simp_all add: keys_ok_def app_key_del_def Let_def key_requests\<close>)
qed

lemma bt_mesh_app_key_del_keys_ok:
  assumes "keys_ok s" "app_idx \<noteq> BT_MESH_KEY_UNUSED"
  shows "keys_ok (snd (bt_mesh_app_key_del acbs app_idx net_idx s))"
  using assms app_key_del_keys_ok [OF assms(1)] app_get_slot [of app_idx s]
  by (auto simp: bt_mesh_app_key_del_def split: option.splits)

text \<open>A key is set in a slot, stored, and the handlers are told.\<close>

lemma app_set_keys_ok:
  assumes s: "keys_ok s" "i < length (apps s)"
    and f: "app_ok (f (apps s ! i))" "app_app_idx (f (apps s ! i)) = k" "k < 2 ^ 12"
      "app_app_idx (apps s ! i) = k \<or> app_app_idx (apps s ! i) = BT_MESH_KEY_UNUSED \<and>
         (\<forall>app \<in> set (apps s). app_app_idx app \<noteq> k)"
    and b: "\<exists>sub \<in> set (subnets s). bound_to (f (apps s ! i)) sub"
  shows "keys_ok (app_key_evt acbs i evt (bt_mesh_store_app_key k (upd_app i f s)))"
proof (rule app_step_keys_ok [OF s(1) app_step_evt])
  show "app_step_ok s (bt_mesh_store_app_key k (upd_app i f s))"
    by (rule app_change_store [where f = f, OF _ s(2) f]) (use s(1) in \<open>simp add: keys_ok_def\<close>)
  show "bind_ok (app_key_evt acbs i evt (bt_mesh_store_app_key k (upd_app i f s)))"
    by (rule bind_change_app [of s, where i = i and a = "f (apps s ! i)"])
      (use s(1) b in \<open>simp_all add: keys_ok_def key_requests\<close>)
qed

lemma app_key_add_keys_ok:
  assumes s: "keys_ok s" and k: "app_idx < 2 ^ 12" "net_idx < 2 ^ 12"
  shows "keys_ok (snd (bt_mesh_app_key_add tc acbs app_idx net_idx key s))"
proof (cases "\<exists>j i aid. bt_mesh_subnet_get net_idx s = Some j \<and> app_key_alloc app_idx s = Some i \<and>
      app_app_idx (apps s ! i) \<noteq> app_idx \<and> bt_mesh_app_id tc key = Inr aid")
  case True
  then obtain j i aid where i: "bt_mesh_subnet_get net_idx s = Some j" "app_key_alloc app_idx s = Some i"
    "app_app_idx (apps s ! i) \<noteq> app_idx" "bt_mesh_app_id tc key = Inr aid" by blast
  note a = app_alloc_new [OF i(2,3)]
  let ?f = "\<lambda>app. app\<lparr>app_creds := (app_creds app)[0 := \<lparr>cred_id = aid, cred_val = take 16 key\<rparr>],
    app_net_idx := net_idx, app_app_idx := app_idx, app_updated := False\<rparr>"
  have "app_ok (apps s ! i)" using s a(1) by (simp add: keys_ok_def apps_ok_def list_all_length)
  then have ok: "app_ok (?f (apps s ! i))" using k(1) by (simp add: app_ok_def)
  have "bound_to (?f (apps s ! i)) (subnets s ! j)"
    using get_slot [OF i(1)] k(2) by (auto simp: bound_to_def dest: UNUSED_large)
  then have b: "\<exists>sub \<in> set (subnets s). bound_to (?f (apps s ! i)) sub" using get_slot(1) [OF i(1)] by (meson nth_mem)
  from app_set_keys_ok [where f = ?f and k = app_idx and evt = BT_MESH_KEY_ADDED, OF s a(1) ok _ k(1) _ b]
  show ?thesis using i a by (simp add: bt_mesh_app_key_add_def Let_def)
next
  case False
  with s show ?thesis by (auto simp: bt_mesh_app_key_add_def Let_def split: option.split sum.split)
qed

lemma app_key_update_keys_ok:
  assumes s: "keys_ok s" and k: "app_idx < 2 ^ 12"
  shows "keys_ok (snd (bt_mesh_app_key_update tc acbs app_idx net_idx key s))"
proof (cases "\<exists>i j aid. app_get app_idx s = Some i \<and> bt_mesh_subnet_get (app_net_idx (apps s ! i)) s = Some j \<and>
      (net_idx \<noteq> BT_MESH_KEY_UNUSED \<longrightarrow> app_net_idx (apps s ! i) = net_idx) \<and>
      sub_kr_phase (subnets s ! j) = BT_MESH_KR_PHASE_1 \<and> \<not> app_updated (apps s ! i) \<and> bt_mesh_app_id tc key = Inr aid")
  case True
  then obtain i j aid where i: "app_get app_idx s = Some i" "bt_mesh_subnet_get (app_net_idx (apps s ! i)) s = Some j"
    "net_idx \<noteq> BT_MESH_KEY_UNUSED \<longrightarrow> app_net_idx (apps s ! i) = net_idx"
    "sub_kr_phase (subnets s ! j) = BT_MESH_KR_PHASE_1" "\<not> app_updated (apps s ! i)" "bt_mesh_app_id tc key = Inr aid"
    by blast
  note a = app_get_slot [OF i(1)]
  let ?f = "\<lambda>app. app\<lparr>app_creds := (app_creds app)[1 := \<lparr>cred_id = aid, cred_val = take 16 key\<rparr>], app_updated := True\<rparr>"
  have un: "app_app_idx (apps s ! i) \<noteq> BT_MESH_KEY_UNUSED" using a(2) k by (auto dest: UNUSED_large)
  then have ok: "app_ok (?f (apps s ! i))" using s a(1) by (simp add: keys_ok_def apps_ok_def list_all_length app_ok_def)
  have "\<exists>sub \<in> set (subnets s). bound_to (apps s ! i) sub"
    using s a(1) un nth_mem by (auto simp: keys_ok_def bind_ok_def)
  then have "app_net_idx (apps s ! i) \<noteq> BT_MESH_KEY_UNUSED" by (auto simp: bound_to_def)
  then have "bound_to (?f (apps s ! i)) (subnets s ! j)"
    using get_slot [OF i(2)] i(4) by (simp add: bound_to_def kr_distinct)
  then have b: "\<exists>sub \<in> set (subnets s). bound_to (?f (apps s ! i)) sub" using get_slot(1) [OF i(2)] by (meson nth_mem)
  from app_set_keys_ok [where f = ?f and k = app_idx and evt = BT_MESH_KEY_UPDATED, OF s a(1) ok _ k _ b]
  show ?thesis using i a s by (simp add: bt_mesh_app_key_update_def Let_def)
next
  case False
  with s show ?thesis by (auto simp: bt_mesh_app_key_update_def Let_def split: option.split sum.split)
qed
end

end
