(* ===== verification/Adv.thy ===== *)
theory Adv
  imports App_Keys
begin

text \<open>
  The advertising bearer of subsys/bluetooth/mesh/adv.c and adv_legacy.c: the pool of 29-byte buffers, the
  queue that the advertising thread empties, and the loop that splits a received advertisement into its
  structures.

  \<^item> \<open>adv_used\<close> counts the buffers of the pool that are allocated; \<open>adv_mem\<close> is what the storage of the next
    buffer happens to hold.
  \<^item> A callback pointer with its user data is a value of \<open>send_cb\<close>; what the callbacks do is the argument
    \<open>cbs\<close> of the functions that call them.
  \<^item> \<open>bt_le_adv_start\<close> and \<open>bt_le_adv_stop\<close> belong to the host: their results are arguments of the two halves
    of \<^verbatim>\<open>adv_send\<close>, before and after the thread sleeps.
\<close>

section \<open>Buffers and callbacks\<close>

datatype bt_mesh_adv_type = BT_MESH_ADV_PROV | BT_MESH_ADV_DATA | BT_MESH_ADV_BEACON | BT_MESH_ADV_URI

text \<open>
  The \<^verbatim>\<open>struct bt_mesh_send_cb\<close> constants of the stack with their user data: the segments of a transmission
  (transport.c), secure beacons (beacon.c), heartbeats (heartbeat.c), model publications (access.c) and those
  of the application.
\<close>

datatype send_cb = CB_seg nat | CB_beacon nat | CB_hb | CB_pub nat | CB_user nat

record 's cb_sem =
  cb_start :: "send_cb \<Rightarrow> u16 \<Rightarrow> errno option \<Rightarrow> 's \<Rightarrow> 's"
  cb_end :: "send_cb \<Rightarrow> errno option \<Rightarrow> 's \<Rightarrow> 's"

definition send_cb_finalize :: "'s cb_sem \<Rightarrow> send_cb option \<Rightarrow> 's \<Rightarrow> 's" where
  "send_cb_finalize cbs cb s =
     (case cb of None \<Rightarrow> s | Some c \<Rightarrow> cb_end cbs c None (cb_start cbs c 0 None s))"

definition bt_mesh_adv_send_start :: "'s cb_sem \<Rightarrow> u16 \<Rightarrow> errno option \<Rightarrow> send_cb option \<Rightarrow> 's \<Rightarrow> 's" where
  "bt_mesh_adv_send_start cbs duration err cb s =
     (case cb of None \<Rightarrow> s | Some c \<Rightarrow> cb_start cbs c duration err s)"

definition bt_mesh_adv_send_end :: "'s cb_sem \<Rightarrow> errno option \<Rightarrow> send_cb option \<Rightarrow> 's \<Rightarrow> 's" where
  "bt_mesh_adv_send_end cbs err cb s = (case cb of None \<Rightarrow> s | Some c \<Rightarrow> cb_end cbs c err s)"

record adv_buf =
  ab_type :: bt_mesh_adv_type
  ab_busy :: bool
  ab_xmit :: u8
  ab_cb :: "send_cb option"
  ab_b :: net_buf_simple

record adv_state = mesh_state +
  adv_used :: nat
  adv_mem :: bytes
  adv_queue :: "adv_buf list"
  adv_current :: "send_cb option option"

definition BT_MESH_ADV_DATA_SIZE :: nat where "BT_MESH_ADV_DATA_SIZE = 29"
definition CONFIG_BT_MESH_ADV_BUF_COUNT :: nat where "CONFIG_BT_MESH_ADV_BUF_COUNT = 30"

text \<open>With \<^verbatim>\<open>K_NO_WAIT\<close>, which all callers of the mesh stack pass.\<close>

definition bt_mesh_adv_create ::
    "bt_mesh_adv_type \<Rightarrow> u8 \<Rightarrow> 'a adv_state_scheme \<Rightarrow> (adv_buf \<times> 'a adv_state_scheme) option" where
  "bt_mesh_adv_create type xmit s =
     (if flags s BT_MESH_SUSPENDED then None
      else if adv_used s \<ge> CONFIG_BT_MESH_ADV_BUF_COUNT then None
      else Some (\<lparr>ab_type = type, ab_busy = False, ab_xmit = xmit, ab_cb = None,
                   ab_b = NET_BUF_SIMPLE_DEFINE (adv_mem s)\<rparr>, s\<lparr>adv_used := adv_used s + 1\<rparr>))"

text \<open>
  \<^verbatim>\<open>net_buf_unref\<close> of a buffer that is not queued returns it to the pool. \<^verbatim>\<open>bt_mesh_adv_send\<close> takes a reference
  of its own, so that the caller's \<^verbatim>\<open>net_buf_unref\<close> leaves a queued buffer allocated.
\<close>

definition net_buf_unref :: "'a adv_state_scheme \<Rightarrow> 'a adv_state_scheme" where
  "net_buf_unref s = s\<lparr>adv_used := adv_used s - 1\<rparr>"

definition bt_mesh_adv_send :: "adv_buf \<Rightarrow> send_cb option \<Rightarrow> 'a adv_state_scheme \<Rightarrow> 'a adv_state_scheme" where
  "bt_mesh_adv_send buf cb s = s\<lparr>adv_queue := adv_queue s @ [buf\<lparr>ab_cb := cb, ab_busy := True\<rparr>]\<rparr>"

section \<open>The advertising thread\<close>

definition BT_MESH_TRANSMIT_COUNT :: "u8 \<Rightarrow> nat" where
  "BT_MESH_TRANSMIT_COUNT transmit = unat (transmit AND 7)"

definition BT_MESH_TRANSMIT_INT :: "u8 \<Rightarrow> nat" where
  "BT_MESH_TRANSMIT_INT transmit = (unat (drop_bit 3 transmit) + 1) * 10"

definition BT_MESH_TRANSMIT :: "nat \<Rightarrow> nat \<Rightarrow> u8" where
  "BT_MESH_TRANSMIT count int_ms = of_nat count OR push_bit 3 (of_nat (int_ms div 10 - 1))"

definition adv_duration :: "nat \<Rightarrow> u8 \<Rightarrow> u16" where
  "adv_duration adv_int_min xmit =
     (let adv_int = max adv_int_min (BT_MESH_TRANSMIT_INT xmit) in
      of_nat (30 + (BT_MESH_TRANSMIT_COUNT xmit + 1) * (adv_int + 10)))"

text \<open>
  One round of the thread up to the sleep: a cancelled buffer (\<^verbatim>\<open>busy == 0\<close>) is only freed. \<open>err\<close> is the
  result of \<^verbatim>\<open>bt_le_adv_start\<close>.
\<close>

definition adv_thread_start ::
    "'a adv_state_scheme cb_sem \<Rightarrow> nat \<Rightarrow> errno option \<Rightarrow> 'a adv_state_scheme \<Rightarrow> 'a adv_state_scheme" where
  "adv_thread_start cbs adv_int_min err s =
     (case adv_queue s of
        [] \<Rightarrow> s
      | buf # q \<Rightarrow>
          let s = net_buf_unref (s\<lparr>adv_queue := q\<rparr>) in
          if \<not> ab_busy buf then s
          else
            let s = bt_mesh_adv_send_start cbs (adv_duration adv_int_min (ab_xmit buf)) err (ab_cb buf) s in
            if err \<noteq> None then s else s\<lparr>adv_current := Some (ab_cb buf)\<rparr>)"

definition adv_thread_end ::
    "'a adv_state_scheme cb_sem \<Rightarrow> errno option \<Rightarrow> 'a adv_state_scheme \<Rightarrow> 'a adv_state_scheme" where
  "adv_thread_end cbs err s =
     (case adv_current s of
        None \<Rightarrow> s
      | Some cb \<Rightarrow> bt_mesh_adv_send_end cbs err cb (s\<lparr>adv_current := None\<rparr>))"

section \<open>Received advertisements\<close>

definition BT_DATA_MESH_PROV :: u8 where "BT_DATA_MESH_PROV = 0x29"
definition BT_DATA_MESH_MESSAGE :: u8 where "BT_DATA_MESH_MESSAGE = 0x2a"
definition BT_DATA_MESH_BEACON :: u8 where "BT_DATA_MESH_BEACON = 0x2b"

text \<open>
  The loop of \<^verbatim>\<open>bt_mesh_scan_cb\<close>. \<open>recv\<close> is the switch on the type of the structure; it may move the
  read position of the buffer, which is then restored. \<open>None\<close> is an assertion that fails in a receiver.
\<close>

function scan_loop ::
    "(u8 \<Rightarrow> net_buf_simple \<Rightarrow> 's \<Rightarrow> (net_buf_simple \<times> 's) option) \<Rightarrow> net_buf_simple \<Rightarrow> 's \<Rightarrow> 's option" where
  "scan_loop recv buf s =
     (if \<not> nb_len buf > 1 then Some s
      else case net_buf_simple_pull_u8 buf of
        None \<Rightarrow> None
      | Some (len, buf1) \<Rightarrow>
          if len = 0 then Some s
          else if unat len > nb_len buf1 then Some s
          else case net_buf_simple_pull_u8 buf1 of
            None \<Rightarrow> None
          | Some (type, buf2) \<Rightarrow>
              (case recv type (buf2\<lparr>nb_len := unat len - 1\<rparr>) s of
                 None \<Rightarrow> None
               | Some (buf3, s) \<Rightarrow>
                   (case net_buf_simple_pull (net_buf_simple_restore buf3 (net_buf_simple_save buf1)) (unat len) of
                      None \<Rightarrow> None
                    | Some buf4 \<Rightarrow> scan_loop recv buf4 s)))"
  by pat_completeness auto

lemma unat_of_nat_le: "unat (of_nat n :: 'a::len word) \<le> n"
  by (simp add: unsigned_of_nat take_bit_nat_eq_self_iff take_bit_nat_less_eq_self)

termination scan_loop
proof (relation "measure (\<lambda>(recv, buf, s). nb_len buf)", goal_cases)
  case (2 recv buf s x len buf1 x2 type buf2 x3 buf3 s' buf4)
  then have "nb_len buf1 = nb_len buf - 1"
    by (auto simp: net_buf_simple_pull_u8_def net_buf_simple_pull_def split: bind_splits if_splits)
  moreover have "nb_len buf4 = unat (of_nat (nb_len buf1) :: u16) - unat len"
    using 2 by (auto simp: net_buf_simple_pull_def net_buf_simple_restore_def net_buf_simple_save_def split: if_splits)
  moreover have "unat len > 0" using 2 by (simp add: unat_gt_0)
  ultimately show ?case using 2 unat_of_nat_le [of "nb_len buf1", where 'a = 16] by auto
qed simp

definition BT_GAP_ADV_TYPE_ADV_NONCONN_IND :: u8 where "BT_GAP_ADV_TYPE_ADV_NONCONN_IND = 3"

text \<open>\<open>net_recv\<close>, \<open>pb_adv_recv\<close> and \<open>beacon_recv\<close> are the receivers of the three types.\<close>

definition bt_mesh_scan_cb ::
    "(net_buf_simple \<Rightarrow> 's \<Rightarrow> (net_buf_simple \<times> 's) option) \<Rightarrow>
     (net_buf_simple \<Rightarrow> 's \<Rightarrow> (net_buf_simple \<times> 's) option) \<Rightarrow>
     (net_buf_simple \<Rightarrow> 's \<Rightarrow> (net_buf_simple \<times> 's) option) \<Rightarrow> u8 \<Rightarrow> net_buf_simple \<Rightarrow> 's \<Rightarrow> 's option" where
  "bt_mesh_scan_cb net_recv pb_adv_recv beacon_recv adv_type buf s =
     (if adv_type \<noteq> BT_GAP_ADV_TYPE_ADV_NONCONN_IND then Some s
      else scan_loop
        (\<lambda>type buf s. if type = BT_DATA_MESH_MESSAGE then net_recv buf s
                      else if type = BT_DATA_MESH_PROV then pb_adv_recv buf s
                      else if type = BT_DATA_MESH_BEACON then beacon_recv buf s
                      else Some (buf, s)) buf s)"

section \<open>The structures of an advertisement\<close>

text \<open>
  What the format says: a length, that many bytes of which the first is the type, and so on; an empty
  structure ends the advertisement early, and so does one that does not fit.
\<close>

fun ad_structs :: "bytes \<Rightarrow> (u8 \<times> bytes) list" where
  "ad_structs (len # type # rest) =
     (if len = 0 \<or> unat len > Suc (length rest) then []
      else (type, take (unat len - 1) rest) # ad_structs (drop (unat len - 1) rest))"
| "ad_structs _ = []"

text \<open>A receiver that reads its buffer without writing to it, and depends on nothing but its data.\<close>

definition reads_only ::
    "(u8 \<Rightarrow> net_buf_simple \<Rightarrow> 's \<Rightarrow> (net_buf_simple \<times> 's) option) \<Rightarrow> (u8 \<times> bytes \<Rightarrow> 's \<Rightarrow> 's) \<Rightarrow> bool" where
  "reads_only recv f \<longleftrightarrow> (\<forall>type buf s. nb_invar buf \<longrightarrow>
     (\<exists>buf'. recv type buf s = Some (buf', f (type, nb_data buf) s) \<and> nb_store buf' = nb_store buf))"

lemma scan_loop_structs:
  assumes "reads_only recv f" "nb_invar buf"
  shows "scan_loop recv buf s = Some (fold f (ad_structs (nb_data buf)) s)"
  using assms
proof (induction recv buf s rule: scan_loop.induct)
  case (1 recv buf s)
  let ?d = "nb_data buf"
  have ld: "length ?d = nb_len buf" using 1 by (simp add: length_nb_data)
  show ?case
  proof (cases "nb_len buf > 1")
    case False
    then have "ad_structs ?d = []" using ld by (cases ?d rule: ad_structs.cases) auto
    with False show ?thesis by simp
  next
    case len: True
    then obtain l t r where d: "?d = l # t # r" using ld by (metis length_Cons less_numeral_extra(4)
      list.size(3) neq_Nil_conv not_less_zero One_nat_def less_Suc0)
    from pull_u8_data [OF 1(3)] len ld obtain b1 where b1: "net_buf_simple_pull_u8 buf = Some (l, b1)"
      "nb_invar b1" "nb_data b1 = t # r" by (auto simp: d)
    have lb1: "nb_len b1 = Suc (length r)" using b1 length_nb_data [of b1] by simp
    show ?thesis
    proof (cases "l = 0 \<or> unat l > nb_len b1")
      case True
      then show ?thesis using len b1 lb1 by (auto simp: d)
    next
      case False
      then have l: "0 < unat l" "unat l \<le> Suc (length r)" using lb1 by (simp_all add: unat_gt_0)
      from pull_u8_data [OF b1(2)] b1 obtain b2 where b2: "net_buf_simple_pull_u8 b1 = Some (t, b2)"
        "nb_invar b2" "nb_data b2 = r" by auto
      have lb2: "nb_len b2 = length r" using b2 length_nb_data [of b2] by simp
      let ?b3 = "b2\<lparr>nb_len := unat l - 1\<rparr>"
      have b3: "nb_invar ?b3" using b2(2) lb2 l by (auto simp: nb_invar_def nb_size_def)
      have d3: "nb_data ?b3 = take (unat l - 1) r"
      proof -
        have "unat l - 1 \<le> nb_len b2" using lb2 l(2) by simp
        from nb_data_prefix [OF b2(2) this] show ?thesis by (simp only: nb_data_def [of ?b3] b2(3)) simp
      qed
      obtain b4 where b4: "recv t ?b3 s = Some (b4, f (t, take (unat l - 1) r) s)" "nb_store b4 = nb_store ?b3"
        using 1(2) b3 d3 unfolding reads_only_def by metis
      have "nb_store b2 = nb_store b1"
        using b2(1) by (auto simp: net_buf_simple_pull_u8_def net_buf_simple_pull_def split: if_splits)
      then have res: "net_buf_simple_restore b4 (net_buf_simple_save b1) = b1"
        using nb_restore_save [OF b1(2)] b4(2) by simp
      from nb_pull_ex [OF b1(2), of "unat l"] l b1(3) obtain b5 where b5: "net_buf_simple_pull b1 (unat l) = Some b5"
        "nb_invar b5" "nb_data b5 = drop (unat l) (t # r)" by auto
      have dr: "drop (unat l) (t # r) = drop (unat l - 1) r" using l(1) by (cases "unat l") auto
      have IH: "scan_loop recv b5 (f (t, take (unat l - 1) r) s) =
          Some (fold f (ad_structs (drop (unat l - 1) r)) (f (t, take (unat l - 1) r) s))"
        using 1(1) [OF _ b1(1) refl _ _ b2(1) refl b4(1) refl, of b5] len False b5 res 1(2) dr by simp
      have "scan_loop recv buf s = scan_loop recv b5 (f (t, take (unat l - 1) r) s)"
        by (subst scan_loop.simps) (use len False b1(1) b2(1) b4(1) res b5(1) in simp)
      moreover have "ad_structs ?d = (t, take (unat l - 1) r) # ad_structs (drop (unat l - 1) r)"
        using False l by (simp add: d)
      ultimately show ?thesis using IH by (simp only: fold_simps)
    qed
  qed
qed

text \<open>C11: The loop that splits an advertisement into its structures hands every receiver exactly the structures
  that the format defines, in order, and stops where the format says so: an optimised reader over the offsets
  of one buffer is the same as the reference definition \<open>ad_structs\<close> over the bytes, whatever is received.\<close>

theorem scan_cb_structs:
  assumes "reads_only (\<lambda>type buf s. if type = BT_DATA_MESH_MESSAGE then net_recv buf s
      else if type = BT_DATA_MESH_PROV then pb_adv_recv buf s
      else if type = BT_DATA_MESH_BEACON then beacon_recv buf s else Some (buf, s)) f"
    and "nb_invar buf"
  shows "bt_mesh_scan_cb net_recv pb_adv_recv beacon_recv BT_GAP_ADV_TYPE_ADV_NONCONN_IND buf s =
    Some (fold f (ad_structs (nb_data buf)) s)"
  using scan_loop_structs [OF assms] by (simp add: bt_mesh_scan_cb_def)

text \<open>At an advertisement with two mesh structures, an unknown one and a malformed rest.\<close>

definition note_data :: "net_buf_simple \<Rightarrow> bytes list \<Rightarrow> (net_buf_simple \<times> bytes list) option" where
  "note_data buf s = Some (buf, s @ [nb_data buf])"

definition note_struct :: "u8 \<times> bytes \<Rightarrow> bytes list \<Rightarrow> bytes list" where
  "note_struct x s = (if fst x \<in> {0x2a, 0x29, 0x2b} then s @ [snd x] else s)"

theorem scan_cb_structs_witness:
  "bt_mesh_scan_cb note_data note_data note_data BT_GAP_ADV_TYPE_ADV_NONCONN_IND
     (net_buf_simple_init_with_data [3, 0x2a, 7, 8, 2, 0x01, 6, 2, 0x2b, 9, 9, 0x2a, 1]) [] = Some [[7, 8], [9]]"
proof -
  have "reads_only (\<lambda>type buf s. if type = BT_DATA_MESH_MESSAGE then note_data buf s
      else if type = BT_DATA_MESH_PROV then note_data buf s
      else if type = BT_DATA_MESH_BEACON then note_data buf s else Some (buf, s)) note_struct"
    by (auto simp: reads_only_def note_data_def note_struct_def BT_DATA_MESH_MESSAGE_def BT_DATA_MESH_PROV_def
        BT_DATA_MESH_BEACON_def)
  from scan_cb_structs [OF this, of "net_buf_simple_init_with_data [3, 0x2a, 7, 8, 2, 0x01, 6, 2, 0x2b, 9, 9, 0x2a, 1]" "[]"]
  show ?thesis
    by (simp add: net_buf_simple_init_with_data_def nb_invar_def nb_size_def nb_data_def note_struct_def)
qed

end
