(* ===== verification/Net.thy ===== *)
theory Net
  imports Adv
begin

text \<open>
  The network layer of subsys/bluetooth/mesh/net.c: sequence numbers and the IV update procedure, the
  duplicate and message caches, encoding, decoding, relaying and the loopback interface; with the getters of
  cfg.c and the beacon timer of beacon.c that it uses.

  \<^item> \<open>net_env\<close> is what net.c calls in other parts of the stack: the callbacks of a send, access.c
    (\<open>elem_find\<close>), transport.c (\<open>tx_in_progress\<close>), friend.c (the credentials of the friendships), proxy.c
    (whether a PDU went out to a proxy client), and which of the optional parts are compiled in; \<open>stack\<close> is
    what the uninitialised local buffer of \<^verbatim>\<open>bt_mesh_net_recv\<close> holds.
  \<^item> \<open>loopback_busy\<close> counts the loopback buffers that are off the queue and not yet freed.
  \<^item> A call that gives nothing back is recorded in \<open>peer_calls\<close>.
  \<^item> A delayed work item is the number of milliseconds until it runs, \<open>None\<close> when it is not pending.
\<close>

section \<open>State\<close>

datatype peer_call =
    Friend_Sec_Update u16 | Proxy_Beacon_Send | Cdb_Iv_Update u32 bool | Proxy_Relay bytes u16
  | Proxy_Addr_Add u16

record net_state = adv_state +
  msg_cache :: "(u16 \<times> u32) list"
  msg_cache_next :: nat
  dup_cache :: "u32 list"
  dup_cache_next :: nat
  loopback_busy :: nat
  local_work :: bool
  ivu_timer :: "nat option"
  beacon_timer :: "nat option"
  peer_calls :: "peer_call list"

record 's net_env =
  ne_tc :: tinycrypt
  ne_stack :: bytes
  ne_cbs :: "'s cb_sem"
  ne_elem_find :: "u16 \<Rightarrow> bool"
  ne_tx_in_progress :: "'s \<Rightarrow> bool"
  ne_frnd :: "'s \<Rightarrow> (nat \<times> bt_mesh_net_cred list) option list"
  ne_proxy_relay :: "bytes \<Rightarrow> u16 \<Rightarrow> 's \<Rightarrow> bool"
  ne_gatt_proxy :: bool
  ne_friend :: bool
  ne_cdb :: bool

record bt_mesh_net_tx =
  tx_sub :: nat
  tx_ctx :: bt_mesh_msg_ctx
  tx_src :: u16
  tx_xmit :: u8
  tx_friend_cred :: bool
  tx_aszmic :: bool
  tx_aid :: u8

definition CONFIG_BT_MESH_MSG_CACHE_SIZE :: nat where "CONFIG_BT_MESH_MSG_CACHE_SIZE = 30"
definition CONFIG_BT_MESH_LOOPBACK_BUFS :: nat where "CONFIG_BT_MESH_LOOPBACK_BUFS = 3"
definition BT_MESH_NET_HDR_LEN :: nat where "BT_MESH_NET_HDR_LEN = 9"
definition BT_MESH_NET_MIN_PDU_LEN :: nat where "BT_MESH_NET_MIN_PDU_LEN = BT_MESH_NET_HDR_LEN + 1 + 8"
definition LOOPBACK_MAX_PDU_LEN :: nat where "LOOPBACK_MAX_PDU_LEN = BT_MESH_NET_HDR_LEN + 16"
definition BT_MESH_IVU_MIN_HOURS :: u8 where "BT_MESH_IVU_MIN_HOURS = 96"
definition BT_MESH_IVU_HOURS :: u8 where "BT_MESH_IVU_HOURS = BT_MESH_IVU_MIN_HOURS div 4"
definition IV_UPDATE_SEQ_LIMIT :: u32 where "IV_UPDATE_SEQ_LIMIT = 8000000"

definition BT_MESH_IVU_TIMEOUT :: nat where
  "BT_MESH_IVU_TIMEOUT = unat BT_MESH_IVU_HOURS * 3600000"

definition peer_call :: "peer_call \<Rightarrow> 'a net_state_scheme \<Rightarrow> 'a net_state_scheme" where
  "peer_call c s = s\<lparr>peer_calls := peer_calls s @ [c]\<rparr>"

section \<open>The getters of cfg.c\<close>

definition feature_get :: "mesh_flag \<Rightarrow> 'a mesh_sched_scheme \<Rightarrow> u8" where
  "feature_get f s = (if flags s f then BT_MESH_FEATURE_ENABLED else BT_MESH_FEATURE_DISABLED)"

definition bt_mesh_gatt_proxy_get :: "'s net_env \<Rightarrow> 'a mesh_sched_scheme \<Rightarrow> u8" where
  "bt_mesh_gatt_proxy_get env s =
     (if \<not> ne_gatt_proxy env then BT_MESH_FEATURE_NOT_SUPPORTED else feature_get BT_MESH_GATT_PROXY s)"

definition bt_mesh_friend_get :: "'s net_env \<Rightarrow> 'a mesh_sched_scheme \<Rightarrow> u8" where
  "bt_mesh_friend_get env s =
     (if \<not> ne_friend env then BT_MESH_FEATURE_NOT_SUPPORTED else feature_get BT_MESH_FRIEND s)"

definition bt_mesh_relay_get :: "'a mesh_sched_scheme \<Rightarrow> u8" where
  "bt_mesh_relay_get s = feature_get BT_MESH_RELAY s"

definition bt_mesh_relay_retransmit_get :: "'a bt_mesh_net_scheme \<Rightarrow> u8" where
  "bt_mesh_relay_retransmit_get s = bm_relay_xmit s"

definition bt_mesh_net_transmit_get :: "'a bt_mesh_net_scheme \<Rightarrow> u8" where
  "bt_mesh_net_transmit_get s = bm_net_xmit s"

definition bt_mesh_default_ttl_get :: "'a bt_mesh_net_scheme \<Rightarrow> u8" where
  "bt_mesh_default_ttl_get s = bm_default_ttl s"

definition bt_mesh_beacon_enabled :: "'a mesh_sched_scheme \<Rightarrow> bool" where
  "bt_mesh_beacon_enabled s = flags s BT_MESH_BEACON"

definition bt_mesh_fixed_group_match :: "'s net_env \<Rightarrow> u16 \<Rightarrow> 'a mesh_sched_scheme \<Rightarrow> bool" where
  "bt_mesh_fixed_group_match env addr s =
     (if addr = 0xffff then True
      else if addr = 0xfffc then bt_mesh_gatt_proxy_get env s = BT_MESH_FEATURE_ENABLED
      else if addr = 0xfffd then bt_mesh_friend_get env s = BT_MESH_FEATURE_ENABLED
      else if addr = 0xfffe then bt_mesh_relay_get s = BT_MESH_FEATURE_ENABLED
      else False)"

text \<open>beacon.c\<close>

definition bt_mesh_beacon_ivu_initiator :: "bool \<Rightarrow> 'a net_state_scheme \<Rightarrow> 'a net_state_scheme" where
  "bt_mesh_beacon_ivu_initiator enable s =
     (let s = set_flag_to BT_MESH_IVU_INITIATOR enable s in
      if enable then s\<lparr>beacon_timer := Some 0\<rparr>
      else if \<not> bt_mesh_beacon_enabled s then s\<lparr>beacon_timer := None\<rparr> else s)"

section \<open>Fields of a PDU\<close>

definition IVI :: "bytes \<Rightarrow> bool" where "IVI pdu \<longleftrightarrow> drop_bit 7 (pdu ! 0) \<noteq> 0"
definition NID :: "bytes \<Rightarrow> u8" where "NID pdu = pdu ! 0 AND 0x7f"
definition CTL :: "bytes \<Rightarrow> bool" where "CTL pdu \<longleftrightarrow> drop_bit 7 (pdu ! 1) \<noteq> 0"
definition TTL :: "bytes \<Rightarrow> u8" where "TTL pdu = pdu ! 1 AND 0x7f"
definition SEQ :: "bytes \<Rightarrow> u32" where "SEQ pdu = sys_get_be24 (drop 2 pdu)"
definition SRC :: "bytes \<Rightarrow> u16" where "SRC pdu = sys_get_be16 (drop 5 pdu)"
definition DST :: "bytes \<Rightarrow> u16" where "DST pdu = sys_get_be16 (drop 7 pdu)"

lemmas pdu_fields = IVI_def NID_def CTL_def TTL_def SEQ_def SRC_def DST_def

section \<open>The two caches\<close>

text \<open>Storing in the slot \<open>next\<close> of an array of \<open>n\<close> slots and moving on.\<close>

definition ring_put :: "nat \<Rightarrow> 'e \<Rightarrow> 'e list \<times> nat \<Rightarrow> 'e list \<times> nat" where
  "ring_put n x c = ((fst c)[snd c := x], Suc (snd c) mod n)"

definition check_dup :: "bytes \<Rightarrow> 'a net_state_scheme \<Rightarrow> bool \<times> 'a net_state_scheme" where
  "check_dup data s =
     (let n = length data;
          val = sys_get_be32 (drop (n - 4) data) XOR sys_get_be32 (drop (n - 8) data) in
      if val \<in> set (dup_cache s) then (True, s)
      else let (c, nx) = ring_put (length (dup_cache s)) val (dup_cache s, dup_cache_next s) in
           (False, s\<lparr>dup_cache := c, dup_cache_next := nx\<rparr>))"

text \<open>An entry has 15 bits of the source address and 17 bits of the sequence number.\<close>

definition msg_cache_entry :: "u16 \<Rightarrow> u32 \<Rightarrow> u16 \<times> u32" where
  "msg_cache_entry src sq = (take_bit 15 src, take_bit 17 sq)"

definition msg_cache_match :: "bytes \<Rightarrow> 'a net_state_scheme \<Rightarrow> bool" where
  "msg_cache_match pdu s \<longleftrightarrow> (SRC pdu, take_bit 17 (SEQ pdu)) \<in> set (msg_cache s)"

definition msg_cache_add :: "bt_mesh_net_rx \<Rightarrow> 'a net_state_scheme \<Rightarrow> bt_mesh_net_rx \<times> 'a net_state_scheme" where
  "msg_cache_add rx s =
     (let (c, nx) = ring_put (length (msg_cache s)) (msg_cache_entry (ctx_addr (rx_ctx rx)) (rx_seq rx))
                      (msg_cache s, msg_cache_next s) in
      (rx\<lparr>rx_msg_cache_idx := of_nat (msg_cache_next s)\<rparr>, s\<lparr>msg_cache := c, msg_cache_next := nx\<rparr>))"

section \<open>The IV update procedure\<close>

definition BT_MESH_NET_IVI_TX :: "'a bt_mesh_net_scheme \<Rightarrow> u32" where
  "BT_MESH_NET_IVI_TX s = bm_iv_index s - of_bool (flags s BT_MESH_IVU_IN_PROGRESS)"

definition BT_MESH_NET_IVI_RX :: "bt_mesh_net_rx \<Rightarrow> 'a bt_mesh_net_scheme \<Rightarrow> u32" where
  "BT_MESH_NET_IVI_RX rx s = bm_iv_index s - of_bool (rx_old_iv rx)"

text \<open>\<^verbatim>\<open>BT_MESH_KEY_REFRESH(flags)\<close> and \<^verbatim>\<open>BT_MESH_IV_UPDATE(flags)\<close>: the two bits of a flags octet.\<close>

definition BT_MESH_KEY_REFRESH :: "u8 \<Rightarrow> bool" where "BT_MESH_KEY_REFRESH fl \<longleftrightarrow> bit fl 0"
definition BT_MESH_IV_UPDATE :: "u8 \<Rightarrow> bool" where "BT_MESH_IV_UPDATE fl \<longleftrightarrow> bit fl 1"

definition bt_mesh_net_create ::
    "'s net_env \<Rightarrow> u16 \<Rightarrow> u8 \<Rightarrow> bytes \<Rightarrow> u32 \<Rightarrow> 'a net_state_scheme \<Rightarrow> errno option \<times> 'a net_state_scheme" where
  "bt_mesh_net_create env idx fl key iv_index s =
     (case (if BT_MESH_KEY_REFRESH fl then bt_mesh_subnet_set (ne_tc env) idx BT_MESH_KR_PHASE_2 None (Some key) s
            else bt_mesh_subnet_set (ne_tc env) idx BT_MESH_KR_NORMAL (Some key) None s) of
        (Some err, s) \<Rightarrow> (Some err, s)
      | (None, s) \<Rightarrow>
          let s = s\<lparr>msg_cache := replicate (length (msg_cache s)) (0, 0), msg_cache_next := 0, bm_iv_index := iv_index\<rparr>;
              s = set_flag_to BT_MESH_IVU_IN_PROGRESS (BT_MESH_IV_UPDATE fl) s;
              s = s\<lparr>bm_ivu_duration := BT_MESH_IVU_MIN_HOURS\<rparr> in
          (None, bt_mesh_store_iv False (bt_mesh_store_subnet idx (bt_mesh_store_net s))))"

text \<open>From the label \<^verbatim>\<open>do_update\<close> on.\<close>

definition iv_do_update ::
    "'s net_env \<Rightarrow> u32 \<Rightarrow> bool \<Rightarrow> 'a net_state_scheme \<Rightarrow> 'a net_state_scheme" where
  "iv_do_update env iv_index iv_update s =
     (let s = set_flag_to BT_MESH_IVU_IN_PROGRESS iv_update s;
          s = s\<lparr>bm_ivu_duration := 0\<rparr>;
          s = (if iv_update then bt_mesh_rpl_reset (s\<lparr>bm_iv_index := iv_index\<rparr>) else s\<lparr>bm_seq := 0\<rparr>);
          s = s\<lparr>ivu_timer := Some BT_MESH_IVU_TIMEOUT\<rparr>;
          s = (if ne_friend env then peer_call (Friend_Sec_Update BT_MESH_KEY_ANY) s else s);
          s = (if ne_gatt_proxy env \<and> bt_mesh_gatt_proxy_get env s = BT_MESH_FEATURE_ENABLED
               then peer_call Proxy_Beacon_Send s else s);
          s = snd (bt_mesh_subnet_foreach (bt_mesh_beacon_update (ne_tc env)) s);
          s = (if ne_cdb env then peer_call (Cdb_Iv_Update iv_index iv_update) s else s) in
      bt_mesh_store_iv False s)"

text \<open>The test mode \<^verbatim>\<open>CONFIG_BT_MESH_IV_UPDATE_TEST\<close> is not compiled in.\<close>

definition bt_mesh_net_iv_update ::
    "'a net_state_scheme net_env \<Rightarrow> u32 \<Rightarrow> bool \<Rightarrow> 'a net_state_scheme \<Rightarrow> bool \<times> 'a net_state_scheme" where
  "bt_mesh_net_iv_update env iv_index iv_update s =
     (let late = (if bm_ivu_duration s < BT_MESH_IVU_MIN_HOURS then (False, s)
                  else if \<not> iv_update \<and> ne_tx_in_progress env s then (False, set_flag BT_MESH_IVU_PENDING s)
                  else (True, iv_do_update env iv_index iv_update s)) in
      if flags s BT_MESH_IVU_IN_PROGRESS then
        (if iv_index \<noteq> bm_iv_index s then (False, s)
         else if iv_update then (False, s)
         else late)
      else
        (if iv_index = bm_iv_index s then (False, s)
         else if iv_index < bm_iv_index s \<or> iv_index > bm_iv_index s + 42 then (False, s)
         else if iv_index > bm_iv_index s + 1 then
           (True, iv_do_update env iv_index iv_update
                    ((bt_mesh_rpl_clear s)\<lparr>bm_iv_index := iv_index, bm_seq := 0\<rparr>))
         else if iv_index = bm_iv_index s + 1 \<and> \<not> iv_update then (False, s)
         else if \<not> iv_update then (False, s)
         else late))"

definition bt_mesh_next_seq ::
    "'a net_state_scheme net_env \<Rightarrow> 'a net_state_scheme \<Rightarrow> u32 \<times> 'a net_state_scheme" where
  "bt_mesh_next_seq env s =
     (let sq = bm_seq s;
          s = s\<lparr>bm_seq := bm_seq s + 1\<rparr>;
          s = bt_mesh_store_seq (bm_seq s) s in
      (sq, if \<not> flags s BT_MESH_IVU_IN_PROGRESS \<and> bm_seq s > IV_UPDATE_SEQ_LIMIT
              \<and> bt_mesh_subnet_get BT_MESH_KEY_PRIMARY s \<noteq> None
           then snd (bt_mesh_net_iv_update env (bm_iv_index s + 1) True (bt_mesh_beacon_ivu_initiator True s))
           else s))"

definition ivu_refresh :: "'a net_state_scheme net_env \<Rightarrow> 'a net_state_scheme \<Rightarrow> 'a net_state_scheme" where
  "ivu_refresh env s =
     (let s = s\<lparr>bm_ivu_duration := bm_ivu_duration s + BT_MESH_IVU_HOURS, ivu_timer := None\<rparr> in
      if bm_ivu_duration s < BT_MESH_IVU_MIN_HOURS then
        (bt_mesh_store_iv True s)\<lparr>ivu_timer := Some BT_MESH_IVU_TIMEOUT\<rparr>
      else if flags s BT_MESH_IVU_IN_PROGRESS then
        snd (bt_mesh_net_iv_update env (bm_iv_index s) False (bt_mesh_beacon_ivu_initiator True s))
      else bt_mesh_store_iv True s)"

section \<open>Sending\<close>

text \<open>\<^verbatim>\<open>CONFIG_BT_MESH_LOW_POWER\<close> is not compiled in: the credentials are always those of the subnet.\<close>

definition net_tx_cred_get ::
    "bt_mesh_net_tx \<Rightarrow> 'a mesh_state_scheme \<Rightarrow> bt_mesh_net_cred \<times> bt_mesh_net_tx" where
  "net_tx_cred_get tx s =
     (let sub = subnets s ! tx_sub tx in
      (sk_msg (sub_keys sub ! SUBNET_KEY_TX_IDX sub), tx\<lparr>tx_friend_cred := False\<rparr>))"

definition net_header_encode ::
    "'a net_state_scheme net_env \<Rightarrow> bt_mesh_net_tx \<Rightarrow> u8 \<Rightarrow> net_buf_simple \<Rightarrow> 'a net_state_scheme \<Rightarrow>
     ((errno + net_buf_simple) \<times> 'a net_state_scheme) option" where
  "net_header_encode env tx nid buf s =
     (let ctl = (ctx_app_idx (tx_ctx tx) = BT_MESH_KEY_UNUSED) in
      if ctl \<and> net_buf_simple_tailroom buf < 8 then Some (Inl EINVAL, s)
      else if net_buf_simple_tailroom buf < 4 then Some (Inl EINVAL, s)
      else do {
        buf \<leftarrow> net_buf_simple_push_be16 buf (ctx_addr (tx_ctx tx));
        buf \<leftarrow> net_buf_simple_push_be16 buf (tx_src tx);
        let (sq, s) = bt_mesh_next_seq env s;
        buf \<leftarrow> net_buf_simple_push_be24 buf sq;
        buf \<leftarrow> net_buf_simple_push_u8 buf
                 (if ctl then ctx_send_ttl (tx_ctx tx) OR 0x80 else ctx_send_ttl (tx_ctx tx));
        buf \<leftarrow> net_buf_simple_push_u8 buf (nid OR push_bit 7 (ucast (BT_MESH_NET_IVI_TX s AND 1)));
        Some (Inr buf, s) })"

definition net_encrypt ::
    "tinycrypt \<Rightarrow> net_buf_simple \<Rightarrow> bt_mesh_net_cred \<Rightarrow> u32 \<Rightarrow> bool \<Rightarrow> (errno + net_buf_simple) option" where
  "net_encrypt tc buf cred iv_index proxy =
     (case bt_mesh_net_encrypt tc (nc_enc cred) buf iv_index proxy of
        None \<Rightarrow> None
      | Some (Inl err) \<Rightarrow> Some (Inl err)
      | Some (Inr buf) \<Rightarrow>
          Some (ebind (bt_mesh_net_obfuscate tc (nb_data buf) iv_index (nc_privacy cred))
                  (\<lambda>d. Inr (nb_write buf (nb_off buf) d))))"

definition bt_mesh_net_encode ::
    "'a net_state_scheme net_env \<Rightarrow> bt_mesh_net_tx \<Rightarrow> net_buf_simple \<Rightarrow> bool \<Rightarrow> 'a net_state_scheme \<Rightarrow>
     ((errno + net_buf_simple) \<times> 'a net_state_scheme) option" where
  "bt_mesh_net_encode env tx buf proxy s =
     (let (cred, tx) = net_tx_cred_get tx s in
      case net_header_encode env tx (nc_nid cred) buf s of
        None \<Rightarrow> None
      | Some (Inl err, s) \<Rightarrow> Some (Inl err, s)
      | Some (Inr buf, s) \<Rightarrow>
          map_option (\<lambda>r. (r, s)) (net_encrypt (ne_tc env) buf cred (BT_MESH_NET_IVI_TX s) proxy))"

text \<open>The loopback buffers have room for \<open>LOOPBACK_MAX_PDU_LEN\<close> bytes.\<close>

definition loopback ::
    "bt_mesh_net_tx \<Rightarrow> bytes \<Rightarrow> 'a net_state_scheme \<Rightarrow> (errno option \<times> 'a net_state_scheme) option" where
  "loopback tx data s =
     (if length (bm_local_queue s) + loopback_busy s \<ge> CONFIG_BT_MESH_LOOPBACK_BUFS then Some (Some ENOMEM, s)
      else if length data > LOOPBACK_MAX_PDU_LEN then None
      else Some (None, s\<lparr>bm_local_queue := bm_local_queue s @ [(tx_sub tx, data)], local_work := True\<rparr>))"

text \<open>What follows the delivery to the local interface, up to the label \<^verbatim>\<open>done\<close>.\<close>

definition net_send_out ::
    "'a net_state_scheme net_env \<Rightarrow> bt_mesh_net_tx \<Rightarrow> bt_mesh_net_cred \<Rightarrow> adv_buf \<Rightarrow> send_cb option \<Rightarrow>
     'a net_state_scheme \<Rightarrow> (errno option \<times> 'a net_state_scheme) option" where
  "net_send_out env tx cred buf cb s =
     (if ctx_send_ttl (tx_ctx tx) = 1 then Some (Some EINVAL, net_buf_unref s)
      else case net_encrypt (ne_tc env) (ab_b buf) cred (BT_MESH_NET_IVI_TX s) False of
        None \<Rightarrow> None
      | Some (Inl err) \<Rightarrow> Some (Some err, net_buf_unref s)
      | Some (Inr b) \<Rightarrow>
          let addr = ctx_addr (tx_ctx tx);
              relayed = (ne_gatt_proxy env \<and> ne_proxy_relay env (nb_data b) addr s);
              s = (if ne_gatt_proxy env then peer_call (Proxy_Relay (nb_data b) addr) s else s) in
          if relayed \<and> BT_MESH_ADDR_IS_UNICAST addr
          then Some (None, net_buf_unref (send_cb_finalize (ne_cbs env) cb s))
          else Some (None, bt_mesh_adv_send (buf\<lparr>ab_b := b\<rparr>) cb s))"

definition bt_mesh_net_send ::
    "'a net_state_scheme net_env \<Rightarrow> bt_mesh_net_tx \<Rightarrow> adv_buf \<Rightarrow> send_cb option \<Rightarrow> 'a net_state_scheme \<Rightarrow>
     (errno option \<times> 'a net_state_scheme) option" where
  "bt_mesh_net_send env tx buf cb s =
     (let (cred, tx) = net_tx_cred_get tx s; addr = ctx_addr (tx_ctx tx) in
      case net_header_encode env tx (nc_nid cred) (ab_b buf) s of
        None \<Rightarrow> None
      | Some (Inl err, s) \<Rightarrow> Some (Some err, net_buf_unref s)
      | Some (Inr b, s) \<Rightarrow>
          if bt_mesh_fixed_group_match env addr s \<or> ne_elem_find env addr then
            (case loopback tx (nb_data b) s of
               None \<Rightarrow> None
             | Some (err, s) \<Rightarrow>
                 if BT_MESH_ADDR_IS_UNICAST addr \<or> ctx_send_ttl (tx_ctx tx) = 1 then
                   Some (err, net_buf_unref (if err = None then send_cb_finalize (ne_cbs env) cb s else s))
                 else net_send_out env tx cred (buf\<lparr>ab_b := b\<rparr>) cb s)
          else net_send_out env tx cred (buf\<lparr>ab_b := b\<rparr>) cb s)"

section \<open>Receiving\<close>

text \<open>
  The callback of \<^verbatim>\<open>bt_mesh_net_cred_find\<close>. The output buffer is \<open>None\<close> when the assertion of
  \<^verbatim>\<open>net_buf_simple_add_mem\<close> fails; the search ends there.
\<close>

definition net_decrypt ::
    "'a net_state_scheme net_env \<Rightarrow> bytes \<Rightarrow> 'a net_state_scheme \<Rightarrow> bt_mesh_net_rx \<Rightarrow> net_buf_simple option \<Rightarrow>
     bt_mesh_net_cred \<Rightarrow> bool \<times> bt_mesh_net_rx \<times> net_buf_simple option" where
  "net_decrypt env din s rx out cred =
     (let proxy = (rx_net_if rx = BT_MESH_NET_IF_PROXY_CFG) in
      if NID din \<noteq> nc_nid cred then (False, rx, out)
      else
        let rx = rx\<lparr>rx_old_iv := (IVI din \<noteq> bit (bm_iv_index s) 0)\<rparr> in
        case Option.bind out (\<lambda>out. net_buf_simple_add_mem (net_buf_simple_reset out) din) of
          None \<Rightarrow> (True, rx, None)
        | Some out \<Rightarrow>
            (case bt_mesh_net_obfuscate (ne_tc env) (nb_data out) (BT_MESH_NET_IVI_RX rx s) (nc_privacy cred) of
               Inl _ \<Rightarrow> (False, rx, Some out)
             | Inr d \<Rightarrow>
                 let out = nb_write out (nb_off out) d;
                     rx = rx\<lparr>rx_ctx := (rx_ctx rx)\<lparr>ctx_addr := SRC d\<rparr>\<rparr> in
                 if \<not> BT_MESH_ADDR_IS_UNICAST (SRC d) then (False, rx, Some out)
                 else if ne_elem_find env (SRC d) then (False, rx, Some out)
                 else if rx_net_if rx = BT_MESH_NET_IF_ADV \<and> msg_cache_match d s then (False, rx, Some out)
                 else case bt_mesh_net_decrypt (ne_tc env) (nc_enc cred) out (BT_MESH_NET_IVI_RX rx s) proxy of
                        Inl _ \<Rightarrow> (False, rx, Some out)
                      | Inr out \<Rightarrow> (True, rx, Some out)))"

text \<open>The fields that \<^verbatim>\<open>bt_mesh_net_decode\<close> sets once the PDU is decrypted.\<close>

definition rx_fields :: "bytes \<Rightarrow> bt_mesh_net_rx \<Rightarrow> bt_mesh_net_rx" where
  "rx_fields d rx =
     rx\<lparr>rx_ctx := (rx_ctx rx)\<lparr>ctx_app_idx := BT_MESH_KEY_UNUSED, ctx_recv_ttl := TTL d,
                    ctx_send_ttl := (if TTL d = 0 then 0 else BT_MESH_TTL_DEFAULT), ctx_recv_dst := DST d\<rparr>,
        rx_ctl := CTL d, rx_seq := SEQ d\<rparr>"

definition bt_mesh_net_header_parse :: "bytes \<Rightarrow> bt_mesh_net_rx \<Rightarrow> 'a bt_mesh_net_scheme \<Rightarrow> bt_mesh_net_rx" where
  "bt_mesh_net_header_parse d rx s =
     rx\<lparr>rx_old_iv := (IVI d \<noteq> bit (bm_iv_index s) 0), rx_ctl := CTL d, rx_seq := SEQ d,
        rx_ctx := (rx_ctx rx)\<lparr>ctx_recv_ttl := TTL d, ctx_addr := SRC d, ctx_recv_dst := DST d\<rparr>\<rparr>"

definition bt_mesh_net_decode ::
    "'a net_state_scheme net_env \<Rightarrow> bytes \<Rightarrow> bt_mesh_net_if \<Rightarrow> bt_mesh_net_rx \<Rightarrow> net_buf_simple \<Rightarrow>
     'a net_state_scheme \<Rightarrow> ((errno + bt_mesh_net_rx \<times> net_buf_simple) \<times> 'a net_state_scheme) option" where
  "bt_mesh_net_decode env din net_if rx out s =
     (if length din < BT_MESH_NET_MIN_PDU_LEN then Some (Inl EINVAL, s)
      else
        case (if net_if = BT_MESH_NET_IF_ADV then check_dup din s else (False, s)) of
          (True, s) \<Rightarrow> Some (Inl EINVAL, s)
        | (False, s) \<Rightarrow>
            (case bt_mesh_net_cred_find (ne_frnd env s) (net_decrypt env din s) s
                    (rx\<lparr>rx_net_if := net_if\<rparr>) (Some out) of
               None \<Rightarrow> Some (Inl ENOENT, s)
             | Some (rx, None) \<Rightarrow> None
             | Some (rx, Some out) \<Rightarrow>
                 let rx = rx_fields (nb_data out) rx in
                 if net_if \<noteq> BT_MESH_NET_IF_PROXY_CFG \<and> ctx_recv_dst (rx_ctx rx) = BT_MESH_ADDR_UNASSIGNED
                 then Some (Inl EBADMSG, s)
                 else let (rx, s) = msg_cache_add rx s in Some (Inr (rx, out), s)))"

definition relay_to_adv :: "'s net_env \<Rightarrow> bt_mesh_net_if \<Rightarrow> 'a mesh_sched_scheme \<Rightarrow> bool" where
  "relay_to_adv env net_if s =
     (case net_if of
        BT_MESH_NET_IF_ADV \<Rightarrow> bt_mesh_relay_get s = BT_MESH_FEATURE_ENABLED
      | BT_MESH_NET_IF_PROXY \<Rightarrow> bt_mesh_gatt_proxy_get env s = BT_MESH_FEATURE_ENABLED
      | _ \<Rightarrow> False)"

text \<open>The header of the relayed PDU: the TTL counted down, the NID of the subnet after friend credentials.\<close>

definition relay_header :: "bt_mesh_net_rx \<Rightarrow> bt_mesh_net_cred \<Rightarrow> bytes \<Rightarrow> bytes" where
  "relay_header rx cred d =
     (let d = d[1 := (d ! 1 AND 0x80) OR (ctx_recv_ttl (rx_ctx rx) - 1)] in
      if rx_friend_cred rx then d[0 := (d ! 0 AND 0x80) OR nc_nid cred] else d)"

definition bt_mesh_net_relay ::
    "'a net_state_scheme net_env \<Rightarrow> net_buf_simple \<Rightarrow> bt_mesh_net_rx \<Rightarrow> 'a net_state_scheme \<Rightarrow>
     'a net_state_scheme option" where
  "bt_mesh_net_relay env sbuf rx s =
     (if ctx_recv_ttl (rx_ctx rx) \<le> 1 then Some s
      else if rx_net_if rx = BT_MESH_NET_IF_ADV \<and> \<not> rx_friend_cred rx
              \<and> bt_mesh_relay_get s \<noteq> BT_MESH_FEATURE_ENABLED
              \<and> bt_mesh_gatt_proxy_get env s \<noteq> BT_MESH_FEATURE_ENABLED then Some s
      else
        let transmit = (if rx_net_if rx = BT_MESH_NET_IF_ADV \<and> \<not> rx_friend_cred rx
                        then bt_mesh_relay_retransmit_get s else bt_mesh_net_transmit_get s) in
        case bt_mesh_adv_create BT_MESH_ADV_DATA transmit s of
          None \<Rightarrow> Some s
        | Some (buf, s) \<Rightarrow>
            let sub = subnets s ! the (rx_sub rx);
                cred = sk_msg (sub_keys sub ! SUBNET_KEY_TX_IDX sub) in
            (case net_buf_simple_add_mem (ab_b buf) (relay_header rx cred (nb_data sbuf)) of
               None \<Rightarrow> None
             | Some b \<Rightarrow>
                 (case net_encrypt (ne_tc env) b cred (BT_MESH_NET_IVI_RX rx s) False of
                    None \<Rightarrow> None
                  | Some (Inl _) \<Rightarrow> Some (net_buf_unref s)
                  | Some (Inr b) \<Rightarrow>
                      let s = (if ne_gatt_proxy env \<and> (rx_friend_cred rx \<or>
                                   bt_mesh_gatt_proxy_get env s = BT_MESH_FEATURE_ENABLED)
                               then peer_call (Proxy_Relay (nb_data b) (ctx_recv_dst (rx_ctx rx))) s else s) in
                      Some (if relay_to_adv env (rx_net_if rx) s \<or> rx_friend_cred rx
                            then bt_mesh_adv_send (buf\<lparr>ab_b := b\<rparr>) None s else net_buf_unref s))))"

text \<open>
  \<open>trans_recv\<close> is \<^verbatim>\<open>bt_mesh_trans_recv\<close> of transport.c: it gives its return value, the reception context as
  it leaves it, and the state.
\<close>

type_synonym 's trans_recv =
  "net_buf_simple \<Rightarrow> bt_mesh_net_rx \<Rightarrow> int \<Rightarrow> 's \<Rightarrow> (errno option \<times> bt_mesh_net_rx \<times> 's) option"

definition bt_mesh_is_provisioned :: "'a mesh_sched_scheme \<Rightarrow> bool" where
  "bt_mesh_is_provisioned s = flags s BT_MESH_VALID"

definition bt_mesh_net_recv ::
    "'a net_state_scheme net_env \<Rightarrow> 'a net_state_scheme trans_recv \<Rightarrow> bytes \<Rightarrow> int \<Rightarrow> bt_mesh_net_if \<Rightarrow>
     'a net_state_scheme \<Rightarrow> 'a net_state_scheme option" where
  "bt_mesh_net_recv env trans_recv data rssi net_if s =
     (if \<not> bt_mesh_is_provisioned s then Some s
      else
        case bt_mesh_net_decode env data net_if (empty_rx\<lparr>rx_ctx := empty_ctx\<lparr>ctx_recv_rssi := rssi\<rparr>\<rparr>)
               (NET_BUF_SIMPLE_DEFINE (ne_stack env)) s of
          None \<Rightarrow> None
        | Some (Inl _, s) \<Rightarrow> Some s
        | Some (Inr (rx, buf), s) \<Rightarrow>
            let dst = ctx_recv_dst (rx_ctx rx);
                rx = rx\<lparr>rx_local_match := bt_mesh_fixed_group_match env dst s \<or> ne_elem_find env dst\<rparr>;
                s = (if ne_gatt_proxy env \<and> net_if = BT_MESH_NET_IF_PROXY
                     then peer_call (Proxy_Addr_Add (ctx_addr (rx_ctx rx))) s else s) in
            if ne_gatt_proxy env \<and> net_if = BT_MESH_NET_IF_PROXY
               \<and> bt_mesh_gatt_proxy_get env s = BT_MESH_FEATURE_DISABLED \<and> \<not> rx_local_match rx
            then Some s
            else case trans_recv buf rx rssi s of
              None \<Rightarrow> None
            | Some (err, rx, s) \<Rightarrow>
                let s = (if err = Some EAGAIN
                         then s\<lparr>msg_cache := (msg_cache s)[unat (rx_msg_cache_idx rx) :=
                                  (BT_MESH_ADDR_UNASSIGNED, snd (msg_cache s ! unat (rx_msg_cache_idx rx)))],
                                msg_cache_next := unat (rx_msg_cache_idx rx)\<rparr>
                         else s) in
                if \<not> BT_MESH_ADDR_IS_UNICAST (ctx_recv_dst (rx_ctx rx))
                   \<or> (\<not> rx_local_match rx \<and> \<not> rx_friend_match rx)
                then bt_mesh_net_relay env buf rx s else Some s)"

section \<open>The local interface\<close>

definition net_local_rx :: "nat \<Rightarrow> bytes \<Rightarrow> 'a mesh_state_scheme \<Rightarrow> bt_mesh_net_rx" where
  "net_local_rx sub d s =
     \<lparr>rx_sub = Some sub,
      rx_ctx = \<lparr>ctx_net_idx = sub_net_idx (subnets s ! sub), ctx_app_idx = BT_MESH_KEY_UNUSED, ctx_addr = SRC d,
        ctx_recv_dst = DST d, ctx_recv_rssi = 0, ctx_recv_ttl = TTL d, ctx_send_rel = False, ctx_send_ttl = 1\<rparr>,
      rx_seq = SEQ d, rx_old_iv = (IVI d \<noteq> bit (bm_iv_index s) 0),
      rx_new_key = (SUBNET_KEY_TX_IDX (subnets s ! sub) = 1), rx_friend_cred = False, rx_ctl = CTL d,
      rx_net_if = BT_MESH_NET_IF_LOCAL, rx_local_match = True, rx_friend_match = False, rx_msg_cache_idx = 0\<rparr>"

text \<open>
  The loop runs until the queue is empty. A received message may be answered to a local element and so fill
  the queue again: nothing bounds the number of rounds, and \<open>None\<close> also stands for a loop that does not end.
\<close>

partial_function (option) bt_mesh_net_local ::
    "'a net_state_scheme trans_recv \<Rightarrow> 'a net_state_scheme \<Rightarrow> 'a net_state_scheme option" where
  "bt_mesh_net_local trans_recv s =
     (case bm_local_queue s of
        [] \<Rightarrow> Some s
      | (sub, d) # q \<Rightarrow>
          Option.bind (trans_recv (net_buf_simple_init_with_data d) (net_local_rx sub d s) 0
                         (s\<lparr>bm_local_queue := q, loopback_busy := loopback_busy s + 1\<rparr>))
            (\<lambda>(err, rx, s). bt_mesh_net_local trans_recv (s\<lparr>loopback_busy := loopback_busy s - 1\<rparr>)))"

section \<open>The state at boot\<close>

text \<open>
  What the static initialisers give, before \<^verbatim>\<open>bt_mesh_init\<close>: \<open>store\<close> is the content of the flash, \<open>n\<close> the
  number of slots of the replay protection list. The key tables have two slots each.
\<close>

definition net_boot :: "nat \<Rightarrow> settings_store \<Rightarrow> net_state" where
  "net_boot n store =
     \<lparr>flags = (\<lambda>_. False), pending_store = None, replay_list = replicate n rpl_zero,
      bm_iv_index = 0, bm_seq = 0, bm_local_queue = [], bm_ivu_duration = 0, bm_net_xmit = 0, bm_relay_xmit = 0,
      bm_default_ttl = 0, bm_dev_key = replicate 16 0,
      subnets = [unused_subnet, unused_subnet], apps = [unused_app_key, unused_app_key],
      key_updates = replicate 4 \<lparr>ku_key_idx = 0, ku_valid = False, ku_app_key = False, ku_clear = False\<rparr>,
      flash = store, adv_used = 0, adv_mem = replicate BT_MESH_ADV_DATA_SIZE 0, adv_queue = [], adv_current = None,
      msg_cache = replicate CONFIG_BT_MESH_MSG_CACHE_SIZE (0, 0), msg_cache_next = 0,
      dup_cache = replicate CONFIG_BT_MESH_MSG_CACHE_SIZE 0, dup_cache_next = 0,
      loopback_busy = 0, local_work = False, ivu_timer = None, beacon_timer = None, peer_calls = []\<rparr>"

end
