(* ===== verification/Net_Pdu.thy ===== *)
theory Net_Pdu
  imports Net
begin

text \<open>
  Network PDUs: the header that \<^verbatim>\<open>net_header_encode\<close> writes and the fields that the receiver reads from it,
  the round trip from \<^verbatim>\<open>bt_mesh_net_encode\<close> to \<^verbatim>\<open>bt_mesh_net_decode\<close>, what a relay does to a PDU, and the
  PDUs that do not fit the receive buffer.
\<close>

section \<open>The header\<close>

definition net_hdr :: "u8 \<Rightarrow> bool \<Rightarrow> bool \<Rightarrow> u8 \<Rightarrow> u32 \<Rightarrow> u16 \<Rightarrow> u16 \<Rightarrow> bytes" where
  "net_hdr nid ivi ctl ttl sq src dst =
     (nid OR (if ivi then 0x80 else 0)) # (if ctl then ttl OR 0x80 else ttl) # sys_put_be24 sq @ sys_put_be16 src
       @ sys_put_be16 dst"

lemma length_net_hdr [simp]: "length (net_hdr nid ivi ctl ttl sq src dst) = 9"
  by (simp add: net_hdr_def sys_put_be24_def sys_put_be16_def)

text \<open>The octets of the header have a flag in bit 7 and a number below it.\<close>

lemma octet_mix:
  assumes "y < (0x80 :: u8)"
  shows "drop_bit 7 ((x AND 0x80) OR y) = drop_bit 7 x" "((x AND 0x80) OR y) AND 0x7f = y"
    "((x AND 0x80) OR y) AND 0x80 = x AND 0x80"
proof -
  define c m :: u8 where "c = 0x80" and "m = 0x7f"
  have c: "bit c k \<longleftrightarrow> k = 7" for k
  proof -
    have "c = 2 ^ 7" by (simp add: c_def)
    then show ?thesis by (auto simp del: power_numeral simp: bit_exp_iff possible_bit_def)
  qed
  have m: "bit m k \<longleftrightarrow> k < 7" for k
  proof -
    have "m = mask 7" by (simp add: m_def mask_eq_exp_minus_1)
    then show ?thesis by (auto simp: bit_mask_iff)
  qed
  have n: "\<not> bit y k" if "7 \<le> k" for k
  proof -
    have "take_bit 7 y = y" using assms by (intro take_bit_word_id) simp_all
    then show ?thesis using that by (metis bit_take_bit_iff not_le)
  qed
  have "drop_bit 7 ((x AND c) OR y) = drop_bit 7 x" "((x AND c) OR y) AND m = y" "((x AND c) OR y) AND c = x AND c"
    by (rule bit_word_eqI; use n c m in \<open>auto simp: bit_simps intro: ccontr\<close>)+
  then show "drop_bit 7 ((x AND 0x80) OR y) = drop_bit 7 x" "((x AND 0x80) OR y) AND 0x7f = y"
    "((x AND 0x80) OR y) AND 0x80 = x AND 0x80" by (simp_all only: c_def m_def)
qed

lemma or_0x80:
  assumes "x < (0x80 :: u8)"
  shows "drop_bit 7 (x OR 0x80) = 1" "(x OR 0x80) AND 0x7f = x" "(x OR 0x80) AND 0x80 \<noteq> 0"
    "drop_bit 7 x = 0" "x AND 0x7f = x" "x AND 0x80 = 0"
  using octet_mix [OF assms, where x = "0x80"] octet_mix [OF assms, where x = "0"] by (simp_all add: or.commute)

lemma net_hdr_fields:
  assumes "nid < 0x80" "ttl < 0x80" "sq < 2 ^ 24"
  shows "IVI (net_hdr nid ivi ctl ttl sq src dst @ d) = ivi" "NID (net_hdr nid ivi ctl ttl sq src dst @ d) = nid"
    "CTL (net_hdr nid ivi ctl ttl sq src dst @ d) = ctl" "TTL (net_hdr nid ivi ctl ttl sq src dst @ d) = ttl"
    "SEQ (net_hdr nid ivi ctl ttl sq src dst @ d) = sq" "SRC (net_hdr nid ivi ctl ttl sq src dst @ d) = src"
    "DST (net_hdr nid ivi ctl ttl sq src dst @ d) = dst"
  using or_0x80 [OF assms(1)] or_0x80 [OF assms(2)] take_bit_word_id [OF _ assms(3)]
  by (auto simp: pdu_fields net_hdr_def)

lemma ivi_octet: "push_bit 7 (ucast (iv AND 1 :: u32) :: u8) = (if bit iv 0 then 0x80 else 0)"
proof -
  have "iv AND 1 = of_bool (bit iv 0)" by (simp add: and_one_eq mod_2_eq_odd bit_0)
  then show ?thesis by simp
qed

lemma nb_push_ex:
  assumes "nb_invar b" "length bs \<le> nb_off b"
  obtains b' where "nb_push_mem b bs = Some b'" "nb_invar b'" "nb_data b' = bs @ nb_data b"
    "net_buf_simple_tailroom b' = net_buf_simple_tailroom b" "nb_off b' + length bs = nb_off b"
proof -
  have "length bs \<le> net_buf_simple_headroom b" using assms(2) by (simp add: net_buf_simple_headroom_def)
  then obtain b' where b': "nb_push_mem b bs = Some b'" using nb.push_Some [of bs b] by blast
  show ?thesis using that [OF b'] nb.push_content [OF assms(1) b'] by (simp add: net_buf_simple_headroom_def)
qed

lemma net_header_encode_eq:
  assumes "nb_invar buf" "9 \<le> net_buf_simple_headroom buf"
    and "(if ctx_app_idx (tx_ctx tx) = BT_MESH_KEY_UNUSED then 8 else 4) \<le> net_buf_simple_tailroom buf"
  shows "\<exists>b. net_header_encode env tx nid buf s = Some (Inr b, snd (bt_mesh_next_seq env s)) \<and> nb_invar b \<and>
    nb_data b = net_hdr nid (bit (BT_MESH_NET_IVI_TX (snd (bt_mesh_next_seq env s))) 0)
      (ctx_app_idx (tx_ctx tx) = BT_MESH_KEY_UNUSED) (ctx_send_ttl (tx_ctx tx)) (bm_seq s) (tx_src tx) (ctx_addr (tx_ctx tx))
      @ nb_data buf \<and> net_buf_simple_tailroom b = net_buf_simple_tailroom buf \<and> nb_off b + 9 = nb_off buf"
proof -
  let ?s = "snd (bt_mesh_next_seq env s)"
  have sq: "fst (bt_mesh_next_seq env s) = bm_seq s" by (simp add: bt_mesh_next_seq_def Let_def)
  let ?ttl = "if ctx_app_idx (tx_ctx tx) = BT_MESH_KEY_UNUSED then ctx_send_ttl (tx_ctx tx) OR 0x80 else ctx_send_ttl (tx_ctx tx)"
  have h: "9 \<le> nb_off buf" using assms(2) by (simp add: net_buf_simple_headroom_def)
  obtain b1 where b1: "nb_push_mem buf (sys_put_be16 (ctx_addr (tx_ctx tx))) = Some b1" "nb_invar b1"
    "nb_data b1 = sys_put_be16 (ctx_addr (tx_ctx tx)) @ nb_data buf"
    "net_buf_simple_tailroom b1 = net_buf_simple_tailroom buf" "nb_off b1 + 2 = nb_off buf"
    by (rule nb_push_ex [OF assms(1), of "sys_put_be16 (ctx_addr (tx_ctx tx))"]) (use h in simp_all)
  obtain b2 where b2: "nb_push_mem b1 (sys_put_be16 (tx_src tx)) = Some b2" "nb_invar b2"
    "nb_data b2 = sys_put_be16 (tx_src tx) @ nb_data b1"
    "net_buf_simple_tailroom b2 = net_buf_simple_tailroom b1" "nb_off b2 + 2 = nb_off b1"
    by (rule nb_push_ex [OF b1(2), of "sys_put_be16 (tx_src tx)"]) (use h b1(5) in simp_all)
  obtain b3 where b3: "nb_push_mem b2 (sys_put_be24 (bm_seq s)) = Some b3" "nb_invar b3"
    "nb_data b3 = sys_put_be24 (bm_seq s) @ nb_data b2"
    "net_buf_simple_tailroom b3 = net_buf_simple_tailroom b2" "nb_off b3 + 3 = nb_off b2"
    by (rule nb_push_ex [OF b2(2), of "sys_put_be24 (bm_seq s)"]) (use h b1(5) b2(5) in simp_all)
  obtain b4 where b4: "nb_push_mem b3 [?ttl] = Some b4" "nb_invar b4" "nb_data b4 = [?ttl] @ nb_data b3"
    "net_buf_simple_tailroom b4 = net_buf_simple_tailroom b3" "nb_off b4 + 1 = nb_off b3"
    by (rule nb_push_ex [OF b3(2), of "[?ttl]"]) (use h b1(5) b2(5) b3(5) in simp_all)
  let ?o = "nid OR push_bit 7 (ucast (BT_MESH_NET_IVI_TX ?s AND 1))"
  obtain b5 where b5: "nb_push_mem b4 [?o] = Some b5" "nb_invar b5" "nb_data b5 = [?o] @ nb_data b4"
    "net_buf_simple_tailroom b5 = net_buf_simple_tailroom b4" "nb_off b5 + 1 = nb_off b4"
    by (rule nb_push_ex [OF b4(2), of "[?o]"]) (use h b1(5) b2(5) b3(5) b4(5) in simp_all)
  have "net_header_encode env tx nid buf s = Some (Inr b5, ?s)"
    using assms(3) b1(1) b2(1) b3(1) b4(1) b5(1)
    by (simp add: net_header_encode_def net_buf_simple_push_be16_def net_buf_simple_push_be24_def
        net_buf_simple_push_u8_def sq case_prod_beta split: if_splits)
  moreover have "nb_data b5 = net_hdr nid (bit (BT_MESH_NET_IVI_TX ?s) 0)
      (ctx_app_idx (tx_ctx tx) = BT_MESH_KEY_UNUSED) (ctx_send_ttl (tx_ctx tx)) (bm_seq s) (tx_src tx) (ctx_addr (tx_ctx tx))
      @ nb_data buf"
    by (simp only: b1(3) b2(3) b3(3) b4(3) b5(3) net_hdr_def ivi_octet) simp
  moreover have "net_buf_simple_tailroom b5 = net_buf_simple_tailroom buf" using b1(4) b2(4) b3(4) b4(4) b5(4) by simp
  moreover have "nb_off b5 + 9 = nb_off buf" using b1(5) b2(5) b3(5) b4(5) b5(5) by linarith
  ultimately show ?thesis using b5(2) by blast
qed

section \<open>Sealed PDUs\<close>

text \<open>\<open>net_sealed tc cred iv proxy d p\<close>: \<open>p\<close> is the plain PDU \<open>d\<close> encrypted, authenticated and obfuscated.\<close>

definition net_sealed :: "tinycrypt \<Rightarrow> bt_mesh_net_cred \<Rightarrow> u32 \<Rightarrow> bool \<Rightarrow> bytes \<Rightarrow> bytes \<Rightarrow> bool" where
  "net_sealed tc cred iv proxy d p \<longleftrightarrow>
     bt_mesh_net_obfuscate tc p iv (nc_privacy cred) =
       Inr (take 7 d @ ctr_crypt tc (nc_enc cred) (net_nonce d iv proxy) (drop 7 d)
         @ net_pdu_mic tc (nc_enc cred) d iv proxy) \<and>
     p ! 0 = d ! 0 \<and> length p = length d + NET_MIC_LEN d"

definition cred_ok :: "bt_mesh_net_cred \<Rightarrow> bool" where
  "cred_ok cred \<longleftrightarrow> length (nc_enc cred) = 16 \<and> length (nc_privacy cred) = 16 \<and> nc_nid cred < 0x80"

lemma length_net_pdu_mic [simp]: "length (net_pdu_mic tc key d iv proxy) = NET_MIC_LEN d"
  using net_mic_len [of d] by (auto simp: net_pdu_mic_def length_rfc3610_mic)

lemma net_encrypt_seals:
  assumes ok: "tinycrypt_ok tc" "cred_ok cred" and b: "nb_invar b" "nb_data b = d"
    and len: "10 \<le> length d" "length d < 256" and room: "NET_MIC_LEN d \<le> net_buf_simple_tailroom b"
  shows "\<exists>b'. net_encrypt tc b cred iv proxy = Some (Inr b') \<and> nb_invar b' \<and> net_sealed tc cred iv proxy d (nb_data b')"
proof -
  have k: "length (nc_enc cred) = 16" "length (nc_privacy cred) = 16" using ok(2) by (simp_all add: cred_ok_def)
  let ?e = "take 7 d @ ctr_crypt tc (nc_enc cred) (net_nonce d iv proxy) (drop 7 d) @ net_pdu_mic tc (nc_enc cred) d iv proxy"
  have "7 \<le> length d" using len by simp
  from net_encrypt_data [OF ok(1) k(1) b this len(2) room, of iv proxy] obtain b1 where
    b1: "bt_mesh_net_encrypt tc (nc_enc cred) b iv proxy = Some (Inr b1)" "nb_invar b1" "nb_data b1 = ?e" by blast
  have le: "length ?e = length d + NET_MIC_LEN d" using len by simp
  have "14 \<le> length ?e" using le len net_mic_len [of d] by auto
  from obfuscate_invol [OF ok(1) k(2) this, of iv] obtain p where
    p: "bt_mesh_net_obfuscate tc ?e iv (nc_privacy cred) = Inr p" "length p = length ?e" "p ! 0 = ?e ! 0"
      "bt_mesh_net_obfuscate tc p iv (nc_privacy cred) = Inr ?e" by blast
  have "0 + length p = nb_len b1" using length_nb_data [OF b1(2)] b1(3) p(2) by simp
  note w = nb_write_data [OF b1(2) this]
  have "?e ! 0 = d ! 0" using len by (simp add: nth_append)
  then have "net_sealed tc cred iv proxy d (nb_data (nb_write b1 (nb_off b1) p))"
    using w(2) p le by (simp add: net_sealed_def)
  moreover have "net_encrypt tc b cred iv proxy = Some (Inr (nb_write b1 (nb_off b1) p))"
    by (simp add: net_encrypt_def b1(1) b1(3) p(1))
  ultimately show ?thesis using w(1) by auto
qed

lemma SRC_prefix:
  assumes "take 7 x = take 7 d"
  shows "SRC x = SRC d"
proof -
  have "SRC y = sys_get_be16 (drop 5 (take 7 y))" for y
    using sys_get_take(2) [of "drop 5 y"] by (simp add: SRC_def drop_take)
  then show ?thesis using assms by simp
qed

lemma SEQ_prefix:
  assumes "take 7 x = take 7 d"
  shows "SEQ x = SEQ d"
proof -
  have "SEQ y = sys_get_be24 (take 3 (drop 2 (take 7 y)))" for y by (simp add: SEQ_def drop_take)
  then show ?thesis using assms by simp
qed

lemma net_decrypt_sealed:
  assumes ok: "tinycrypt_ok (ne_tc env)" "cred_ok cred"
    and p: "net_sealed (ne_tc env) cred iv (rx_net_if rx = BT_MESH_NET_IF_PROXY_CFG) d p" "10 \<le> length d" "length d < 256"
    and out: "nb_invar out" "length p \<le> nb_size out"
    and nid: "NID d = nc_nid cred"
    and iv: "iv = bm_iv_index s - of_bool (IVI d \<noteq> bit (bm_iv_index s) 0)"
    and src: "BT_MESH_ADDR_IS_UNICAST (SRC d)" "\<not> ne_elem_find env (SRC d)"
    and cache: "rx_net_if rx = BT_MESH_NET_IF_ADV \<Longrightarrow> \<not> msg_cache_match d s"
  shows "\<exists>out'. net_decrypt env p s rx (Some out) cred =
      (True, rx\<lparr>rx_old_iv := (IVI d \<noteq> bit (bm_iv_index s) 0), rx_ctx := (rx_ctx rx)\<lparr>ctx_addr := SRC d\<rparr>\<rparr>, Some out') \<and>
      nb_invar out' \<and> nb_data out' = d"
proof -
  let ?proxy = "rx_net_if rx = BT_MESH_NET_IF_PROXY_CFG"
  let ?e = "take 7 d @ ctr_crypt (ne_tc env) (nc_enc cred) (net_nonce d iv ?proxy) (drop 7 d)
    @ net_pdu_mic (ne_tc env) (nc_enc cred) d iv ?proxy"
  have k: "length (nc_enc cred) = 16" using ok(2) by (simp add: cred_ok_def)
  have ob: "bt_mesh_net_obfuscate (ne_tc env) p iv (nc_privacy cred) = Inr ?e" and p0: "p ! 0 = d ! 0"
    and lp: "length p = length d + NET_MIC_LEN d" using p(1) by (simp_all add: net_sealed_def)
  have h: "NID p = NID d" "IVI p = IVI d" by (simp_all add: NID_def IVI_def p0)
  let ?r = "net_buf_simple_reset out"
  have r: "nb_invar ?r" "nb_data ?r = []" "net_buf_simple_tailroom ?r = nb_size out"
    using out(1) by (simp_all add: net_buf_simple_reset_def nb_basic_defs)
  obtain o1 where o1: "net_buf_simple_add_mem ?r p = Some o1" using nb.add_Some [of p ?r] r(3) out(2) by auto
  have o1d: "nb_invar o1" "nb_data o1 = p" using nb.add_content [OF r(1) o1] r(2) by simp_all
  have le: "length ?e = length p" using lp p(2) by simp
  have "0 + length ?e = nb_len o1" using length_nb_data [OF o1d(1)] o1d(2) le by simp
  note w = nb_write_data [OF o1d(1) this]
  let ?o2 = "nb_write o1 (nb_off o1) ?e"
  have o2: "nb_invar ?o2" "nb_data ?o2 = ?e" using w by simp_all
  have "7 \<le> length d" using p(2) by simp
  from net_decrypt_encrypt [OF ok(1) k o2(1) this p(3), of iv ?proxy] o2(2) obtain o3 where
    o3: "bt_mesh_net_decrypt (ne_tc env) (nc_enc cred) ?o2 iv ?proxy = Inr o3" "nb_invar o3" "nb_data o3 = d" by blast
  have t7: "take 7 ?e = take 7 d" using p(2) by simp
  have f: "SRC ?e = SRC d" "msg_cache_match ?e s = msg_cache_match d s"
    using SRC_prefix [OF t7] SEQ_prefix [OF t7] by (simp_all add: msg_cache_match_def)
  have "net_decrypt env p s rx (Some out) cred =
      (True, rx\<lparr>rx_old_iv := (IVI d \<noteq> bit (bm_iv_index s) 0), rx_ctx := (rx_ctx rx)\<lparr>ctx_addr := SRC d\<rparr>\<rparr>, Some o3)"
    unfolding net_decrypt_def Let_def h
    using nid o1 o1d ob iv src cache o3(1) f
    by (simp add: BT_MESH_NET_IVI_RX_def)
  with o3 show ?thesis by blast
qed

section \<open>Decoding a sealed PDU\<close>

lemma cred_try_skip:
  assumes "\<And>c rx out. c \<in> set pre \<Longrightarrow> cb rx out (cc_cred c) = (False, rx, out)"
    and "cb (rx\<lparr>rx_sub := Some (cc_sub c)\<rparr>) out (cc_cred c) = (True, rx', out')"
  shows "cred_try cb s (pre @ c # post) rx out =
    Some (rx'\<lparr>rx_new_key := cc_idx c > 0, rx_friend_cred := cc_friend c,
              rx_ctx := (rx_ctx rx')\<lparr>ctx_net_idx := sub_net_idx (subnets s ! cc_sub c)\<rparr>\<rparr>, out')"
  using assms by (induction pre arbitrary: rx) simp_all

lemma net_decrypt_other_nid: "NID din \<noteq> nc_nid cred \<Longrightarrow> net_decrypt env din s rx out cred = (False, rx, out)"
  by (simp add: net_decrypt_def Let_def)

lemma NID_sealed: "net_sealed tc cred iv proxy d p \<Longrightarrow> NID p = NID d"
  by (simp add: net_sealed_def NID_def)

definition dedup :: "bt_mesh_net_if \<Rightarrow> bytes \<Rightarrow> 'a net_state_scheme \<Rightarrow> 'a net_state_scheme" where
  "dedup net_if p s = (if net_if = BT_MESH_NET_IF_ADV then snd (check_dup p s) else s)"

lemma check_dup_keeps:
  "bm_iv_index (snd (check_dup p s)) = bm_iv_index s" "subnets (snd (check_dup p s)) = subnets s"
  "msg_cache (snd (check_dup p s)) = msg_cache s" "msg_cache_next (snd (check_dup p s)) = msg_cache_next s"
  "flags (snd (check_dup p s)) = flags s"
  by (simp_all add: check_dup_def Let_def split_beta)

lemma net_decode_sealed:
  assumes ok: "tinycrypt_ok (ne_tc env)" "cred_ok (cc_cred c)"
    and p: "net_sealed (ne_tc env) (cc_cred c) iv (net_if = BT_MESH_NET_IF_PROXY_CFG) d p" "10 \<le> length d" "length d < 256"
    and out: "nb_invar out" "length p \<le> nb_size out" and min: "BT_MESH_NET_MIN_PDU_LEN \<le> length p"
    and fresh: "net_if = BT_MESH_NET_IF_ADV \<Longrightarrow> \<not> fst (check_dup p s) \<and> \<not> msg_cache_match d s"
    and s1: "s1 = dedup net_if p s"
    and cands: "friend_cands (ne_frnd env s1) s1 @ subnet_cands s1 = pre @ c # post"
    and nid: "NID d = nc_nid (cc_cred c)" "\<And>c'. c' \<in> set pre \<Longrightarrow> nc_nid (cc_cred c') \<noteq> NID d"
    and iv: "iv = bm_iv_index s - of_bool (IVI d \<noteq> bit (bm_iv_index s) 0)"
    and src: "BT_MESH_ADDR_IS_UNICAST (SRC d)" "\<not> ne_elem_find env (SRC d)" and dst: "DST d \<noteq> BT_MESH_ADDR_UNASSIGNED"
  shows "\<exists>out'. nb_invar out' \<and> nb_data out' = d \<and> bt_mesh_net_decode env p net_if rx out s =
     (let rx' = rx_fields d (rx\<lparr>rx_net_if := net_if, rx_sub := Some (cc_sub c),
                  rx_old_iv := (IVI d \<noteq> bit (bm_iv_index s) 0), rx_new_key := cc_idx c > 0, rx_friend_cred := cc_friend c,
                  rx_ctx := (rx_ctx rx)\<lparr>ctx_addr := SRC d, ctx_net_idx := sub_net_idx (subnets s ! cc_sub c)\<rparr>\<rparr>);
          (rx'', s') = msg_cache_add rx' s1 in Some (Inr (rx'', out'), s'))"
proof -
  have keep: "bm_iv_index s1 = bm_iv_index s" "subnets s1 = subnets s" "msg_cache s1 = msg_cache s"
    by (simp_all add: s1 dedup_def check_dup_keeps)
  let ?rx = "rx\<lparr>rx_net_if := net_if\<rparr>\<lparr>rx_sub := Some (cc_sub c)\<rparr>"
  have sealed: "net_sealed (ne_tc env) (cc_cred c) iv (rx_net_if ?rx = BT_MESH_NET_IF_PROXY_CFG) d p" using p(1) by simp
  have iv1: "iv = bm_iv_index s1 - of_bool (IVI d \<noteq> bit (bm_iv_index s1) 0)" using iv by (simp only: keep)
  have mc: "\<not> msg_cache_match d s1" if "rx_net_if ?rx = BT_MESH_NET_IF_ADV" using fresh that by (simp add: msg_cache_match_def keep)
  from net_decrypt_sealed [OF ok sealed p(2,3) out nid(1) iv1 src mc] obtain out' where
    o: "nb_invar out'" "nb_data out' = d" and dec: "net_decrypt env p s1 ?rx (Some out) (cc_cred c) =
      (True, ?rx\<lparr>rx_old_iv := (IVI d \<noteq> bit (bm_iv_index s1) 0), rx_ctx := (rx_ctx ?rx)\<lparr>ctx_addr := SRC d\<rparr>\<rparr>, Some out')"
    by blast
  have skip: "net_decrypt env p s1 rx0 out0 (cc_cred c') = (False, rx0, out0)" if "c' \<in> set pre" for c' rx0 out0
    by (rule net_decrypt_other_nid) (use nid(2) [OF that] NID_sealed [OF p(1)] in auto)
  have find: "bt_mesh_net_cred_find (ne_frnd env s1) (net_decrypt env p s1) s1 (rx\<lparr>rx_net_if := net_if\<rparr>) (Some out) =
    Some (rx\<lparr>rx_net_if := net_if, rx_sub := Some (cc_sub c), rx_old_iv := (IVI d \<noteq> bit (bm_iv_index s) 0),
      rx_new_key := cc_idx c > 0, rx_friend_cred := cc_friend c,
      rx_ctx := (rx_ctx rx)\<lparr>ctx_addr := SRC d, ctx_net_idx := sub_net_idx (subnets s ! cc_sub c)\<rparr>\<rparr>, Some out')"
    unfolding bt_mesh_net_cred_find_def cands
    by (subst cred_try_skip [where cb = "net_decrypt env p s1", OF skip dec]) (simp_all add: keep)
  have dup: "(if net_if = BT_MESH_NET_IF_ADV then check_dup p s else (False, s)) = (False, s1)"
    using fresh by (auto simp: s1 dedup_def prod_eq_iff)
  have "bt_mesh_net_decode env p net_if rx out s =
     (let rx' = rx_fields d (rx\<lparr>rx_net_if := net_if, rx_sub := Some (cc_sub c),
                  rx_old_iv := (IVI d \<noteq> bit (bm_iv_index s) 0), rx_new_key := cc_idx c > 0, rx_friend_cred := cc_friend c,
                  rx_ctx := (rx_ctx rx)\<lparr>ctx_addr := SRC d, ctx_net_idx := sub_net_idx (subnets s ! cc_sub c)\<rparr>\<rparr>);
          (rx'', s') = msg_cache_add rx' s1 in Some (Inr (rx'', out'), s'))"
    unfolding bt_mesh_net_decode_def dup
    using min dst by (simp add: find o(2) Let_def rx_fields_def)
  with o show ?thesis by blast
qed

lemma bit_0_minus_1: "bit (x - 1 :: u32) 0 \<longleftrightarrow> \<not> bit x 0"
proof -
  have "even x \<longleftrightarrow> odd (x - 1)" using even_add [of "x - 1" 1] by simp
  then show ?thesis by (simp add: bit_0)
qed

section \<open>Encoding\<close>

lemma NET_MIC_LEN_hdr:
  assumes "ttl < 0x80"
  shows "NET_MIC_LEN (net_hdr nid ivi ctl ttl sq src dst @ d) = (if ctl then 8 else 4)"
  using or_0x80 [OF assms] by (simp add: NET_MIC_LEN_def net_hdr_def)

lemma net_encode_seals:
  assumes ok: "tinycrypt_ok (ne_tc env)" "cred_ok cred" "cred = fst (net_tx_cred_get tx s)"
    and b: "nb_invar buf" "9 \<le> net_buf_simple_headroom buf" "1 \<le> length (nb_data buf)" "length (nb_data buf) < 240"
    and room: "(if ctx_app_idx (tx_ctx tx) = BT_MESH_KEY_UNUSED then 8 else 4) \<le> net_buf_simple_tailroom buf"
    and ttl: "ctx_send_ttl (tx_ctx tx) < 0x80"
    and s1: "s1 = snd (bt_mesh_next_seq env s)"
    and d: "d = net_hdr (nc_nid cred) (bit (BT_MESH_NET_IVI_TX s1) 0) (ctx_app_idx (tx_ctx tx) = BT_MESH_KEY_UNUSED)
      (ctx_send_ttl (tx_ctx tx)) (bm_seq s) (tx_src tx) (ctx_addr (tx_ctx tx)) @ nb_data buf"
  shows "\<exists>b. bt_mesh_net_encode env tx buf proxy s = Some (Inr b, s1) \<and> nb_invar b \<and>
    net_sealed (ne_tc env) cred (BT_MESH_NET_IVI_TX s1) proxy d (nb_data b)"
proof -
  let ?tx = "tx\<lparr>tx_friend_cred := False\<rparr>"
  have g: "net_tx_cred_get tx s = (cred, ?tx)" by (simp add: ok(3) net_tx_cred_get_def Let_def)
  from net_header_encode_eq [OF b(1,2), of ?tx env "nc_nid cred" s] room obtain b1 where
    b1: "net_header_encode env ?tx (nc_nid cred) buf s = Some (Inr b1, s1)" "nb_invar b1" "nb_data b1 = d"
      "net_buf_simple_tailroom b1 = net_buf_simple_tailroom buf" by (auto simp: s1 d)
  have "NET_MIC_LEN d \<le> net_buf_simple_tailroom b1" using room by (simp add: d NET_MIC_LEN_hdr [OF ttl] b1(4))
  from net_encrypt_seals [OF ok(1,2) b1(2,3) _ _ this, of "BT_MESH_NET_IVI_TX s1" proxy] b(3,4) obtain b2 where
    b2: "net_encrypt (ne_tc env) b1 cred (BT_MESH_NET_IVI_TX s1) proxy = Some (Inr b2)" "nb_invar b2"
      "net_sealed (ne_tc env) cred (BT_MESH_NET_IVI_TX s1) proxy d (nb_data b2)" by (auto simp: d)
  have "bt_mesh_net_encode env tx buf proxy s = Some (Inr b2, s1)"
    by (simp add: bt_mesh_net_encode_def g b1(1) b2(1))
  with b2 show ?thesis by blast
qed

lemma ivi_near:
  assumes "iv = x \<or> iv = x - (1 :: u32)"
  shows "iv = x - of_bool (bit iv 0 \<noteq> bit x 0)"
  using assms bit_0_minus_1 [of x] by auto

section \<open>Relaying\<close>

lemma relay_header_fields:
  assumes d: "10 \<le> length d" and ttl: "ctx_recv_ttl (rx_ctx rx) = TTL d" "1 < TTL d"
    and nid: "rx_friend_cred rx \<Longrightarrow> nc_nid cred < 0x80"
  shows "length (relay_header rx cred d) = length d" "TTL (relay_header rx cred d) = TTL d - 1"
    "CTL (relay_header rx cred d) = CTL d" "IVI (relay_header rx cred d) = IVI d"
    "NID (relay_header rx cred d) = (if rx_friend_cred rx then nc_nid cred else NID d)"
    "drop 2 (relay_header rx cred d) = drop 2 d" "NET_MIC_LEN (relay_header rx cred d) = NET_MIC_LEN d"
proof -
  have t: "TTL d < 0x80"
  proof -
    have "TTL d = d ! 1 AND mask 7" by (simp add: TTL_def mask_eq_exp_minus_1)
    then show ?thesis using and_mask_less' [of 7 "d ! 1"] by simp
  qed
  have t1: "TTL d - 1 < 0x80" using t ttl(2) by (simp add: word_less_nat_alt unat_sub_if_size) 
  obtain a b r where dd: "d = a # b # r" using d by (cases d; cases "tl d") auto
  show "length (relay_header rx cred d) = length d" "drop 2 (relay_header rx cred d) = drop 2 d"
    by (simp_all add: relay_header_def Let_def dd)
  show "TTL (relay_header rx cred d) = TTL d - 1" "CTL (relay_header rx cred d) = CTL d"
     "NET_MIC_LEN (relay_header rx cred d) = NET_MIC_LEN d"
    using octet_mix [OF t1, of b] ttl(1)
    by (simp_all add: relay_header_def Let_def dd TTL_def CTL_def NET_MIC_LEN_def)
  show "IVI (relay_header rx cred d) = IVI d"
    "NID (relay_header rx cred d) = (if rx_friend_cred rx then nc_nid cred else NID d)"
    using octet_mix [of "nc_nid cred" a] nid
    by (simp_all add: relay_header_def Let_def dd IVI_def NID_def)
qed

lemma net_relay_seals:
  assumes ok: "tinycrypt_ok (ne_tc env)" "cred_ok cred"
    and c: "cred = sk_msg (sub_keys sub ! SUBNET_KEY_TX_IDX sub)" "sub = subnets s ! the (rx_sub rx)"
    and d: "nb_data sbuf = d" "10 \<le> length d" "length d + NET_MIC_LEN d \<le> length (adv_mem s)" "length (adv_mem s) < 256"
    and ttl: "ctx_recv_ttl (rx_ctx rx) = TTL d" "1 < TTL d"
    and room: "adv_used s < CONFIG_BT_MESH_ADV_BUF_COUNT" "\<not> flags s BT_MESH_SUSPENDED"
    and on: "relay_to_adv env (rx_net_if rx) s \<or> rx_friend_cred rx"
  shows "\<exists>s' b. bt_mesh_net_relay env sbuf rx s = Some s' \<and> adv_queue s' = adv_queue s @ [b] \<and> ab_cb b = None \<and>
    nb_invar (ab_b b) \<and> net_sealed (ne_tc env) cred (BT_MESH_NET_IVI_RX rx s) False (relay_header rx cred d) (nb_data (ab_b b))"
proof -
  let ?d = "relay_header rx cred d"
  define x where "x = (if rx_net_if rx = BT_MESH_NET_IF_ADV \<and> \<not> rx_friend_cred rx
    then bt_mesh_relay_retransmit_get s else bt_mesh_net_transmit_get s)"
  define b0 where "b0 = \<lparr>ab_type = BT_MESH_ADV_DATA, ab_busy = False, ab_xmit = x, ab_cb = None,
    ab_b = NET_BUF_SIMPLE_DEFINE (adv_mem s)\<rparr>"
  define s1 where "s1 = s\<lparr>adv_used := adv_used s + 1\<rparr>"
  have cr: "bt_mesh_adv_create BT_MESH_ADV_DATA x s = Some (b0, s1)"
    using room by (simp add: bt_mesh_adv_create_def b0_def s1_def)
  have b0: "ab_b b0 = NET_BUF_SIMPLE_DEFINE (adv_mem s)" and s1: "subnets s1 = subnets s" "flags s1 = flags s"
    "adv_queue s1 = adv_queue s" "BT_MESH_NET_IVI_RX rx s1 = BT_MESH_NET_IVI_RX rx s"
    by (simp_all add: b0_def s1_def BT_MESH_NET_IVI_RX_def)
  have "nc_nid cred < 0x80" using ok(2) by (simp add: cred_ok_def)
  note f = relay_header_fields [OF d(2) ttl this]
  let ?n = "NET_BUF_SIMPLE_DEFINE (adv_mem s)"
  have n: "nb_invar ?n" "nb_data ?n = []" "net_buf_simple_tailroom ?n = length (adv_mem s)"
    using d(4) by (simp_all add: NET_BUF_SIMPLE_DEFINE_def nb_basic_defs)
  have "length ?d \<le> net_buf_simple_tailroom ?n" using d(3) n(3) f(1) by simp
  then obtain b1 where b1: "net_buf_simple_add_mem ?n ?d = Some b1" using nb.add_Some [of ?d ?n] by blast
  have b1d: "nb_invar b1" "nb_data b1 = ?d" "length (adv_mem s) = net_buf_simple_tailroom b1 + length ?d"
    using nb.add_content [OF n(1) b1] n by simp_all
  have "10 \<le> length ?d" "length ?d < 256" "NET_MIC_LEN ?d \<le> net_buf_simple_tailroom b1"
    using f(1,7) d b1d(3) by simp_all
  from net_encrypt_seals [OF ok b1d(1,2) this, of "BT_MESH_NET_IVI_RX rx s1" False] obtain b2 where
    b2: "net_encrypt (ne_tc env) b1 cred (BT_MESH_NET_IVI_RX rx s1) False = Some (Inr b2)" "nb_invar b2"
      "net_sealed (ne_tc env) cred (BT_MESH_NET_IVI_RX rx s1) False ?d (nb_data b2)" by blast
  define s2 where "s2 = (if ne_gatt_proxy env \<and> (rx_friend_cred rx \<or> bt_mesh_gatt_proxy_get env s1 = BT_MESH_FEATURE_ENABLED)
    then peer_call (Proxy_Relay (nb_data b2) (ctx_recv_dst (rx_ctx rx))) s1 else s1)"
  have k: "flags s2 = flags s" "adv_queue s2 = adv_queue s" by (simp_all add: s2_def peer_call_def s1)
  have to: "relay_to_adv env (rx_net_if rx) s2 = relay_to_adv env (rx_net_if rx) s"
    by (simp add: relay_to_adv_def bt_mesh_relay_get_def bt_mesh_gatt_proxy_get_def feature_get_def k split: bt_mesh_net_if.split)
  have g: "\<not> ctx_recv_ttl (rx_ctx rx) \<le> 1" using ttl by simp
  have h: "\<not> (rx_net_if rx = BT_MESH_NET_IF_ADV \<and> \<not> rx_friend_cred rx \<and> bt_mesh_relay_get s \<noteq> BT_MESH_FEATURE_ENABLED
              \<and> bt_mesh_gatt_proxy_get env s \<noteq> BT_MESH_FEATURE_ENABLED)"
    using on by (auto simp: relay_to_adv_def)
  have "bt_mesh_net_relay env sbuf rx s = Some (bt_mesh_adv_send (b0\<lparr>ab_b := b2\<rparr>) None s2)"
    unfolding bt_mesh_net_relay_def if_not_P [OF g] if_not_P [OF h] Let_def d(1) x_def [symmetric] cr
    using on to by (simp add: c [symmetric] s1(1) b0 b1 b2(1) s2_def [symmetric])
  then show ?thesis using b2(2,3) k by (simp add: bt_mesh_adv_send_def s1(4))
qed

section \<open>Who decodes a PDU\<close>

lemma find_split:
  "find P xs = Some x \<Longrightarrow> \<exists>pre post. xs = pre @ x # post \<and> (\<forall>y \<in> set pre. \<not> P y) \<and> P x"
proof (induction xs)
  case (Cons y ys)
  show ?case
  proof (cases "P y")
    case True
    with Cons.prems have "y # ys = [] @ x # ys" "P x" by simp_all
    then show ?thesis by fastforce
  next
    case False
    with Cons obtain pre post where "ys = pre @ x # post" "\<forall>y \<in> set pre. \<not> P y" "P x" by auto
    then have "y # ys = (y # pre) @ x # post" "\<forall>z \<in> set (y # pre). \<not> P z" "P x" using False by simp_all
    then show ?thesis by blast
  qed
qed simp

text \<open>
  A node takes a plain PDU \<open>d\<close> from the advertising bearer when the credentials \<open>cred\<close> are the first of its
  credentials with their NID, the source is a unicast address that is not its own, the destination is assigned,
  and the message is not in its message cache. Its friendships do not depend on the duplicate cache.
\<close>

definition net_hears :: "'a net_state_scheme net_env \<Rightarrow> bt_mesh_net_cred \<Rightarrow> bytes \<Rightarrow> 'a net_state_scheme \<Rightarrow> bool" where
  "net_hears env cred d s \<longleftrightarrow>
     map_option cc_cred (find (\<lambda>c. nc_nid (cc_cred c) = nc_nid cred) (friend_cands (ne_frnd env s) s @ subnet_cands s))
       = Some cred \<and>
     (\<forall>x y. ne_frnd env (s\<lparr>dup_cache := x, dup_cache_next := y\<rparr>) = ne_frnd env s) \<and>
     BT_MESH_ADDR_IS_UNICAST (SRC d) \<and> \<not> ne_elem_find env (SRC d) \<and> DST d \<noteq> BT_MESH_ADDR_UNASSIGNED \<and>
     \<not> msg_cache_match d s"

lemma check_dup_eq:
  obtains x y where "snd (check_dup p s) = s\<lparr>dup_cache := x, dup_cache_next := y\<rparr>"
proof
  show "snd (check_dup p s) = s\<lparr>dup_cache := dup_cache (snd (check_dup p s)), dup_cache_next := dup_cache_next (snd (check_dup p s))\<rparr>"
    by (simp add: check_dup_def Let_def split_beta)
qed

lemma cands_cong:
  assumes "subnets s' = subnets s"
  shows "friend_cands fr s' @ subnet_cands s' = friend_cands fr s @ subnet_cands s"
  unfolding friend_cands_def subnet_cands_def used_slots_def assms ..

lemma net_hears_decode:
  assumes ok: "tinycrypt_ok (ne_tc env)" "cred_ok cred" and h: "net_hears env cred d s"
    and p: "net_sealed (ne_tc env) cred iv False d p" "10 \<le> length d" "length p \<le> nb_size out" "nb_size out < 256"
      "BT_MESH_NET_MIN_PDU_LEN \<le> length p"
    and out: "nb_invar out" and nid: "NID d = nc_nid cred"
    and iv: "iv = bm_iv_index s - of_bool (IVI d \<noteq> bit (bm_iv_index s) 0)"
    and fresh: "\<not> fst (check_dup p s)"
  shows "\<exists>rx' out' s'. bt_mesh_net_decode env p BT_MESH_NET_IF_ADV rx out s = Some (Inr (rx', out'), s') \<and>
    nb_data out' = d \<and> ctx_addr (rx_ctx rx') = SRC d \<and> ctx_recv_dst (rx_ctx rx') = DST d \<and>
    ctx_recv_ttl (rx_ctx rx') = TTL d \<and> rx_ctl rx' = CTL d \<and> rx_seq rx' = SEQ d \<and>
    rx_old_iv rx' = (IVI d \<noteq> bit (bm_iv_index s) 0) \<and> BT_MESH_NET_IVI_RX rx' s' = iv"
proof -
  obtain x y where s1: "snd (check_dup p s) = s\<lparr>dup_cache := x, dup_cache_next := y\<rparr>" by (rule check_dup_eq)
  let ?s1 = "dedup BT_MESH_NET_IF_ADV p s" and ?P = "\<lambda>c. nc_nid (cc_cred c) = nc_nid cred"
  have cands: "friend_cands (ne_frnd env ?s1) ?s1 @ subnet_cands ?s1 = friend_cands (ne_frnd env s) s @ subnet_cands s"
  proof -
    have "ne_frnd env ?s1 = ne_frnd env s" using h by (simp add: dedup_def s1 net_hears_def)
    then show ?thesis using cands_cong [of ?s1 s "ne_frnd env s"] by (simp add: dedup_def check_dup_keeps)
  qed
  obtain c where c: "find ?P (friend_cands (ne_frnd env s) s @ subnet_cands s) = Some c" "cc_cred c = cred"
    using h by (auto simp: net_hears_def)
  from find_split [OF c(1)] obtain pre post where pp: "friend_cands (ne_frnd env ?s1) ?s1 @ subnet_cands ?s1 = pre @ c # post"
    "\<And>c'. c' \<in> set pre \<Longrightarrow> nc_nid (cc_cred c') \<noteq> NID d" unfolding cands nid by blast
  have ld: "length d < 256" using p by (simp add: net_sealed_def)
  define R where "R = rx_fields d (rx\<lparr>rx_net_if := BT_MESH_NET_IF_ADV, rx_sub := Some (cc_sub c),
                  rx_old_iv := (IVI d \<noteq> bit (bm_iv_index s) 0), rx_new_key := cc_idx c > 0, rx_friend_cred := cc_friend c,
                  rx_ctx := (rx_ctx rx)\<lparr>ctx_addr := SRC d, ctx_net_idx := sub_net_idx (subnets s ! cc_sub c)\<rparr>\<rparr>)"
  have R: "rx_old_iv R = (IVI d \<noteq> bit (bm_iv_index s) 0)" "ctx_addr (rx_ctx R) = SRC d" "ctx_recv_dst (rx_ctx R) = DST d"
    "ctx_recv_ttl (rx_ctx R) = TTL d" "rx_ctl R = CTL d" "rx_seq R = SEQ d" by (simp_all add: R_def rx_fields_def)
  obtain rx'' s'' where m: "msg_cache_add R ?s1 = (rx'', s'')" by fastforce
  have "\<exists>out'. nb_invar out' \<and> nb_data out' = d \<and> bt_mesh_net_decode env p BT_MESH_NET_IF_ADV rx out s =
     (let rx' = R; (rx'', s') = msg_cache_add rx' ?s1 in Some (Inr (rx'', out'), s'))"
    unfolding R_def by (rule net_decode_sealed [OF ok(1) _ _ p(2) ld out p(3,5) _ refl pp(1) _ pp(2) iv])
      (use ok(2) c(2) p(1) h fresh nid in \<open>simp_all add: net_hears_def\<close>)
  then obtain out' where o: "nb_data out' = d"
    "bt_mesh_net_decode env p BT_MESH_NET_IF_ADV rx out s = Some (Inr (rx'', out'), s'')" by (auto simp: m)
  have rx'': "rx'' = R\<lparr>rx_msg_cache_idx := of_nat (msg_cache_next ?s1)\<rparr>" and s'': "bm_iv_index s'' = bm_iv_index s"
    using m by (auto simp: msg_cache_add_def Let_def split_beta dedup_def check_dup_keeps)
  have f: "rx_ctx rx'' = rx_ctx R" "rx_old_iv rx'' = rx_old_iv R" "rx_ctl rx'' = rx_ctl R" "rx_seq rx'' = rx_seq R"
    unfolding rx'' by simp_all
  have "BT_MESH_NET_IVI_RX rx'' s'' = iv" unfolding BT_MESH_NET_IVI_RX_def f s'' R(1) iv ..
  with o R f show ?thesis by metis
qed

section \<open>Properties\<close>

text \<open>C12: what one node encodes, another node decodes. When \<^verbatim>\<open>bt_mesh_net_encode\<close> gets a payload of at least one
  byte in a buffer with room for the header and the MIC, it succeeds, and every node that takes the message from
  the advertising bearer (\<open>net_hears\<close>), whose IV index is the one the sender transmits with or the next one, and
  that has not seen the same PDU before, gets the payload back together with the source, destination, TTL,
  sequence number and control bit of the sender, and recovers the sender's IV index from one bit.\<close>

theorem net_decode_encode:
  assumes "tinycrypt_ok (ne_tc env)" "ne_tc env' = ne_tc env"
    and "cred = fst (net_tx_cred_get tx s)" "cred_ok cred"
    and "nb_invar buf" "9 \<le> net_buf_simple_headroom buf" "1 \<le> length (nb_data buf)"
    and "ctl = (ctx_app_idx (tx_ctx tx) = BT_MESH_KEY_UNUSED)"
    and "(if ctl then 8 else 4) \<le> net_buf_simple_tailroom buf"
    and "(if ctl then length (nb_data buf) \<le> 12 else 5 \<le> length (nb_data buf) \<and> length (nb_data buf) \<le> 16)"
    and "ctx_send_ttl (tx_ctx tx) < 0x80" "bm_seq s < 2 ^ 24"
    and "s1 = snd (bt_mesh_next_seq env s)"
    and "BT_MESH_NET_IVI_TX s1 = bm_iv_index s' \<or> BT_MESH_NET_IVI_TX s1 = bm_iv_index s' - 1"
    and "d = net_hdr (nc_nid cred) (bit (BT_MESH_NET_IVI_TX s1) 0) ctl (ctx_send_ttl (tx_ctx tx)) (bm_seq s) (tx_src tx)
           (ctx_addr (tx_ctx tx)) @ nb_data buf"
    and "net_hears env' cred d s'" and "nb_invar out" "nb_size out = 29"
  shows "\<exists>b. bt_mesh_net_encode env tx buf False s = Some (Inr b, s1) \<and>
    (\<not> fst (check_dup (nb_data b) s') \<longrightarrow>
     (\<exists>rx' out' s''. bt_mesh_net_decode env' (nb_data b) BT_MESH_NET_IF_ADV rx out s' = Some (Inr (rx', out'), s'') \<and>
        drop 9 (nb_data out') = nb_data buf \<and> ctx_addr (rx_ctx rx') = tx_src tx \<and>
        ctx_recv_dst (rx_ctx rx') = ctx_addr (tx_ctx tx) \<and> ctx_recv_ttl (rx_ctx rx') = ctx_send_ttl (tx_ctx tx) \<and>
        rx_ctl rx' = ctl \<and> rx_seq rx' = bm_seq s \<and> BT_MESH_NET_IVI_RX rx' s'' = BT_MESH_NET_IVI_TX s1))"
proof -
  have nid: "nc_nid cred < 0x80" using assms(4) by (simp add: cred_ok_def)
  note f = net_hdr_fields [OF nid assms(11,12)]
  have l: "length (nb_data buf) < 240" using assms(10) by (auto split: if_splits)
  obtain b where b: "bt_mesh_net_encode env tx buf False s = Some (Inr b, s1)" "nb_invar b"
    "net_sealed (ne_tc env) cred (BT_MESH_NET_IVI_TX s1) False d (nb_data b)"
    using net_encode_seals [OF assms(1,4,3,5-7) l assms(9) [unfolded assms(8)] assms(11,13), of d False] assms(8,15) by auto
  have lp: "length (nb_data b) = 9 + length (nb_data buf) + (if ctl then 8 else 4)" "10 \<le> length d"
    using b(3) assms(7) by (simp_all add: net_sealed_def assms(15) NET_MIC_LEN_hdr [OF assms(11)])
  have r: "length (nb_data b) \<le> nb_size out" "nb_size out < 256" "BT_MESH_NET_MIN_PDU_LEN \<le> length (nb_data b)"
    using lp(1) assms(7,10,18) by (simp_all add: BT_MESH_NET_MIN_PDU_LEN_def BT_MESH_NET_HDR_LEN_def split: if_splits)
  have n: "NID d = nc_nid cred" by (simp add: assms(15) f)
  have iv: "BT_MESH_NET_IVI_TX s1 = bm_iv_index s' - of_bool (IVI d \<noteq> bit (bm_iv_index s') 0)"
    unfolding assms(15) f(1) by (rule ivi_near [OF assms(14)])
  have d: "drop 9 d = nb_data buf" "SRC d = tx_src tx" "DST d = ctx_addr (tx_ctx tx)" "TTL d = ctx_send_ttl (tx_ctx tx)"
    "CTL d = ctl" "SEQ d = bm_seq s" by (simp_all add: assms(15) f)
  have "tinycrypt_ok (ne_tc env')" "net_sealed (ne_tc env') cred (BT_MESH_NET_IVI_TX s1) False d (nb_data b)"
    using assms(1,2) b(3) by simp_all
  note dec = net_hears_decode [OF this(1) assms(4,16) this(2) lp(2) r assms(17) n iv, where rx = rx]
  have "\<exists>rx' out' s''. bt_mesh_net_decode env' (nb_data b) BT_MESH_NET_IF_ADV rx out s' = Some (Inr (rx', out'), s'') \<and>
        drop 9 (nb_data out') = nb_data buf \<and> ctx_addr (rx_ctx rx') = tx_src tx \<and>
        ctx_recv_dst (rx_ctx rx') = ctx_addr (tx_ctx tx) \<and> ctx_recv_ttl (rx_ctx rx') = ctx_send_ttl (tx_ctx tx) \<and>
        rx_ctl rx' = ctl \<and> rx_seq rx' = bm_seq s \<and> BT_MESH_NET_IVI_RX rx' s'' = BT_MESH_NET_IVI_TX s1"
    if "\<not> fst (check_dup (nb_data b) s')"
  proof -
    from dec [OF that] obtain rx' out' s'' where
      "bt_mesh_net_decode env' (nb_data b) BT_MESH_NET_IF_ADV rx out s' = Some (Inr (rx', out'), s'')" "nb_data out' = d"
      "ctx_addr (rx_ctx rx') = SRC d" "ctx_recv_dst (rx_ctx rx') = DST d" "ctx_recv_ttl (rx_ctx rx') = TTL d"
      "rx_ctl rx' = CTL d" "rx_seq rx' = SEQ d" "BT_MESH_NET_IVI_RX rx' s'' = BT_MESH_NET_IVI_TX s1" by blast
    then show ?thesis by (intro exI [of _ rx'] exI [of _ out'] exI [of _ s'']) (simp add: d)
  qed
  with b(1) show ?thesis by blast
qed

text \<open>A provisioned node with one subnet, and an environment without friendships or proxy.\<close>

definition example_cred :: bt_mesh_net_cred where
  "example_cred = \<lparr>nc_nid = 5, nc_enc = replicate 16 1, nc_privacy = replicate 16 2\<rparr>"

definition example_sub :: bt_mesh_subnet where
  "example_sub = unused_subnet\<lparr>sub_net_idx := 0, sub_keys := [zero_keys\<lparr>sk_valid := True, sk_msg := example_cred\<rparr>, zero_keys]\<rparr>"

definition net_example :: net_state where
  "net_example = (net_boot 2 (\<lambda>_. None))\<lparr>flags := (\<lambda>f. f = BT_MESH_VALID \<or> f = BT_MESH_RELAY), bm_iv_index := 6,
     subnets := [example_sub, unused_subnet]\<rparr>"

definition env_example :: "u16 \<Rightarrow> 's net_env" where
  "env_example addr = \<lparr>ne_tc = tc_example, ne_stack = replicate 29 0, ne_cbs = \<lparr>cb_start = \<lambda>_ _ _ s. s, cb_end = \<lambda>_ _ s. s\<rparr>,
     ne_elem_find = (\<lambda>a. a = addr), ne_tx_in_progress = (\<lambda>_. False), ne_frnd = (\<lambda>_. []),
     ne_proxy_relay = (\<lambda>_ _ _. False), ne_gatt_proxy = False, ne_friend = False, ne_cdb = False\<rparr>"

definition tx_example :: bt_mesh_net_tx where
  "tx_example = \<lparr>tx_sub = 0, tx_ctx = empty_ctx\<lparr>ctx_addr := 0xc000, ctx_send_ttl := 3\<rparr>, tx_src = 1, tx_xmit = 0,
     tx_friend_cred = False, tx_aszmic = False, tx_aid = 0\<rparr>"

definition buf_example :: net_buf_simple where
  "buf_example = \<lparr>nb_store = replicate 9 0 @ [1, 2, 3, 4, 5] @ replicate 15 0, nb_off = 9, nb_len = 5\<rparr>"

lemmas net_example_defs = net_example_def env_example_def tx_example_def buf_example_def example_sub_def example_cred_def
  net_boot_def empty_ctx_def unused_subnet_def zero_keys_def

lemma net_example_keys:
  "friend_cands [] (net_example\<lparr>dup_cache := x\<rparr>) @ subnet_cands (net_example\<lparr>dup_cache := x\<rparr>) =
     [\<lparr>cc_sub = 0, cc_idx = 0, cc_friend = False, cc_cred = example_cred\<rparr>]"
  "SUBNET_KEY_TX_IDX example_sub = 0" "cred_ok example_cred"
  by (simp_all add: friend_cands_def subnet_cands_def used_slots_def net_example_defs SUBNET_KEY_TX_IDX_def cred_ok_def
      mesh_key_defs BT_MESH_KR_NORMAL_def BT_MESH_KR_PHASE_2_def)

lemma net_example_next_seq:
  "bt_mesh_next_seq env net_example = (0, net_example\<lparr>bm_seq := 1\<rparr>)"
  by (simp add: bt_mesh_next_seq_def bt_mesh_store_seq_def net_example_defs CONFIG_BT_MESH_SEQ_STORE_RATE_def
      IV_UPDATE_SEQ_LIMIT_def Let_def)

lemma net_example_hears:
  "net_hears (env_example 7) example_cred (net_hdr 5 ivi ctl 3 sq 1 0xc000 @ d) (net_example\<lparr>dup_cache := x\<rparr>)"
proof -
  have "(5 :: u8) < 0x80" "(3 :: u8) < 0x80" by simp_all
  have src: "SRC (net_hdr 5 ivi ctl 3 sq 1 0xc000 @ d) = 1" "DST (net_hdr 5 ivi ctl 3 sq 1 0xc000 @ d) = 0xc000"
    by (simp_all add: SRC_def DST_def net_hdr_def)
  have "find (\<lambda>c. nc_nid (cc_cred c) = nc_nid example_cred) (friend_cands (ne_frnd (env_example 7) (net_example\<lparr>dup_cache := x\<rparr>))
      (net_example\<lparr>dup_cache := x\<rparr>) @ subnet_cands (net_example\<lparr>dup_cache := x\<rparr>)) =
      Some \<lparr>cc_sub = 0, cc_idx = 0, cc_friend = False, cc_cred = example_cred\<rparr>"
    using net_example_keys(1) [of x] by (simp add: env_example_def)
  then show ?thesis unfolding net_hears_def
    by (simp add: src msg_cache_match_def BT_MESH_ADDR_IS_UNICAST_def BT_MESH_ADDR_UNASSIGNED_def)
      (simp add: env_example_def net_example_def net_boot_def)
qed

theorem net_decode_encode_witness:
  "\<exists>v b s1 rx' out' s''. bt_mesh_net_encode (env_example 1) tx_example buf_example False net_example = Some (Inr b, s1) \<and>
     bt_mesh_net_decode (env_example 7) (nb_data b) BT_MESH_NET_IF_ADV empty_rx (NET_BUF_SIMPLE_DEFINE (replicate 29 0))
       (net_example\<lparr>dup_cache := replicate 30 v\<rparr>) = Some (Inr (rx', out'), s'') \<and>
     drop 9 (nb_data out') = [1, 2, 3, 4, 5] \<and> ctx_addr (rx_ctx rx') = 1 \<and> rx_seq rx' = 0"
proof -
  let ?out = "NET_BUF_SIMPLE_DEFINE (replicate 29 0)" and ?s1 = "net_example\<lparr>bm_seq := 1\<rparr>"
  let ?S = "\<lambda>v. net_example\<lparr>dup_cache := replicate 30 v\<rparr>"
  have iv: "BT_MESH_NET_IVI_TX ?s1 = 6" "bm_iv_index (?S v) = 6" "bm_seq net_example = 0" for v
    by (simp_all add: BT_MESH_NET_IVI_TX_def net_example_def net_boot_def)
  have cr: "example_cred = fst (net_tx_cred_get tx_example net_example)" 
    using net_example_keys(2) by (simp add: net_tx_cred_get_def tx_example_def net_example_def example_sub_def Let_def)
  have b: "nb_invar buf_example" "net_buf_simple_headroom buf_example = 9" "nb_data buf_example = [1, 2, 3, 4, 5]"
    "net_buf_simple_tailroom buf_example = 15"
    by (simp_all add: buf_example_def nb_basic_defs)
  have t: "tx_src tx_example = 1" "ctx_addr (tx_ctx tx_example) = 0xc000" "ctx_send_ttl (tx_ctx tx_example) = 3"
    "(ctx_app_idx (tx_ctx tx_example) = BT_MESH_KEY_UNUSED) = False"
    by (simp_all add: tx_example_def empty_ctx_def mesh_key_defs)
  have o: "nb_invar ?out" "nb_size ?out = 29" by (simp_all add: NET_BUF_SIMPLE_DEFINE_def nb_basic_defs)
  have nid: "nc_nid example_cred = 5" by (simp add: example_cred_def)
  have "\<exists>b. bt_mesh_net_encode (env_example 1) tx_example buf_example False net_example = Some (Inr b, ?s1) \<and>
    (\<not> fst (check_dup (nb_data b) (?S v)) \<longrightarrow>
     (\<exists>rx' out' s''. bt_mesh_net_decode (env_example 7) (nb_data b) BT_MESH_NET_IF_ADV empty_rx ?out (?S v) = Some (Inr (rx', out'), s'') \<and>
        drop 9 (nb_data out') = nb_data buf_example \<and> ctx_addr (rx_ctx rx') = tx_src tx_example \<and>
        ctx_recv_dst (rx_ctx rx') = ctx_addr (tx_ctx tx_example) \<and> ctx_recv_ttl (rx_ctx rx') = ctx_send_ttl (tx_ctx tx_example) \<and>
        rx_ctl rx' = False \<and> rx_seq rx' = bm_seq net_example \<and> BT_MESH_NET_IVI_RX rx' s'' = BT_MESH_NET_IVI_TX ?s1))" for v
    by (rule net_decode_encode [OF _ _ cr net_example_keys(3) b(1) _ _ t(4) [symmetric] _ _ _ _ _ _ refl _ o])
      (simp_all add: b t iv nid o net_example_next_seq net_example_hears, simp_all add: env_example_def tc_example_ok)
  note enc = this
  obtain b where b1: "bt_mesh_net_encode (env_example 1) tx_example buf_example False net_example = Some (Inr b, ?s1)"
    using enc [of 0] by blast
  let ?n = "length (nb_data b)"
  let ?v = "(sys_get_be32 (drop (?n - 4) (nb_data b)) XOR sys_get_be32 (drop (?n - 8) (nb_data b))) + 1"
  have fresh: "\<not> fst (check_dup (nb_data b) (?S ?v))" by (simp add: check_dup_def Let_def split_beta)
  have "\<exists>rx' out' s''. bt_mesh_net_decode (env_example 7) (nb_data b) BT_MESH_NET_IF_ADV empty_rx ?out (?S ?v) =
      Some (Inr (rx', out'), s'') \<and> drop 9 (nb_data out') = [1, 2, 3, 4, 5] \<and> ctx_addr (rx_ctx rx') = 1 \<and> rx_seq rx' = 0"
    using enc [of ?v] unfolding b1 b(3) t(1) iv(3) using fresh by blast
  with b1 show ?thesis by blast
qed

text \<open>A PDU from another node, as it is after decryption.\<close>

definition pdu_example :: "u8 \<Rightarrow> bytes" where
  "pdu_example nid = net_hdr nid False False 3 9 1 0xc000 @ [1, 2, 3, 4, 5]"

definition rx_relay_example :: bt_mesh_net_rx where
  "rx_relay_example = empty_rx\<lparr>rx_sub := Some 0, rx_ctx := empty_ctx\<lparr>ctx_recv_ttl := 3\<rparr>\<rparr>"

lemma pdu_example_fields:
  assumes "nid < 0x80"
  shows "length (pdu_example nid) = 14" "NET_MIC_LEN (pdu_example nid) = 4" "TTL (pdu_example nid) = 3" "NID (pdu_example nid) = nid"
    "SRC (pdu_example nid) = 1" "SEQ (pdu_example nid) = 9" "IVI (pdu_example nid) = False" "drop 9 (pdu_example nid) = [1, 2, 3, 4, 5]"
  using net_hdr_fields [OF assms, of 3 9] NET_MIC_LEN_hdr [of 3] by (simp_all add: pdu_example_def)

lemma net_example_relays:
  "relay_to_adv env BT_MESH_NET_IF_ADV net_example" "adv_used net_example = 0" "\<not> flags net_example BT_MESH_SUSPENDED"
  "adv_mem net_example = replicate 29 0" "adv_queue net_example = []" "bm_iv_index net_example = 6"
  by (simp_all add: relay_to_adv_def bt_mesh_relay_get_def feature_get_def net_example_def net_boot_def BT_MESH_ADV_DATA_SIZE_def)

text \<open>C13: one hop of relaying. A node that relays a PDU it received with the credentials it transmits with (or with
  friend credentials) puts exactly one PDU on its advertising queue, and a neighbour that takes the message and has
  the same IV index decodes from it the same source, destination, sequence number, control bit and payload, with
  the TTL counted down by one. With a TTL of 0 or 1 nothing is sent.\<close>

theorem net_relay_hop:
  assumes "tinycrypt_ok (ne_tc env)" "ne_tc env' = ne_tc env" "cred_ok cred"
    and "cred = sk_msg (sub_keys sub ! SUBNET_KEY_TX_IDX sub)" "sub = subnets s ! the (rx_sub rx)"
    and "nb_data sbuf = d" "10 \<le> length d" "18 \<le> length d + NET_MIC_LEN d" "length d + NET_MIC_LEN d \<le> 29"
    and "length (adv_mem s) = 29"
    and "ctx_recv_ttl (rx_ctx rx) = TTL d" "rx_old_iv rx = (IVI d \<noteq> bit (bm_iv_index s) 0)"
    and "rx_friend_cred rx \<or> NID d = nc_nid cred"
    and "adv_used s < CONFIG_BT_MESH_ADV_BUF_COUNT" "\<not> flags s BT_MESH_SUSPENDED"
    and "relay_to_adv env (rx_net_if rx) s \<or> rx_friend_cred rx"
    and "net_hears env' cred d s'" "bm_iv_index s' = bm_iv_index s" and "nb_invar out" "nb_size out = 29"
  shows "if TTL d \<le> 1 then bt_mesh_net_relay env sbuf rx s = Some s
    else \<exists>s1 b. bt_mesh_net_relay env sbuf rx s = Some s1 \<and> adv_queue s1 = adv_queue s @ [b] \<and>
      (\<not> fst (check_dup (nb_data (ab_b b)) s') \<longrightarrow>
       (\<exists>rx' out' s''. bt_mesh_net_decode env' (nb_data (ab_b b)) BT_MESH_NET_IF_ADV rx0 out s' = Some (Inr (rx', out'), s'') \<and>
          ctx_recv_ttl (rx_ctx rx') = TTL d - 1 \<and> ctx_addr (rx_ctx rx') = SRC d \<and> ctx_recv_dst (rx_ctx rx') = DST d \<and>
          rx_seq rx' = SEQ d \<and> rx_ctl rx' = CTL d \<and> drop 9 (nb_data out') = drop 9 d))"
proof (cases "TTL d \<le> 1")
  case True
  then show ?thesis using assms(11) by (simp add: bt_mesh_net_relay_def)
next
  case False
  then have ttl: "1 < TTL d" by simp
  let ?d = "relay_header rx cred d"
  have nid: "nc_nid cred < 0x80" using assms(3) by (simp add: cred_ok_def)
  note f = relay_header_fields [OF assms(7,11) ttl nid]
  have "length d + NET_MIC_LEN d \<le> length (adv_mem s)" "length (adv_mem s) < 256" using assms(9,10) by simp_all
  from net_relay_seals [OF assms(1,3-7) this assms(11) ttl assms(14-16)] obtain s1 b where
    r: "bt_mesh_net_relay env sbuf rx s = Some s1" "adv_queue s1 = adv_queue s @ [b]"
      "net_sealed (ne_tc env) cred (BT_MESH_NET_IVI_RX rx s) False ?d (nb_data (ab_b b))" by blast
  have seq: "SEQ ?d = SEQ d" by (simp add: SEQ_def f(6))
  have "drop k ?d = drop k d" if "2 \<le> k" for k
    using f(6) that by (metis drop_drop le_add_diff_inverse2)
  then have e: "SRC ?d = SRC d" "DST ?d = DST d" "drop 9 ?d = drop 9 d" by (simp_all add: SRC_def DST_def)
  have h: "net_hears env' cred ?d s'" using assms(17) by (simp add: net_hears_def e seq msg_cache_match_def)
  have n: "NID ?d = nc_nid cred" using f(5) assms(13) by auto
  have iv: "BT_MESH_NET_IVI_RX rx s = bm_iv_index s' - of_bool (IVI ?d \<noteq> bit (bm_iv_index s') 0)"
    by (simp add: BT_MESH_NET_IVI_RX_def assms(12,18) f(4))
  have l: "10 \<le> length ?d" "length (nb_data (ab_b b)) \<le> nb_size out" "nb_size out < 256"
    "BT_MESH_NET_MIN_PDU_LEN \<le> length (nb_data (ab_b b))"
    using r(3) assms(7-9,20) f(1,7) by (simp_all add: net_sealed_def BT_MESH_NET_MIN_PDU_LEN_def BT_MESH_NET_HDR_LEN_def)
  have tc: "tinycrypt_ok (ne_tc env')"
    "net_sealed (ne_tc env') cred (BT_MESH_NET_IVI_RX rx s) False ?d (nb_data (ab_b b))" using assms(1,2) r(3) by simp_all
  have "\<exists>rx' out' s''. bt_mesh_net_decode env' (nb_data (ab_b b)) BT_MESH_NET_IF_ADV rx0 out s' = Some (Inr (rx', out'), s'') \<and>
          ctx_recv_ttl (rx_ctx rx') = TTL d - 1 \<and> ctx_addr (rx_ctx rx') = SRC d \<and> ctx_recv_dst (rx_ctx rx') = DST d \<and>
          rx_seq rx' = SEQ d \<and> rx_ctl rx' = CTL d \<and> drop 9 (nb_data out') = drop 9 d"
    if fr: "\<not> fst (check_dup (nb_data (ab_b b)) s')"
  proof -
    from net_hears_decode [OF tc(1) assms(3) h tc(2) l(1-4) assms(19) n iv fr, of rx0] obtain rx' out' s'' where
      "bt_mesh_net_decode env' (nb_data (ab_b b)) BT_MESH_NET_IF_ADV rx0 out s' = Some (Inr (rx', out'), s'')"
      "nb_data out' = ?d" "ctx_addr (rx_ctx rx') = SRC ?d" "ctx_recv_dst (rx_ctx rx') = DST ?d"
      "ctx_recv_ttl (rx_ctx rx') = TTL ?d" "rx_ctl rx' = CTL ?d" "rx_seq rx' = SEQ ?d" by blast
    then show ?thesis by (intro exI [of _ rx'] exI [of _ out'] exI [of _ s'']) (simp add: e seq f(2,3))
  qed
  with False r(1,2) show ?thesis by auto
qed

theorem net_relay_hop_witness:
  "\<exists>v s1 b rx' out' s''. bt_mesh_net_relay (env_example 7) (net_buf_simple_init_with_data (pdu_example 5)) rx_relay_example net_example = Some s1 \<and>
     adv_queue s1 = [b] \<and>
     bt_mesh_net_decode (env_example 8) (nb_data (ab_b b)) BT_MESH_NET_IF_ADV empty_rx (NET_BUF_SIMPLE_DEFINE (replicate 29 0))
       (net_example\<lparr>dup_cache := replicate 30 v\<rparr>) = Some (Inr (rx', out'), s'') \<and>
     ctx_recv_ttl (rx_ctx rx') = 2 \<and> ctx_addr (rx_ctx rx') = 1 \<and> rx_seq rx' = 9 \<and> drop 9 (nb_data out') = [1, 2, 3, 4, 5]"
proof -
  let ?d = "pdu_example 5" and ?out = "NET_BUF_SIMPLE_DEFINE (replicate 29 0)" and ?rx = rx_relay_example
  let ?S = "\<lambda>v. net_example\<lparr>dup_cache := replicate 30 v\<rparr>" and ?b = "net_buf_simple_init_with_data (pdu_example 5)"
  have "(5 :: u8) < 0x80" by simp
  note f = pdu_example_fields [OF this]
  have sub: "subnets net_example ! the (rx_sub ?rx) = example_sub"
    by (simp add: net_example_def rx_relay_example_def)
  have cr: "example_cred = sk_msg (sub_keys example_sub ! SUBNET_KEY_TX_IDX example_sub)"
    using net_example_keys(2) by (simp add: example_sub_def)
  have rx: "ctx_recv_ttl (rx_ctx ?rx) = TTL ?d" "rx_net_if ?rx = BT_MESH_NET_IF_ADV"
    "rx_old_iv ?rx = (IVI ?d \<noteq> bit (bm_iv_index net_example) 0)"
    using f(3,7) net_example_relays(6) by (simp_all add: rx_relay_example_def empty_rx_def)
  have h: "net_hears (env_example 8) example_cred ?d (?S v)" for v
    using net_example_hears [of False False 9 "[1, 2, 3, 4, 5]" "replicate 30 v"]
    by (simp add: net_hears_def env_example_def pdu_example_def SRC_def net_hdr_def)
  have o: "nb_invar ?out" "nb_size ?out = 29" by (simp_all add: NET_BUF_SIMPLE_DEFINE_def nb_basic_defs)
  have b: "nb_data ?b = ?d" by (simp add: net_buf_simple_init_with_data_def nb_data_def)
  have tc: "ne_tc (env_example a) = tc_example" for a by (simp add: env_example_def)
  have hop: "if TTL ?d \<le> 1 then bt_mesh_net_relay (env_example 7) ?b ?rx net_example = Some net_example
    else \<exists>s1 b. bt_mesh_net_relay (env_example 7) ?b ?rx net_example = Some s1 \<and> adv_queue s1 = adv_queue net_example @ [b] \<and>
      (\<not> fst (check_dup (nb_data (ab_b b)) (?S v)) \<longrightarrow>
       (\<exists>rx' out' s''. bt_mesh_net_decode (env_example 8) (nb_data (ab_b b)) BT_MESH_NET_IF_ADV empty_rx ?out (?S v) = Some (Inr (rx', out'), s'') \<and>
          ctx_recv_ttl (rx_ctx rx') = TTL ?d - 1 \<and> ctx_addr (rx_ctx rx') = SRC ?d \<and> ctx_recv_dst (rx_ctx rx') = DST ?d \<and>
          rx_seq rx' = SEQ ?d \<and> rx_ctl rx' = CTL ?d \<and> drop 9 (nb_data out') = drop 9 ?d))" for v
    by (rule net_relay_hop [OF _ _ net_example_keys(3) cr sub [symmetric] b _ _ _ _ rx(1,3) _ _ _ _ h _ o])
      (use rx(2) in \<open>simp_all add: net_example_relays tc tc_example_ok f example_cred_def CONFIG_BT_MESH_ADV_BUF_COUNT_def\<close>)
  have nt: "\<not> TTL ?d \<le> 1" unfolding f(3) not_le by simp
  note hop = hop [unfolded if_not_P [OF nt]]
  obtain s1 b where r: "bt_mesh_net_relay (env_example 7) ?b ?rx net_example = Some s1" "adv_queue s1 = [b]"
    using hop [of 0] net_example_relays(5) by auto
  let ?n = "length (nb_data (ab_b b))"
  let ?v = "(sys_get_be32 (drop (?n - 4) (nb_data (ab_b b))) XOR sys_get_be32 (drop (?n - 8) (nb_data (ab_b b)))) + 1"
  have fresh: "\<not> fst (check_dup (nb_data (ab_b b)) (?S ?v))" by (simp add: check_dup_def Let_def split_beta)
  have "\<exists>rx' out' s''. bt_mesh_net_decode (env_example 8) (nb_data (ab_b b)) BT_MESH_NET_IF_ADV empty_rx ?out (?S ?v) = Some (Inr (rx', out'), s'') \<and>
          ctx_recv_ttl (rx_ctx rx') = 2 \<and> ctx_addr (rx_ctx rx') = 1 \<and> rx_seq rx' = 9 \<and> drop 9 (nb_data out') = [1, 2, 3, 4, 5]"
    using hop [of ?v] fresh r f net_example_relays(5) by auto
  with r show ?thesis by blast
qed

text \<open>C14: relaying during a key refresh. When a PDU was received with the subnet's other key, the relayed PDU is
  encrypted with the credentials the node transmits with but keeps the NID of the key it came in with. No node tries
  credentials whose NID is another one, so nobody tries the credentials the PDU is encrypted with.\<close>

theorem net_relay_wrong_nid:
  assumes "tinycrypt_ok (ne_tc env)" "cred_ok cred"
    and "cred = sk_msg (sub_keys sub ! SUBNET_KEY_TX_IDX sub)" "sub = subnets s ! the (rx_sub rx)"
    and "nb_data sbuf = d" "10 \<le> length d" "length d + NET_MIC_LEN d \<le> length (adv_mem s)" "length (adv_mem s) < 256"
    and "ctx_recv_ttl (rx_ctx rx) = TTL d" "1 < TTL d"
    and "\<not> rx_friend_cred rx" "NID d \<noteq> nc_nid cred"
    and "adv_used s < CONFIG_BT_MESH_ADV_BUF_COUNT" "\<not> flags s BT_MESH_SUSPENDED" "relay_to_adv env (rx_net_if rx) s"
  shows "\<exists>s1 b. bt_mesh_net_relay env sbuf rx s = Some s1 \<and> adv_queue s1 = adv_queue s @ [b] \<and>
      net_sealed (ne_tc env) cred (BT_MESH_NET_IVI_RX rx s) False (relay_header rx cred d) (nb_data (ab_b b)) \<and>
      (\<forall>env' s' rx' out. net_decrypt env' (nb_data (ab_b b)) (s' :: net_state) rx' out cred = (False, rx', out))"
proof -
  have on: "relay_to_adv env (rx_net_if rx) s \<or> rx_friend_cred rx" using assms(15) by simp
  from net_relay_seals [OF assms(1-10,13,14) on] obtain s1 b where
    r: "bt_mesh_net_relay env sbuf rx s = Some s1" "adv_queue s1 = adv_queue s @ [b]"
      "net_sealed (ne_tc env) cred (BT_MESH_NET_IVI_RX rx s) False (relay_header rx cred d) (nb_data (ab_b b))" by blast
  have "NID (relay_header rx cred d) = NID d"
    using relay_header_fields(5) [OF assms(6,9,10), of cred] assms(11) by simp
  then have "NID (nb_data (ab_b b)) \<noteq> nc_nid cred" using NID_sealed [OF r(3)] assms(12) by simp
  with r net_decrypt_other_nid show ?thesis by blast
qed

theorem net_relay_wrong_nid_witness:
  "\<exists>s1 b. bt_mesh_net_relay (env_example 7) (net_buf_simple_init_with_data (pdu_example 6)) rx_relay_example net_example = Some s1 \<and>
     adv_queue s1 = [b] \<and>
     net_decrypt (env_example 8) (nb_data (ab_b b)) net_example empty_rx None example_cred = (False, empty_rx, None)"
proof -
  let ?d = "pdu_example 6" and ?rx = rx_relay_example and ?b = "net_buf_simple_init_with_data (pdu_example 6)"
  have "(6 :: u8) < 0x80" by simp
  note f = pdu_example_fields [OF this]
  have sub: "subnets net_example ! the (rx_sub ?rx) = example_sub"
    by (simp add: net_example_def rx_relay_example_def)
  have cr: "example_cred = sk_msg (sub_keys example_sub ! SUBNET_KEY_TX_IDX example_sub)"
    using net_example_keys(2) by (simp add: example_sub_def)
  have rx: "ctx_recv_ttl (rx_ctx ?rx) = TTL ?d" "rx_net_if ?rx = BT_MESH_NET_IF_ADV" "\<not> rx_friend_cred ?rx"
    using f(3) by (simp_all add: rx_relay_example_def empty_rx_def)
  have b: "nb_data ?b = ?d" by (simp add: net_buf_simple_init_with_data_def nb_data_def)
  have tc: "tinycrypt_ok (ne_tc (env_example a))" for a by (simp add: env_example_def tc_example_ok)
  have "\<exists>s1 b. bt_mesh_net_relay (env_example 7) ?b ?rx net_example = Some s1 \<and> adv_queue s1 = adv_queue net_example @ [b] \<and>
      net_sealed (ne_tc (env_example 7 :: net_state net_env)) example_cred (BT_MESH_NET_IVI_RX ?rx net_example) False (relay_header ?rx example_cred ?d) (nb_data (ab_b b)) \<and>
      (\<forall>env' s' rx' out. net_decrypt env' (nb_data (ab_b b)) (s' :: net_state) rx' out example_cred = (False, rx', out))"
    by (rule net_relay_wrong_nid [OF tc net_example_keys(3) cr sub [symmetric] b _ _ _ rx(1) _ rx(3)])
      (use rx(2) in \<open>simp_all add: net_example_relays f example_cred_def CONFIG_BT_MESH_ADV_BUF_COUNT_def\<close>)
  then show ?thesis using net_example_relays(5) by auto
qed

text \<open>C15: PDUs that are too long. Nothing bounds the length of a received PDU from above. A PDU of more than 29 bytes,
  which a proxy client can send, is copied into the 29-byte buffer of \<^verbatim>\<open>bt_mesh_net_recv\<close> as soon as its NID is that
  of one of the node's credentials: the assertion of the buffer fails.\<close>

theorem net_recv_oversize:
  assumes "flags s BT_MESH_VALID" "29 < length p" "length (ne_stack env) = 29"
    and "c \<in> set (friend_cands (ne_frnd env s) s @ subnet_cands s)" "NID p = nc_nid (cc_cred c)"
  shows "bt_mesh_net_recv env trans_recv p rssi BT_MESH_NET_IF_PROXY s = None"
proof -
  let ?out = "NET_BUF_SIMPLE_DEFINE (ne_stack env)"
  have full: "net_buf_simple_add_mem (net_buf_simple_reset ?out) p = None"
    using assms(2,3) by (simp add: nb_add_total net_buf_simple_reset_def NET_BUF_SIMPLE_DEFINE_def nb_basic_defs)
  have step: "(if NID p = nc_nid cr then fst (net_decrypt env p s rx (Some ?out) cr) \<and> snd (snd (net_decrypt env p s rx (Some ?out) cr)) = None
      else net_decrypt env p s rx (Some ?out) cr = (False, rx, Some ?out))" for cr rx
    using full by (simp add: net_decrypt_def Let_def)
  have "\<exists>rx'. cred_try (net_decrypt env p s) s cs rx (Some ?out) = Some (rx', None)"
    if "c \<in> set cs" for cs rx
    using that
  proof (induction cs arbitrary: rx)
    case (Cons x cs)
    show ?case
    proof (cases "NID p = nc_nid (cc_cred x)")
      case True
      with step [of "cc_cred x" "rx\<lparr>rx_sub := Some (cc_sub x)\<rparr>"] show ?thesis
        by (auto split: prod.split)
    next
      case False
      with Cons.prems assms(5) have "c \<in> set cs" by auto
      with False step [of "cc_cred x" "rx\<lparr>rx_sub := Some (cc_sub x)\<rparr>"] Cons.IH show ?thesis by simp
    qed
  qed simp
  from this [OF assms(4)] obtain rx' where
    "cred_try (net_decrypt env p s) s (friend_cands (ne_frnd env s) s @ subnet_cands s)
       (empty_rx\<lparr>rx_ctx := empty_ctx\<lparr>ctx_recv_rssi := rssi\<rparr>, rx_net_if := BT_MESH_NET_IF_PROXY\<rparr>) (Some ?out) = Some (rx', None)" by blast
  then show ?thesis using assms(1,2)
    by (simp add: bt_mesh_net_recv_def bt_mesh_is_provisioned_def bt_mesh_net_decode_def BT_MESH_NET_MIN_PDU_LEN_def
        BT_MESH_NET_HDR_LEN_def bt_mesh_net_cred_find_def)
qed

theorem net_recv_oversize_witness:
  "bt_mesh_net_recv (env_example 7) (\<lambda>buf rx rssi s. Some (None, rx, s)) (5 # replicate 29 0) 0 BT_MESH_NET_IF_PROXY net_example = None"
proof (rule net_recv_oversize)
  show "\<lparr>cc_sub = 0, cc_idx = 0, cc_friend = False, cc_cred = example_cred\<rparr> \<in>
      set (friend_cands (ne_frnd (env_example 7) net_example) net_example @ subnet_cands net_example)"
    using net_example_keys(1) [of "dup_cache net_example"] by (simp add: env_example_def)
qed (simp_all add: net_example_def env_example_def NID_def example_cred_def)

end
