(* ===== verification/Net_Iv.thy ===== *)
theory Net_Iv
  imports Net_Pdu "HOL-Library.Product_Lexorder"
begin

text \<open>
  The IV update procedure and the sequence numbers of net.c. The code refines a machine on unbounded
  numbers, whose pairs of IV index and next sequence number only grow.
\<close>


section \<open>The IV update procedure as a machine on numbers\<close>

text \<open>
  What the Mesh Profile prescribes, on unbounded numbers: the phase, the IV index, the next sequence number
  and the hours spent in the phase. The code compares in 32 bits, so that it accepts no new index once
  \<open>IV index + 42\<close> leaves that range.
\<close>

record iv_machine =
  im_update :: bool
  im_iv :: nat
  im_seq :: nat
  im_hours :: nat

definition iv_spec :: "nat \<Rightarrow> bool \<Rightarrow> bool \<Rightarrow> iv_machine \<Rightarrow> iv_machine" where
  "iv_spec iv u busy m =
     (if im_update m then
        if iv = im_iv m \<and> \<not> u \<and> 96 \<le> im_hours m \<and> \<not> busy
        then m\<lparr>im_update := False, im_seq := 0, im_hours := 0\<rparr> else m
      else if im_iv m + 42 \<ge> 2 ^ 32 then m
      else if im_iv m + 2 \<le> iv \<and> iv \<le> im_iv m + 42
        then \<lparr>im_update = u, im_iv = iv, im_seq = 0, im_hours = 0\<rparr>
      else if iv = im_iv m + 1 \<and> u \<and> 96 \<le> im_hours m
        then m\<lparr>im_update := True, im_iv := iv, im_hours := 0\<rparr>
      else m)"

definition iv_abs :: "'a bt_mesh_net_scheme \<Rightarrow> iv_machine" where
  "iv_abs s = \<lparr>im_update = flags s BT_MESH_IVU_IN_PROGRESS, im_iv = unat (bm_iv_index s), im_seq = unat (bm_seq s),
     im_hours = unat (bm_ivu_duration s)\<rparr>"

text \<open>The parts of an update that have nothing to do with the machine leave it alone.\<close>

lemma schedule_store_iv_abs:
  "f \<noteq> BT_MESH_IVU_IN_PROGRESS \<Longrightarrow> iv_abs (schedule_store f s) = iv_abs s"
  by (simp add: iv_abs_def schedule_store_flags)

lemma store_iv_abs [simp]: "iv_abs (bt_mesh_store_iv d s) = iv_abs s"
  by (simp add: bt_mesh_store_iv_def schedule_store_iv_abs Let_def)

lemma store_seq_abs [simp]: "iv_abs (bt_mesh_store_seq q s) = iv_abs s"
  by (simp add: bt_mesh_store_seq_def schedule_store_iv_abs)

lemma rpl_clear_abs [simp]: "iv_abs (bt_mesh_rpl_clear s) = iv_abs s"
  by (simp add: bt_mesh_rpl_clear_def bt_mesh_clear_rpl_def schedule_store_iv_abs)

lemma replay_list_abs: "iv_abs (s\<lparr>replay_list := r\<rparr>) = iv_abs s"
  by (simp add: iv_abs_def)

lemma store_rpl_abs: "iv_abs (bt_mesh_store_rpl i s) = iv_abs s"
  by (simp add: bt_mesh_store_rpl_def schedule_store_iv_abs replay_list_abs)

lemma rpl_reset_loop_abs: "iv_abs (rpl_reset_loop n i s) = iv_abs s"
  by (induction n arbitrary: i s) (simp_all add: store_rpl_abs replay_list_abs)

lemma rpl_reset_abs [simp]: "iv_abs (bt_mesh_rpl_reset s) = iv_abs s"
  by (simp add: bt_mesh_rpl_reset_def rpl_reset_loop_abs)

lemma beacon_update_abs: "iv_abs (bt_mesh_beacon_update tc i s) = iv_abs s"
  by (simp add: bt_mesh_beacon_update_def Let_def iv_abs_def upd_sub_def split: sum.split)

lemma foreach_beacon_abs [simp]: "iv_abs (snd (bt_mesh_subnet_foreach (bt_mesh_beacon_update tc) s)) = iv_abs s"
proof -
  have "iv_abs (snd (fold (\<lambda>i (n, s). if sub_net_idx (subnets s ! i) = BT_MESH_KEY_UNUSED then (n, s)
      else (n + 1, bt_mesh_beacon_update tc i s)) l ns)) = iv_abs (snd ns)" for l and ns :: "nat \<times> 'a mesh_state_scheme"
    by (induction l arbitrary: ns) (auto simp: beacon_update_abs split: prod.split)
  then show ?thesis by (simp add: bt_mesh_subnet_foreach_def)
qed

lemma peer_call_abs [simp]: "iv_abs (peer_call c s) = iv_abs s"
  by (simp add: peer_call_def iv_abs_def)

lemma set_pending_abs [simp]: "iv_abs (set_flag BT_MESH_IVU_PENDING s) = iv_abs s"
  by (simp add: set_flag_def iv_abs_def)

lemma initiator_abs [simp]: "iv_abs (bt_mesh_beacon_ivu_initiator e s) = iv_abs s"
  by (simp add: bt_mesh_beacon_ivu_initiator_def set_flag_to_def iv_abs_def Let_def)

lemma timer_abs [simp]: "iv_abs (s\<lparr>ivu_timer := t\<rparr>) = iv_abs s"
  by (simp add: iv_abs_def)

lemma do_update_abs:
  "iv_abs (iv_do_update env iv u s) =
     (iv_abs s)\<lparr>im_update := u, im_hours := 0, im_iv := if u then unat iv else im_iv (iv_abs s),
       im_seq := if u then im_seq (iv_abs s) else 0\<rparr>"
  unfolding iv_do_update_def Let_def by (simp add: set_flag_to_def) (simp add: iv_abs_def)

lemma initiator_keeps:
  "bm_iv_index (bt_mesh_beacon_ivu_initiator e s) = bm_iv_index s"
  by (simp add: bt_mesh_beacon_ivu_initiator_def set_flag_to_def Let_def)

text \<open>The guards of the code in 32 bits.\<close>

lemma iv_guards:
  fixes iv cur :: u32
  shows "\<not> (iv < cur \<or> iv > cur + 42) \<and> iv \<noteq> cur \<longleftrightarrow> unat cur + 42 < 2 ^ 32 \<and> unat cur < unat iv \<and> unat iv \<le> unat cur + 42"
    "unat cur + 42 < 2 ^ 32 \<Longrightarrow> iv > cur + 1 \<longleftrightarrow> unat cur + 2 \<le> unat iv"
    "unat cur + 42 < 2 ^ 32 \<Longrightarrow> iv = cur + 1 \<longleftrightarrow> unat iv = unat cur + 1"
proof -
  have u: "unat cur < 2 ^ 32" "unat iv < 2 ^ 32" using unat_lt_pow [of cur] unat_lt_pow [of iv] by simp_all
  have w: "unat (cur + of_nat k) = unat cur + k" if "unat cur + k < 2 ^ 32" for k
    using that by (simp add: unat_word_ariths unsigned_of_nat take_bit_nat_def)
  have w': "unat (cur + 42) < unat cur" if "\<not> unat cur + 42 < 2 ^ 32"
    using that u by (simp add: unat_word_ariths mod_if)
  show "\<not> (iv < cur \<or> iv > cur + 42) \<and> iv \<noteq> cur \<longleftrightarrow>
      unat cur + 42 < 2 ^ 32 \<and> unat cur < unat iv \<and> unat iv \<le> unat cur + 42"
    using w [of 42] w' by (cases "unat cur + 42 < 2 ^ 32") (auto simp: word_less_nat_alt word_unat_eq_iff)
  show "unat cur + 42 < 2 ^ 32 \<Longrightarrow> iv > cur + 1 \<longleftrightarrow> unat cur + 2 \<le> unat iv"
    "unat cur + 42 < 2 ^ 32 \<Longrightarrow> iv = cur + 1 \<longleftrightarrow> unat iv = unat cur + 1"
    using w [of 1] by (auto simp: word_less_nat_alt word_unat_eq_iff)
qed

lemma iv_update_refines:
  "iv_abs (snd (bt_mesh_net_iv_update env iv u s)) = iv_spec (unat iv) u (ne_tx_in_progress env s) (iv_abs s)"
proof -
  have h: "bm_ivu_duration s < BT_MESH_IVU_MIN_HOURS \<longleftrightarrow> \<not> 96 \<le> unat (bm_ivu_duration s)"
    by (simp add: BT_MESH_IVU_MIN_HOURS_def word_less_nat_alt not_le)
  have rec: "iv_abs (iv_do_update env iv u ((bt_mesh_rpl_clear s)\<lparr>bm_iv_index := iv, bm_seq := 0\<rparr>)) =
      \<lparr>im_update = u, im_iv = unat iv, im_seq = 0, im_hours = 0\<rparr>"
    by (simp add: do_update_abs) (simp add: iv_abs_def)
  note g = iv_guards [where iv = iv and cur = "bm_iv_index s"]
  show ?thesis
  proof (cases "flags s BT_MESH_IVU_IN_PROGRESS")
    case True
    then have "im_update (iv_abs s)" by (simp add: iv_abs_def)
    with True show ?thesis
      by (simp add: bt_mesh_net_iv_update_def Let_def h do_update_abs iv_spec_def word_unat_eq_iff)
        (simp add: iv_abs_def)
  next
    case False
    then have m: "\<not> im_update (iv_abs s)" "im_iv (iv_abs s) = unat (bm_iv_index s)"
      "im_hours (iv_abs s) = unat (bm_ivu_duration s)" by (simp_all add: iv_abs_def)
    show ?thesis
    proof (cases "unat (bm_iv_index s) + 42 < 2 ^ 32 \<and> unat (bm_iv_index s) < unat iv \<and> unat iv \<le> unat (bm_iv_index s) + 42")
      case F: False
      then have "snd (bt_mesh_net_iv_update env iv u s) = s"
        using False g(1) by (auto simp: bt_mesh_net_iv_update_def Let_def)
      moreover have "iv_spec (unat iv) u b (iv_abs s) = iv_abs s" for b
        using F m by (auto simp: iv_spec_def)
      ultimately show ?thesis by simp
    next
      case T: True
      then have ng: "\<not> (iv < bm_iv_index s \<or> iv > bm_iv_index s + 42)" "iv \<noteq> bm_iv_index s" using g(1) by blast+
      show ?thesis
      proof (cases "unat iv = unat (bm_iv_index s) + 1")
        case one: True
        then have "\<not> iv > bm_iv_index s + 1" "iv = bm_iv_index s + 1" using g(2,3) T by auto
        with False ng m one T show ?thesis
          by (simp add: bt_mesh_net_iv_update_def Let_def h do_update_abs iv_spec_def)
      next
        case False
        then have "iv > bm_iv_index s + 1" using g(2) T by auto
        with \<open>\<not> flags s _\<close> ng m T False rec show ?thesis
          by (simp add: bt_mesh_net_iv_update_def Let_def iv_spec_def)
      qed
    qed
  qed
qed

section \<open>Nonces\<close>

text \<open>The IV index and sequence number the next PDU gets: in the update phase PDUs still carry the old index.\<close>

definition im_key :: "iv_machine \<Rightarrow> nat \<times> nat" where
  "im_key m = (im_iv m - of_bool (im_update m), im_seq m)"

definition im_ok :: "iv_machine \<Rightarrow> bool" where
  "im_ok m \<longleftrightarrow> (im_update m \<longrightarrow> 0 < im_iv m)"

lemma iv_spec_ok: "im_ok m \<Longrightarrow> im_ok (iv_spec iv u busy m)"
  by (auto simp: im_ok_def iv_spec_def)

lemma iv_spec_key: "im_ok m \<Longrightarrow> im_key m \<le> im_key (iv_spec iv u busy m)"
  by (auto simp: im_ok_def iv_spec_def im_key_def less_eq_prod_def)

text \<open>Starting an update does not change the index that PDUs carry.\<close>

lemma iv_spec_start: "im_key (iv_spec (Suc (im_iv m)) True busy m) = im_key m"
  by (auto simp: iv_spec_def im_key_def)

lemma iv_spec_below: "im_ok m \<Longrightarrow> iv \<le> im_iv m \<Longrightarrow> \<not> im_update m \<Longrightarrow> iv_spec iv True busy m = m"
  by (auto simp: iv_spec_def)

lemma ivi_tx_key:
  "im_ok (iv_abs s) \<Longrightarrow> (unat (BT_MESH_NET_IVI_TX s), unat (bm_seq s)) = im_key (iv_abs s)"
  by (auto simp: im_ok_def im_key_def iv_abs_def BT_MESH_NET_IVI_TX_def unat_minus_one unat_gt_0)

lemma next_seq_key:
  assumes ok: "im_ok (iv_abs s)" and lim: "bm_seq s < 2 ^ 24"
  shows "im_ok (iv_abs (snd (bt_mesh_next_seq env s)))"
    "im_key (iv_abs (snd (bt_mesh_next_seq env s))) = (fst (im_key (iv_abs s)), unat (bm_seq s) + 1)"
proof -
  let ?s1 = "bt_mesh_store_seq (bm_seq s + 1) (s\<lparr>bm_seq := bm_seq s + 1\<rparr>)"
  have "unat (bm_seq s) < 2 ^ 24" using lim by (simp add: word_less_nat_alt)
  then have w: "unat (bm_seq s + 1) = unat (bm_seq s) + 1" by (intro unat_add_one_u32) simp
  have "iv_abs ?s1 = iv_abs (s\<lparr>bm_seq := bm_seq s + 1\<rparr>)" by simp
  also have "\<dots> = (iv_abs s)\<lparr>im_seq := unat (bm_seq s) + 1\<rparr>" by (simp add: iv_abs_def w)
  finally have a: "iv_abs ?s1 = (iv_abs s)\<lparr>im_seq := unat (bm_seq s) + 1\<rparr>" .
  have b: "flags ?s1 BT_MESH_IVU_IN_PROGRESS = im_update (iv_abs s)" "bm_iv_index ?s1 = bm_iv_index s"
    using arg_cong [OF a, of im_update] arg_cong [OF a, of im_iv] by (simp_all add: iv_abs_def word_unat_eq_iff)
  let ?t = "bt_mesh_beacon_ivu_initiator True ?s1"
  let ?u = "snd (bt_mesh_net_iv_update env (bm_iv_index s + 1) True ?t)"
  have ok1: "im_ok (iv_abs ?s1)" using ok a by (simp add: im_ok_def)
  have u: "im_ok (iv_abs ?u) \<and> im_key (iv_abs ?u) = im_key (iv_abs ?s1)" if up: "\<not> im_update (iv_abs s)"
  proof (cases "unat (bm_iv_index s + 1) = unat (bm_iv_index s) + 1")
    case True
    then have "unat (bm_iv_index s + 1) = im_iv (iv_abs ?s1) + 1" by (simp add: iv_abs_def b)
    then show ?thesis using ok1 by (simp add: iv_update_refines iv_spec_ok iv_spec_start)
  next
    case False
    then have "unat (bm_iv_index s + 1) = 0"
      using unat_lt_pow [of "bm_iv_index s"] by (simp add: unat_word_ariths mod_Suc split: if_splits)
    moreover have "\<not> im_update (iv_abs ?s1)" using up a by simp
    ultimately show ?thesis using ok1 by (simp add: iv_update_refines iv_spec_below)
  qed
  have k: "im_key (iv_abs ?s1) = (fst (im_key (iv_abs s)), unat (bm_seq s) + 1)" using a by (simp add: im_key_def)
  show "im_ok (iv_abs (snd (bt_mesh_next_seq env s)))"
    "im_key (iv_abs (snd (bt_mesh_next_seq env s))) = (fst (im_key (iv_abs s)), unat (bm_seq s) + 1)"
    using u ok1 k b by (simp_all add: bt_mesh_next_seq_def Let_def)
qed

lemma ivu_refresh_key:
  assumes "im_ok (iv_abs s)"
  shows "im_ok (iv_abs (ivu_refresh env s))" "im_key (iv_abs s) \<le> im_key (iv_abs (ivu_refresh env s))"
proof -
  let ?s1 = "s\<lparr>bm_ivu_duration := bm_ivu_duration s + BT_MESH_IVU_HOURS, ivu_timer := None\<rparr>"
  have k: "im_key (iv_abs ?s1) = im_key (iv_abs s)" "im_ok (iv_abs ?s1)" using assms
    by (simp_all add: im_key_def im_ok_def iv_abs_def)
  have "im_ok (iv_abs (ivu_refresh env s)) \<and> im_key (iv_abs ?s1) \<le> im_key (iv_abs (ivu_refresh env s))"
    using iv_spec_ok [OF k(2)] iv_spec_key [OF k(2)] k(2)
    by (simp add: ivu_refresh_def Let_def iv_update_refines)
  then show "im_ok (iv_abs (ivu_refresh env s))" "im_key (iv_abs s) \<le> im_key (iv_abs (ivu_refresh env s))" using k(1) by simp_all
qed

lemma push_room:
  "nb_push_mem b bs = Some b' \<Longrightarrow> nb_invar b \<Longrightarrow> nb_invar b' \<and> net_buf_simple_headroom b = net_buf_simple_headroom b' + length bs"
  using nb_push_content by blast

lemma header_encode_room:
  assumes "net_header_encode env tx nid buf s = Some (Inr b, s')" "nb_invar buf"
  shows "9 \<le> net_buf_simple_headroom buf"
proof -
  obtain b1 b2 b3 b4 ttl sq o1 where
    "nb_push_mem buf (sys_put_be16 (ctx_addr (tx_ctx tx))) = Some b1" "nb_push_mem b1 (sys_put_be16 (tx_src tx)) = Some b2"
    "nb_push_mem b2 (sys_put_be24 sq) = Some b3" "nb_push_mem b3 [ttl] = Some b4" "nb_push_mem b4 [o1] = Some b"
    using assms(1)
    by (auto simp: net_header_encode_def Let_def split_beta net_buf_simple_push_be16_def net_buf_simple_push_be24_def
        net_buf_simple_push_u8_def bind_eq_Some_conv split: if_splits)
  then show ?thesis using assms(2) by (auto dest!: push_room)
qed

lemma header_encode_seq:
  assumes "net_header_encode env tx nid buf s = Some (Inr b, s')" "nb_invar buf" "bm_seq s < 2 ^ 24"
  shows "s' = snd (bt_mesh_next_seq env s)" "SEQ (nb_data b) = bm_seq s"
proof -
  have "\<not> ((ctx_app_idx (tx_ctx tx) = BT_MESH_KEY_UNUSED) \<and> net_buf_simple_tailroom buf < 8)" "\<not> net_buf_simple_tailroom buf < 4"
    using assms(1) by (auto simp: net_header_encode_def Let_def split: if_splits)
  then have room: "(if ctx_app_idx (tx_ctx tx) = BT_MESH_KEY_UNUSED then 8 else 4) \<le> net_buf_simple_tailroom buf" by auto
  have "9 \<le> net_buf_simple_headroom buf" by (rule header_encode_room [OF assms(1,2)])
  from net_header_encode_eq [OF assms(2) this room, of env nid s] assms(1) obtain ttl where
    "s' = snd (bt_mesh_next_seq env s)" "SEQ (nb_data b) = take_bit 24 (bm_seq s)" by (auto simp: SEQ_def net_hdr_def)
  then show "s' = snd (bt_mesh_next_seq env s)" "SEQ (nb_data b) = bm_seq s"
    using take_bit_word_id [OF _ assms(3)] by simp_all
qed

abbreviation key_nat :: "u32 \<times> u32 \<Rightarrow> nat \<times> nat" where
  "key_nat k \<equiv> map_prod unat unat k"

lemma iv_update_result:
  "fst (bt_mesh_net_iv_update env iv u s) \<longleftrightarrow> iv_abs (snd (bt_mesh_net_iv_update env iv u s)) \<noteq> iv_abs s"
proof -
  have u: "iv_abs (iv_do_update env iv v t) \<noteq> iv_abs s" if "v \<noteq> flags s BT_MESH_IVU_IN_PROGRESS" for v t
    using arg_cong [OF do_update_abs [of env iv v t], of im_update] that by (auto simp: iv_abs_def)
  have r: "iv_abs (iv_do_update env iv v ((bt_mesh_rpl_clear s)\<lparr>bm_iv_index := iv, bm_seq := 0\<rparr>)) \<noteq> iv_abs s" if "iv \<noteq> bm_iv_index s" for v
    using arg_cong [OF do_update_abs [of env iv v "(bt_mesh_rpl_clear s)\<lparr>bm_iv_index := iv, bm_seq := 0\<rparr>"], of im_iv] that
    by (auto simp: iv_abs_def word_unat_eq_iff)
  show ?thesis using u [of True s] u [of False s] r [of u] by (auto simp: bt_mesh_net_iv_update_def Let_def)
qed

section \<open>The timer\<close>

text \<open>In the update phase the timer counts the hours and ends the phase after 96 of them.\<close>

lemma ivu_refresh_wait:
  assumes "bm_ivu_duration s + BT_MESH_IVU_HOURS < BT_MESH_IVU_MIN_HOURS"
  shows "iv_abs (ivu_refresh env s) = (iv_abs s)\<lparr>im_hours := unat (bm_ivu_duration s + BT_MESH_IVU_HOURS)\<rparr>"
    "ivu_timer (ivu_refresh env s) = Some BT_MESH_IVU_TIMEOUT"
  using assms by (simp_all add: ivu_refresh_def Let_def) (simp add: iv_abs_def)

definition ivu_due :: "'a net_state_scheme \<Rightarrow> 'a net_state_scheme" where
  "ivu_due s = bt_mesh_beacon_ivu_initiator True
     (s\<lparr>bm_ivu_duration := bm_ivu_duration s + BT_MESH_IVU_HOURS, ivu_timer := None\<rparr>)"

lemma ivu_refresh_due:
  assumes "96 \<le> unat (bm_ivu_duration s + BT_MESH_IVU_HOURS)" "flags s BT_MESH_IVU_IN_PROGRESS"
  shows "ivu_refresh env s = snd (bt_mesh_net_iv_update env (bm_iv_index s) False (ivu_due s))"
    "iv_abs (ivu_due s) = (iv_abs s)\<lparr>im_hours := unat (bm_ivu_duration s + BT_MESH_IVU_HOURS)\<rparr>"
proof -
  have "\<not> bm_ivu_duration s + BT_MESH_IVU_HOURS < BT_MESH_IVU_MIN_HOURS"
    using assms(1) by (simp add: word_less_nat_alt BT_MESH_IVU_MIN_HOURS_def)
  then show "ivu_refresh env s = snd (bt_mesh_net_iv_update env (bm_iv_index s) False (ivu_due s))"
    using assms(2) by (simp add: ivu_refresh_def Let_def ivu_due_def)
  show "iv_abs (ivu_due s) = (iv_abs s)\<lparr>im_hours := unat (bm_ivu_duration s + BT_MESH_IVU_HOURS)\<rparr>"
    unfolding ivu_due_def by simp (simp add: iv_abs_def)
qed

lemma ivu_refresh_end:
  assumes "96 \<le> unat (bm_ivu_duration s + BT_MESH_IVU_HOURS)" "flags s BT_MESH_IVU_IN_PROGRESS"
  shows "iv_abs (ivu_refresh env s) =
    (if ne_tx_in_progress env (ivu_due s) then (iv_abs s)\<lparr>im_hours := unat (bm_ivu_duration s + BT_MESH_IVU_HOURS)\<rparr>
     else (iv_abs s)\<lparr>im_update := False, im_seq := 0, im_hours := 0\<rparr>)"
proof -
  have m: "im_update (iv_abs s)" "im_iv (iv_abs s) = unat (bm_iv_index s)" using assms(2) by (simp_all add: iv_abs_def)
  show ?thesis unfolding ivu_refresh_due(1) [OF assms] iv_update_refines ivu_refresh_due(2) [OF assms]
    using assms(1) m by (simp add: iv_spec_def)
qed

text \<open>A refused end of the phase is noted in \<^verbatim>\<open>BT_MESH_IVU_PENDING\<close>.\<close>

lemma iv_update_pending:
  assumes "flags s BT_MESH_IVU_IN_PROGRESS" "96 \<le> unat (bm_ivu_duration s)" "ne_tx_in_progress env s"
  shows "snd (bt_mesh_net_iv_update env (bm_iv_index s) False s) = set_flag BT_MESH_IVU_PENDING s"
  using assms by (simp add: bt_mesh_net_iv_update_def Let_def BT_MESH_IVU_MIN_HOURS_def word_less_nat_alt)

section \<open>Properties\<close>

text \<open>C16: the IV update procedure. For every received IV index and update flag, \<^verbatim>\<open>bt_mesh_net_iv_update\<close> takes the
  step of the machine of the Mesh Profile (back to normal operation after 96 hours unless a transmission is in
  progress, start of an update to the next index after 96 hours, recovery of an index that is at most 42 ahead),
  with the 32-bit comparisons of the code computing the unbounded ones, and it returns true exactly when the
  machine moved.\<close>

theorem net_iv_update_refinement:
  "iv_abs (snd (bt_mesh_net_iv_update env iv u s)) = iv_spec (unat iv) u (ne_tx_in_progress env s) (iv_abs s) \<and>
   (fst (bt_mesh_net_iv_update env iv u s) \<longleftrightarrow> iv_spec (unat iv) u (ne_tx_in_progress env s) (iv_abs s) \<noteq> iv_abs s)"
  using iv_update_refines [of env iv u s] iv_update_result [of env iv u s] by simp

text \<open>C19: where nonces are reused. Nothing stops a node whose sequence number runs past its 24-bit field before an IV
  update is allowed: two PDUs that are \<open>2 ^ 24\<close> apart get the same header, and with the same IV index the same nonce.\<close>

theorem net_seq_wrap:
  assumes "nb_invar buf" "9 \<le> net_buf_simple_headroom buf" "8 \<le> net_buf_simple_tailroom buf"
    and "bm_seq s' = bm_seq s + 2 ^ 24"
    and "BT_MESH_NET_IVI_TX (snd (bt_mesh_next_seq env s')) = BT_MESH_NET_IVI_TX (snd (bt_mesh_next_seq env s))"
  shows "\<exists>b b'. net_header_encode env tx nid buf s = Some (Inr b, snd (bt_mesh_next_seq env s)) \<and>
    net_header_encode env tx nid buf s' = Some (Inr b', snd (bt_mesh_next_seq env s')) \<and> nb_data b' = nb_data b"
proof -
  have room: "(if ctx_app_idx (tx_ctx tx) = BT_MESH_KEY_UNUSED then 8 else 4) \<le> net_buf_simple_tailroom buf" using assms(3) by simp
  have "sys_put_be24 (x + 2 ^ 24) = sys_put_be24 x" for x :: u32
  proof -
    have "(uint x + 2 ^ 24) mod 2 ^ 32 mod 2 ^ 24 = uint x mod 2 ^ 24" by (simp add: mod_mod_cancel)
    then have t: "take_bit 24 (x + 2 ^ 24) = take_bit 24 x"
      by (simp add: word_uint_eq_iff unsigned_take_bit_eq uint_word_ariths take_bit_eq_mod uint_mod_distrib)
    have c: "ucast (drop_bit 16 w) = (ucast (drop_bit 16 (take_bit 24 w)) :: u8)" "ucast w = (ucast (take_bit 24 w) :: u16)" for w :: u32
      by (rule bit_word_eqI; simp add: bit_simps)+
    show ?thesis unfolding sys_put_be24_def c [of "x + 2 ^ 24"] c [of x] t ..
  qed
  then have h: "net_hdr nid i c ttl (bm_seq s') src dst = net_hdr nid i c ttl (bm_seq s) src dst" for i c ttl src dst
    using assms(4) by (simp add: net_hdr_def)
  from net_header_encode_eq [OF assms(1,2) room, of env nid s] net_header_encode_eq [OF assms(1,2) room, of env nid s'] assms(5) h
  show ?thesis by (auto simp: assms(5))
qed

theorem net_seq_wrap_witness:
  "\<exists>b b' s1 s2. net_header_encode (env_example 1) tx_example 5 buf_example net_example = Some (Inr b, s1) \<and>
     net_header_encode (env_example 1) tx_example 5 buf_example (net_example\<lparr>bm_seq := 2 ^ 24\<rparr>) = Some (Inr b', s2) \<and>
     nb_data b' = nb_data b"
proof -
  let ?s' = "net_example\<lparr>bm_seq := 2 ^ 24\<rparr>" and ?e = "env_example 1"
  have b: "nb_invar buf_example" "9 \<le> net_buf_simple_headroom buf_example" "8 \<le> net_buf_simple_tailroom buf_example"
    by (simp_all add: buf_example_def nb_basic_defs)
  have d: "bm_ivu_duration net_example = 0" "\<not> flags net_example BT_MESH_IVU_IN_PROGRESS" "bm_iv_index net_example = 6"
    "bm_seq net_example = 0" by (simp_all add: net_example_def net_boot_def)
  have k: "bm_iv_index (bt_mesh_store_seq q t) = bm_iv_index t" for q and t :: net_state
    by (simp add: bt_mesh_store_seq_def schedule_store_def set_flag_def Let_def)
  have iv: "BT_MESH_NET_IVI_TX (snd (bt_mesh_next_seq ?e t)) = 6"
    if "iv_abs (snd (bt_mesh_next_seq ?e t)) = \<lparr>im_update = False, im_iv = 6, im_seq = q, im_hours = 0\<rparr>" for t q
    using that by (auto simp: iv_abs_def BT_MESH_NET_IVI_TX_def word_unat_eq_iff)
  have "iv_abs (snd (bt_mesh_next_seq ?e net_example)) = \<lparr>im_update = False, im_iv = 6, im_seq = 1, im_hours = 0\<rparr>"
    "iv_abs (snd (bt_mesh_next_seq ?e ?s')) = \<lparr>im_update = False, im_iv = 6, im_seq = 2 ^ 24 + 1, im_hours = 0\<rparr>"
    using d by (simp_all add: bt_mesh_next_seq_def Let_def iv_update_refines) (simp_all add: iv_abs_def iv_spec_def k)
  note iv = iv [OF this(1)] iv [OF this(2)]
  have "\<exists>b b'. net_header_encode ?e tx_example 5 buf_example net_example = Some (Inr b, snd (bt_mesh_next_seq ?e net_example)) \<and>
    net_header_encode ?e tx_example 5 buf_example ?s' = Some (Inr b', snd (bt_mesh_next_seq ?e ?s')) \<and> nb_data b' = nb_data b"
    by (rule net_seq_wrap [OF b]) (use d in simp, simp only: iv)
  then show ?thesis by blast
qed

end
