(* ===== verification/Net_Store.thy ===== *)
theory Net_Store
  imports Net_Iv
begin

text \<open>
  The IV index and the sequence number over the life of a node: what settings.c stores of them and loads after a
  restart, and the runs of a provisioned node (sending, taking numbers, beacons, the timer, the storage work item and
  restarts, in any order), in which no pair of IV index and sequence number is used twice.
\<close>

section \<open>Storing and loading\<close>

text \<open>
  \<^verbatim>\<open>iv_set\<close> and \<^verbatim>\<open>seq_set\<close> get the stored value, or \<open>None\<close> for an entry of length 0 (a deleted one). The settings
  back end writes and reads back what it is given.
\<close>

definition iv_set :: "iv_val option \<Rightarrow> 'a bt_mesh_net_scheme \<Rightarrow> 'a bt_mesh_net_scheme" where
  "iv_set v s =
     (case v of
        None \<Rightarrow> set_flag_to BT_MESH_IVU_IN_PROGRESS False (s\<lparr>bm_iv_index := 0\<rparr>)
      | Some iv \<Rightarrow>
          (set_flag_to BT_MESH_IVU_IN_PROGRESS (iv_iv_update iv) (s\<lparr>bm_iv_index := iv_iv_index iv\<rparr>))
            \<lparr>bm_ivu_duration := iv_iv_duration iv\<rparr>)"

definition seq_set :: "bytes option \<Rightarrow> 'a bt_mesh_net_scheme \<Rightarrow> 'a bt_mesh_net_scheme" where
  "seq_set v s =
     (case v of
        None \<Rightarrow> s\<lparr>bm_seq := 0\<rparr>
      | Some val \<Rightarrow>
          let sq = sys_get_le24 val in
          s\<lparr>bm_seq := (if CONFIG_BT_MESH_SEQ_STORE_RATE > 0
                       then sq + (CONFIG_BT_MESH_SEQ_STORE_RATE - sq mod CONFIG_BT_MESH_SEQ_STORE_RATE) - 1
                       else sq)\<rparr>)"

text \<open>The handler \<^verbatim>\<open>mesh_set\<close> calls for the two entries; it is called for the entries that exist.\<close>

definition load_iv :: "'a mesh_state_scheme \<Rightarrow> 'a mesh_state_scheme" where
  "load_iv s = (case flash s SK_IV of Some (V_IV iv) \<Rightarrow> iv_set (Some iv) s | _ \<Rightarrow> s)"

definition load_seq :: "'a mesh_state_scheme \<Rightarrow> 'a mesh_state_scheme" where
  "load_seq s = (case flash s SK_Seq of Some (V_Seq val) \<Rightarrow> seq_set (Some val) s | _ \<Rightarrow> s)"

definition store_pending_iv :: "'a mesh_state_scheme \<Rightarrow> 'a mesh_state_scheme" where
  "store_pending_iv s =
     settings_save_one SK_IV
       (V_IV \<lparr>iv_iv_index = bm_iv_index s, iv_iv_update = flags s BT_MESH_IVU_IN_PROGRESS,
              iv_iv_duration = bm_ivu_duration s\<rparr>) s"

definition clear_iv :: "'a mesh_state_scheme \<Rightarrow> 'a mesh_state_scheme" where
  "clear_iv s = settings_delete SK_IV s"

definition store_pending_seq :: "'a mesh_state_scheme \<Rightarrow> 'a mesh_state_scheme" where
  "store_pending_seq s = settings_save_one SK_Seq (V_Seq (sys_put_le24 (bm_seq s))) s"

text \<open>The branches of \<^verbatim>\<open>store_pending\<close> for the two bits.\<close>

definition store_pending_iv_bit :: "'a mesh_state_scheme \<Rightarrow> 'a mesh_state_scheme" where
  "store_pending_iv_bit s =
     (if flags s BT_MESH_IV_PENDING then
        let s = set_flag_to BT_MESH_IV_PENDING False s in
        if flags s BT_MESH_VALID then store_pending_iv s else clear_iv s
      else s)"

definition store_pending_seq_bit :: "'a mesh_state_scheme \<Rightarrow> 'a mesh_state_scheme" where
  "store_pending_seq_bit s =
     (if flags s BT_MESH_SEQ_PENDING then store_pending_seq (set_flag_to BT_MESH_SEQ_PENDING False s) else s)"

text \<open>
  After a restart with the flash \<open>store\<close>: the static initialisers (\<open>s0\<close>), the two entries, and the flag that
  \<^verbatim>\<open>mesh_commit\<close> sets for a provisioned node. The other entries have nothing to do with either number.
\<close>

definition net_reload :: "'a mesh_state_scheme \<Rightarrow> 'a mesh_state_scheme" where
  "net_reload s0 = set_flag BT_MESH_VALID (load_seq (load_iv s0))"

section \<open>Runs\<close>

text \<open>
  What is used up: the IV index and the sequence number (the 24 bits that the PDU carries) of the nonce, and the 32-bit
  counter that the number was taken from.
\<close>

type_synonym nonce_use = "u32 \<times> u32 \<times> u32"

text \<open>
  The steps of a provisioned node that matter here. \<open>send\<close> encodes a PDU; \<open>take_seq\<close> is a direct call of
  \<^verbatim>\<open>bt_mesh_next_seq\<close> (a blocked segment of transport.c skips its number, friend.c puts it in a PDU for its friend);
  \<open>beacon\<close> is a call of \<^verbatim>\<open>bt_mesh_net_iv_update\<close> with any index and flag; \<open>timer\<close> the expiry of the timer;
  \<open>store_iv\<close> and \<open>store_seq\<close> the two branches of the work item \<^verbatim>\<open>store_pending\<close>, which is submitted without a delay.
  \<open>restart\<close> loses everything but the flash, at a time when the work item has run for the last request. \<open>other\<close> is
  everything else: it leaves the IV index, the phase and the sequence number alone, and may only ask for more writes. A
  run ends when the node is reset, which discards its keys.
\<close>

inductive net_iv_step ::
    "'a net_state_scheme net_env \<Rightarrow> 'a net_state_scheme \<Rightarrow> nonce_use option \<Rightarrow> 'a net_state_scheme \<Rightarrow> bool"
  for env where
  send: "net_header_encode env tx nid buf s = Some (Inr b, s') \<Longrightarrow> nb_invar buf \<Longrightarrow>
    net_iv_step env s (Some (BT_MESH_NET_IVI_TX s', SEQ (nb_data b), bm_seq s)) s'"
| take_seq: "bt_mesh_next_seq env s = (sq, s') \<Longrightarrow>
    net_iv_step env s (Some (BT_MESH_NET_IVI_TX s', take_bit 24 sq, sq)) s'"
| beacon: "net_iv_step env s None (snd (bt_mesh_net_iv_update env iv u s))"
| timer: "net_iv_step env s None (ivu_refresh env s)"
| store_iv: "net_iv_step env s None (store_pending_iv_bit s)"
| store_seq: "net_iv_step env s None (store_pending_seq_bit s)"
| restart: "\<not> flags s BT_MESH_IV_PENDING \<Longrightarrow> \<not> flags s BT_MESH_SEQ_PENDING \<Longrightarrow> flash s0 = flash s \<Longrightarrow>
    flags s0 = (\<lambda>_. False) \<Longrightarrow> bm_iv_index s0 = 0 \<Longrightarrow> bm_seq s0 = 0 \<Longrightarrow> net_iv_step env s None (net_reload s0)"
| other: "iv_abs s' = iv_abs s \<Longrightarrow> flash s' SK_IV = flash s SK_IV \<Longrightarrow> flash s' SK_Seq = flash s SK_Seq \<Longrightarrow>
    flags s' BT_MESH_VALID = flags s BT_MESH_VALID \<Longrightarrow> (flags s BT_MESH_IV_PENDING \<Longrightarrow> flags s' BT_MESH_IV_PENDING) \<Longrightarrow>
    (flags s BT_MESH_SEQ_PENDING \<Longrightarrow> flags s' BT_MESH_SEQ_PENDING) \<Longrightarrow> net_iv_step env s None s'"

inductive net_iv_run ::
    "'a net_state_scheme net_env \<Rightarrow> 'a net_state_scheme \<Rightarrow> nonce_use list \<Rightarrow> 'a net_state_scheme \<Rightarrow> bool"
  for env where
  start: "net_iv_run env s [] s"
| step: "net_iv_run env s ks s' \<Longrightarrow> net_iv_step env s' k s'' \<Longrightarrow>
    net_iv_run env s (ks @ (case k of None \<Rightarrow> [] | Some x \<Rightarrow> [x])) s''"

definition nonce_of :: "nonce_use \<Rightarrow> nat \<times> nat" where
  "nonce_of k = (unat (fst k), unat (fst (snd k)))"

definition use_seq :: "nonce_use \<Rightarrow> u32" where
  "use_seq k = snd (snd k)"

text \<open>
  What the flash holds of a provisioned node: unless a write is pending, the IV index and the phase, and a sequence
  number that \<^verbatim>\<open>seq_set\<close> raises to at least the current one.
\<close>

definition seq_restored :: "u32 \<Rightarrow> nat" where
  "seq_restored v = 128 * (unat v div 128) + 127"

definition iv_stored :: "'a mesh_state_scheme \<Rightarrow> bool" where
  "iv_stored s \<longleftrightarrow> (case flash s SK_IV of
     Some (V_IV iv) \<Rightarrow> iv_iv_index iv = bm_iv_index s \<and> iv_iv_update iv = flags s BT_MESH_IVU_IN_PROGRESS | _ \<Rightarrow> False)"

definition seq_stored :: "'a mesh_state_scheme \<Rightarrow> bool" where
  "seq_stored s \<longleftrightarrow> (case flash s SK_Seq of
     Some (V_Seq val) \<Rightarrow> sys_get_le24 val < 2 ^ 24 \<and> unat (bm_seq s) \<le> seq_restored (sys_get_le24 val) | _ \<Rightarrow> False)"

definition stored_ok :: "'a mesh_state_scheme \<Rightarrow> bool" where
  "stored_ok s \<longleftrightarrow> flags s BT_MESH_VALID \<and> (flags s BT_MESH_IV_PENDING \<or> iv_stored s) \<and>
     (flags s BT_MESH_SEQ_PENDING \<or> seq_stored s)"

section \<open>What the network layer asks to be stored\<close>

definition store_abs :: "'a mesh_state_scheme \<Rightarrow> settings_store \<times> bool \<times> bool \<times> bool" where
  "store_abs s = (flash s, flags s BT_MESH_VALID, flags s BT_MESH_IV_PENDING, flags s BT_MESH_SEQ_PENDING)"

named_theorems store_keep

lemma schedule_store_keep:
  "f \<noteq> BT_MESH_VALID \<Longrightarrow> f \<noteq> BT_MESH_IV_PENDING \<Longrightarrow> f \<noteq> BT_MESH_SEQ_PENDING \<Longrightarrow>
    store_abs (schedule_store f s) = store_abs s"
  by (auto simp: store_abs_def schedule_store_def set_flag_def Let_def)

lemma fields_keep [store_keep]:
  "store_abs (s\<lparr>bm_iv_index := a\<rparr>) = store_abs s" "store_abs (s\<lparr>bm_seq := a\<rparr>) = store_abs s"
  "store_abs (s\<lparr>bm_ivu_duration := b\<rparr>) = store_abs s" "store_abs (t\<lparr>ivu_timer := w\<rparr>) = store_abs t"
  "store_abs (s\<lparr>replay_list := r\<rparr>) = store_abs s"
  by (simp_all add: store_abs_def)

lemma stores_keep [store_keep]:
  "store_abs (bt_mesh_rpl_clear s) = store_abs s" "store_abs (peer_call c t) = store_abs t"
  "store_abs (bt_mesh_beacon_ivu_initiator e u) = store_abs u"
  "store_abs (set_flag_to BT_MESH_IVU_IN_PROGRESS e s) = store_abs s"
  "store_abs (set_flag BT_MESH_IVU_PENDING s) = store_abs s"
  by (simp_all add: bt_mesh_rpl_clear_def bt_mesh_clear_rpl_def schedule_store_keep fields_keep)
     (simp_all add: store_abs_def peer_call_def bt_mesh_beacon_ivu_initiator_def set_flag_to_def set_flag_def Let_def)

lemma rpl_reset_keep [store_keep]: "store_abs (bt_mesh_rpl_reset s) = store_abs s"
proof -
  have "store_abs (rpl_reset_loop n i s) = store_abs s" for n i and s :: "'a mesh_state_scheme"
    by (induction n arbitrary: i s) (simp_all add: bt_mesh_store_rpl_def schedule_store_keep fields_keep)
  then show ?thesis by (simp add: bt_mesh_rpl_reset_def)
qed

lemma beacon_update_keep: "store_abs (bt_mesh_beacon_update tc i s) = store_abs s"
  by (simp add: bt_mesh_beacon_update_def Let_def store_abs_def upd_sub_def split: sum.split)

lemma foreach_beacon_keep [store_keep]:
  "store_abs (snd (bt_mesh_subnet_foreach (bt_mesh_beacon_update tc) s)) = store_abs s"
proof -
  have "store_abs (snd (fold (\<lambda>i (n, s). if sub_net_idx (subnets s ! i) = BT_MESH_KEY_UNUSED then (n, s)
      else (n + 1, bt_mesh_beacon_update tc i s)) l ns)) = store_abs (snd ns)" for l and ns :: "nat \<times> 'a mesh_state_scheme"
    by (induction l arbitrary: ns) (auto simp: beacon_update_keep split: prod.split)
  then show ?thesis by (simp add: bt_mesh_subnet_foreach_def)
qed

lemma store_iv_pending:
  "store_abs (bt_mesh_store_iv d s) = (flash s, flags s BT_MESH_VALID, True, \<not> d \<or> flags s BT_MESH_SEQ_PENDING)"
  by (simp add: bt_mesh_store_iv_def store_abs_def schedule_store_def set_flag_def Let_def)

lemma store_seq_pending:
  "store_abs (bt_mesh_store_seq q s) =
     (flash s, flags s BT_MESH_VALID, flags s BT_MESH_IV_PENDING, q mod 128 = 0 \<or> flags s BT_MESH_SEQ_PENDING)"
  by (simp add: bt_mesh_store_seq_def store_abs_def schedule_store_def set_flag_def Let_def CONFIG_BT_MESH_SEQ_STORE_RATE_def)

lemma store_iv_both:
  "store_abs t = store_abs s \<Longrightarrow> store_abs (bt_mesh_store_iv False t) = (flash s, flags s BT_MESH_VALID, True, True)"
  by (simp add: store_iv_pending) (simp add: store_abs_def)

lemma iv_do_update_store: "store_abs (iv_do_update env iv u s) = (flash s, flags s BT_MESH_VALID, True, True)"
  unfolding iv_do_update_def Let_def by (rule store_iv_both) (simp add: store_keep)

text \<open>An update of the IV index either changes nothing that is stored, or asks for both entries to be written.\<close>

lemma iv_update_store:
  "iv_abs (snd (bt_mesh_net_iv_update env iv u s)) = iv_abs s \<and>
     store_abs (snd (bt_mesh_net_iv_update env iv u s)) = store_abs s \<or>
   store_abs (snd (bt_mesh_net_iv_update env iv u s)) = (flash s, flags s BT_MESH_VALID, True, True)"
proof -
  have r: "flash (bt_mesh_rpl_clear s) = flash s" "flags (bt_mesh_rpl_clear s) BT_MESH_VALID = flags s BT_MESH_VALID"
    using stores_keep(1) [of s] by (simp_all add: store_abs_def)
  show ?thesis by (simp add: bt_mesh_net_iv_update_def Let_def r iv_do_update_store store_keep)
qed

section \<open>The stored numbers are never behind\<close>

lemma seq_restored_set:
  assumes "sys_get_le24 val < 2 ^ 24"
  shows "unat (bm_seq (seq_set (Some val) s)) = seq_restored (sys_get_le24 val)" "seq_restored (sys_get_le24 val) < 2 ^ 24"
proof -
  let ?v = "sys_get_le24 val"
  have v: "unat ?v < 2 ^ 24" using assms by (simp add: word_less_nat_alt)
  have m: "unat (?v mod 128) = unat ?v mod 128" by (simp add: unat_mod)
  have d: "unat (128 - ?v mod 128) = 128 - unat ?v mod 128"
    by (subst unat_sub) (simp_all add: m word_le_nat_alt)
  have a: "unat (?v + (128 - ?v mod 128)) = unat ?v + (128 - unat ?v mod 128)"
    using v by (subst unat_add_lem [THEN iffD1]) (simp_all add: d)
  have "unat (?v + (128 - ?v mod 128) - 1) = unat ?v + (128 - unat ?v mod 128) - 1"
    using a by (subst unat_minus_one) (auto simp: word_unat_eq_iff)
  moreover have "unat ?v + (128 - unat ?v mod 128) - 1 = 128 * (unat ?v div 128) + 127"
    using mult_div_mod_eq [of 128 "unat ?v"] by linarith
  ultimately show "unat (bm_seq (seq_set (Some val) s)) = seq_restored ?v"
    by (simp add: seq_set_def CONFIG_BT_MESH_SEQ_STORE_RATE_def seq_restored_def Let_def)
  have "unat ?v div 128 < 2 ^ 17" using v by (intro less_mult_imp_div_less) simp
  then show "seq_restored ?v < 2 ^ 24" by (simp add: seq_restored_def)
qed

text \<open>A number that is counted up past what the flash covers is a multiple of the store rate.\<close>

lemma seq_restored_step:
  fixes q :: u32
  assumes "unat q \<le> seq_restored v" "q < 2 ^ 24" "(q + 1) mod 128 \<noteq> 0"
  shows "unat (q + 1) \<le> seq_restored v"
proof -
  have "unat q < 2 ^ 24" using assms(2) by (simp add: word_less_nat_alt)
  then have w: "unat (q + 1) = unat q + 1" by (intro unat_add_one_u32) simp
  have "(unat q + 1) mod 128 \<noteq> 0" using assms(3) w by (auto simp: word_unat_eq_iff unat_mod)
  then have "unat q \<noteq> seq_restored v" by (auto simp: seq_restored_def)
  then show ?thesis using assms(1) w by simp
qed

lemma iv_stored_iff:
  "iv_stored s \<longleftrightarrow> (\<exists>iv. flash s SK_IV = Some (V_IV iv) \<and> iv_iv_index iv = bm_iv_index s \<and>
     iv_iv_update iv = flags s BT_MESH_IVU_IN_PROGRESS)"
  by (auto simp: iv_stored_def split: option.splits settings_val.splits)

lemma seq_stored_iff:
  "seq_stored s \<longleftrightarrow> (\<exists>val. flash s SK_Seq = Some (V_Seq val) \<and> sys_get_le24 val < 2 ^ 24 \<and>
     unat (bm_seq s) \<le> seq_restored (sys_get_le24 val))"
  by (auto simp: seq_stored_def split: option.splits settings_val.splits)

lemma stored_ok_mono:
  assumes "stored_ok s" "im_update (iv_abs s') = im_update (iv_abs s)" "im_iv (iv_abs s') = im_iv (iv_abs s)"
    "im_seq (iv_abs s') = im_seq (iv_abs s)" "flash s' SK_IV = flash s SK_IV" "flash s' SK_Seq = flash s SK_Seq"
    "flags s' BT_MESH_VALID = flags s BT_MESH_VALID" "flags s BT_MESH_IV_PENDING \<Longrightarrow> flags s' BT_MESH_IV_PENDING"
    "flags s BT_MESH_SEQ_PENDING \<Longrightarrow> flags s' BT_MESH_SEQ_PENDING"
  shows "stored_ok s'"
proof -
  have "bm_iv_index s' = bm_iv_index s" "bm_seq s' = bm_seq s"
    "flags s' BT_MESH_IVU_IN_PROGRESS = flags s BT_MESH_IVU_IN_PROGRESS"
    using assms(2-4) by (simp_all add: iv_abs_def word_unat_eq_iff)
  then have "iv_stored s' = iv_stored s" "seq_stored s' = seq_stored s"
    using assms(5,6) by (simp_all add: iv_stored_iff seq_stored_iff)
  then show ?thesis using assms(1,7-9) unfolding stored_ok_def by blast
qed

lemma iv_update_stored:
  assumes "stored_ok s"
  shows "stored_ok (snd (bt_mesh_net_iv_update env iv u s))"
  using iv_update_store [of env iv u s]
proof
  assume "iv_abs (snd (bt_mesh_net_iv_update env iv u s)) = iv_abs s \<and>
     store_abs (snd (bt_mesh_net_iv_update env iv u s)) = store_abs s"
  then show ?thesis by (intro stored_ok_mono [OF assms]) (auto simp: store_abs_def)
next
  assume "store_abs (snd (bt_mesh_net_iv_update env iv u s)) = (flash s, flags s BT_MESH_VALID, True, True)"
  then show ?thesis using assms by (simp add: stored_ok_def store_abs_def)
qed

lemma initiator_stored: "stored_ok s \<Longrightarrow> stored_ok (bt_mesh_beacon_ivu_initiator e s)"
  using stores_keep(3) [of e s] by (elim stored_ok_mono) (auto simp: store_abs_def)

lemma next_seq_stored:
  assumes "stored_ok s" "bm_seq s < 2 ^ 24"
  shows "stored_ok (snd (bt_mesh_next_seq env s))"
proof -
  let ?t = "s\<lparr>bm_seq := bm_seq s + 1\<rparr>"
  let ?s1 = "bt_mesh_store_seq (bm_seq s + 1) ?t"
  have a: "bm_seq ?s1 = bm_seq s + 1" "bm_iv_index ?s1 = bm_iv_index s"
    "flags ?s1 BT_MESH_IVU_IN_PROGRESS = flags s BT_MESH_IVU_IN_PROGRESS"
    using store_seq_abs [of "bm_seq s + 1" ?t] by (simp_all add: iv_abs_def word_unat_eq_iff)
  have b: "flash ?s1 = flash s" "flags ?s1 BT_MESH_VALID = flags s BT_MESH_VALID"
    "flags ?s1 BT_MESH_IV_PENDING = flags s BT_MESH_IV_PENDING"
    "flags ?s1 BT_MESH_SEQ_PENDING \<longleftrightarrow> (bm_seq s + 1) mod 128 = 0 \<or> flags s BT_MESH_SEQ_PENDING"
    using store_seq_pending [of "bm_seq s + 1" ?t] by (simp_all add: store_abs_def)
  have "seq_stored ?s1" if "seq_stored s" "(bm_seq s + 1) mod 128 \<noteq> 0"
    using that seq_restored_step [OF _ assms(2) that(2)]
    by (auto simp: seq_stored_iff a b)
  moreover have "iv_stored ?s1 = iv_stored s" by (simp add: iv_stored_iff a b)
  ultimately have "stored_ok ?s1" using assms(1) unfolding stored_ok_def b by blast
  then show ?thesis by (simp add: bt_mesh_next_seq_def Let_def iv_update_stored initiator_stored)
qed

lemma store_iv_stored: "stored_ok s \<Longrightarrow> stored_ok (bt_mesh_store_iv d s)"
  using store_iv_pending [of d s] by (elim stored_ok_mono) (auto simp: store_abs_def)

lemma ivu_refresh_stored:
  assumes "stored_ok s"
  shows "stored_ok (ivu_refresh env s)"
proof -
  have k: "stored_ok (t\<lparr>bm_ivu_duration := d\<rparr>)" "stored_ok (t\<lparr>ivu_timer := w\<rparr>)"
    if "stored_ok t" for t :: "'a net_state_scheme" and d w
    by (rule stored_ok_mono [OF that]; simp add: iv_abs_def)+
  show ?thesis unfolding ivu_refresh_def Let_def
    using assms by (auto intro!: k store_iv_stored iv_update_stored initiator_stored)
qed

lemma store_bits_stored:
  assumes "stored_ok s" "bm_seq s < 2 ^ 24"
  shows "stored_ok (store_pending_iv_bit s)" "stored_ok (store_pending_seq_bit s)"
    "iv_abs (store_pending_iv_bit s) = iv_abs s" "iv_abs (store_pending_seq_bit s) = iv_abs s"
proof -
  have q: "take_bit 24 (bm_seq s) = bm_seq s" using take_bit_word_id [OF _ assms(2)] by simp
  have r: "unat v \<le> seq_restored v" for v using mult_div_mod_eq [of 128 "unat v"] by (simp add: seq_restored_def)
  have g: "sys_get_le24 (sys_put_le24 (bm_seq s)) = bm_seq s" using get_put_le24 [of "bm_seq s" "[]"] q by simp
  note stored = stored_ok_def iv_stored_iff seq_stored_iff settings_save_one_def set_flag_to_def Let_def
  have "stored_ok (store_pending_iv (set_flag_to BT_MESH_IV_PENDING False s))"
    using assms(1) by (simp add: store_pending_iv_def stored)
  then show "stored_ok (store_pending_iv_bit s)"
    using assms(1) by (simp add: store_pending_iv_bit_def Let_def) (simp add: stored)
  have "stored_ok (store_pending_seq (set_flag_to BT_MESH_SEQ_PENDING False s))"
    using assms r [of "bm_seq s"] g q by (simp add: store_pending_seq_def stored)
  then show "stored_ok (store_pending_seq_bit s)" using assms(1) by (simp add: store_pending_seq_bit_def)
  show "iv_abs (store_pending_iv_bit s) = iv_abs s" "iv_abs (store_pending_seq_bit s) = iv_abs s"
    by (simp_all add: store_pending_iv_bit_def store_pending_seq_bit_def store_pending_iv_def store_pending_seq_def
        clear_iv_def settings_save_one_def settings_delete_def set_flag_to_def iv_abs_def Let_def)
qed

text \<open>A restart goes on from the IV index and the phase it stopped with and a sequence number that is not smaller.\<close>

lemma reload_stored:
  assumes s: "stored_ok s" "\<not> flags s BT_MESH_IV_PENDING" "\<not> flags s BT_MESH_SEQ_PENDING"
    and s0: "flash s0 = flash s" "flags s0 = (\<lambda>_. False)"
  shows "stored_ok (net_reload s0)" "im_update (iv_abs (net_reload s0)) = im_update (iv_abs s)"
    "im_iv (iv_abs (net_reload s0)) = im_iv (iv_abs s)" "im_seq (iv_abs s) \<le> im_seq (iv_abs (net_reload s0))"
    "bm_seq (net_reload s0) < 2 ^ 24"
proof -
  obtain iv where iv: "flash s SK_IV = Some (V_IV iv)" "iv_iv_index iv = bm_iv_index s"
    "iv_iv_update iv = flags s BT_MESH_IVU_IN_PROGRESS"
    using s by (auto simp: stored_ok_def iv_stored_iff)
  obtain val where val: "flash s SK_Seq = Some (V_Seq val)" "sys_get_le24 val < 2 ^ 24"
    "unat (bm_seq s) \<le> seq_restored (sys_get_le24 val)"
    using s by (auto simp: stored_ok_def seq_stored_iff)
  let ?l = "load_iv s0"
  have l: "flash ?l = flash s" "bm_iv_index ?l = bm_iv_index s" "flags ?l = (flags s0)(BT_MESH_IVU_IN_PROGRESS := flags s BT_MESH_IVU_IN_PROGRESS)"
    by (simp_all add: load_iv_def iv_set_def set_flag_to_def s0 iv)
  have e: "net_reload s0 = set_flag BT_MESH_VALID (?l\<lparr>bm_seq := bm_seq (seq_set (Some val) ?l)\<rparr>)"
    by (simp add: net_reload_def load_seq_def l val(1)) (simp add: seq_set_def Let_def)
  note r = seq_restored_set(1) [OF val(2), of ?l] seq_restored_set(2) [OF val(2)]
  have n: "flash (net_reload s0) = flash s" "bm_iv_index (net_reload s0) = bm_iv_index s"
    "flags (net_reload s0) BT_MESH_IVU_IN_PROGRESS = flags s BT_MESH_IVU_IN_PROGRESS" "flags (net_reload s0) BT_MESH_VALID"
    "unat (bm_seq (net_reload s0)) = seq_restored (sys_get_le24 val)"
    unfolding e by (simp_all add: set_flag_def l r s0)
  show "stored_ok (net_reload s0)" using n val iv by (simp add: stored_ok_def iv_stored_iff seq_stored_iff)
  show "im_update (iv_abs (net_reload s0)) = im_update (iv_abs s)" "im_iv (iv_abs (net_reload s0)) = im_iv (iv_abs s)"
    "im_seq (iv_abs s) \<le> im_seq (iv_abs (net_reload s0))" using n val by (simp_all add: iv_abs_def)
  show "bm_seq (net_reload s0) < 2 ^ 24" using n(5) r(2) by (simp add: word_less_nat_alt)
qed

section \<open>Steps use up increasing nonces\<close>

definition run_ok :: "'a net_state_scheme \<Rightarrow> bool" where
  "run_ok s \<longleftrightarrow> im_ok (iv_abs s) \<and> stored_ok s \<and> bm_seq s < 2 ^ 24"

lemma run_okI: "im_ok (iv_abs s) \<Longrightarrow> stored_ok s \<Longrightarrow> im_seq (iv_abs s) < 2 ^ 24 \<Longrightarrow> run_ok s"
  by (simp add: run_ok_def iv_abs_def word_less_nat_alt)

lemma run_ok_seq: "run_ok s \<Longrightarrow> im_seq (iv_abs s) < 2 ^ 24"
  by (simp add: run_ok_def iv_abs_def word_less_nat_alt)

lemma iv_spec_seq: "im_seq (iv_spec iv u busy m) \<le> im_seq m"
  by (simp add: iv_spec_def)

lemma next_seq_run:
  assumes "run_ok s" "bm_seq s < 0xffffff" and s'_def: "s' = snd (bt_mesh_next_seq env s)"
  shows "run_ok s'" "im_key (iv_abs s) < im_key (iv_abs s')"
    "(unat (BT_MESH_NET_IVI_TX s'), unat (bm_seq s)) = im_key (iv_abs s)"
proof -
  have ok: "im_ok (iv_abs s)" "stored_ok s" "bm_seq s < 2 ^ 24" using assms(1) by (simp_all add: run_ok_def)
  note n = next_seq_key [OF ok(1,3), of env, folded s'_def]
  have "im_seq (iv_abs s') = unat (bm_seq s) + 1" using arg_cong [OF n(2), of snd] by (simp add: im_key_def)
  moreover have "unat (bm_seq s) < 0xffffff" using assms(2) by (simp add: word_less_nat_alt)
  ultimately show "run_ok s'" using n(1) next_seq_stored [OF ok(2,3), of env] by (intro run_okI) (simp_all add: s'_def)
  have k: "snd (im_key (iv_abs s)) = unat (bm_seq s)" by (simp add: im_key_def iv_abs_def)
  then show "im_key (iv_abs s) < im_key (iv_abs s')" using n(2) by (simp add: less_prod_def)
  have "unat (BT_MESH_NET_IVI_TX s') = fst (im_key (iv_abs s))" using ivi_tx_key [OF n(1)] n(2) by (metis fst_conv)
  then show "(unat (BT_MESH_NET_IVI_TX s'), unat (bm_seq s)) = im_key (iv_abs s)" using k by (simp add: prod_eq_iff)
qed

lemma iv_update_run:
  assumes "run_ok s"
  shows "run_ok (snd (bt_mesh_net_iv_update env iv u s))"
    "im_key (iv_abs s) \<le> im_key (iv_abs (snd (bt_mesh_net_iv_update env iv u s)))"
proof -
  have ok: "im_ok (iv_abs s)" "stored_ok s" using assms by (simp_all add: run_ok_def)
  show "run_ok (snd (bt_mesh_net_iv_update env iv u s))"
    using ok run_ok_seq [OF assms] iv_spec_seq [of "unat iv" u "ne_tx_in_progress env s" "iv_abs s"]
    by (intro run_okI) (simp_all add: iv_update_refines iv_spec_ok iv_update_stored)
  show "im_key (iv_abs s) \<le> im_key (iv_abs (snd (bt_mesh_net_iv_update env iv u s)))"
    using ok(1) by (simp add: iv_update_refines iv_spec_key)
qed

lemma ivu_refresh_run:
  assumes "run_ok s"
  shows "run_ok (ivu_refresh env s)" "im_key (iv_abs s) \<le> im_key (iv_abs (ivu_refresh env s))"
proof -
  have ok: "im_ok (iv_abs s)" "stored_ok s" using assms by (simp_all add: run_ok_def)
  let ?s1 = "s\<lparr>bm_ivu_duration := bm_ivu_duration s + BT_MESH_IVU_HOURS, ivu_timer := None\<rparr>"
  have "im_seq (iv_abs ?s1) = im_seq (iv_abs s)" by (simp add: iv_abs_def)
  then have "im_seq (iv_abs (ivu_refresh env s)) \<le> im_seq (iv_abs s)"
    using iv_spec_seq [of _ _ _ "iv_abs ?s1"] by (simp add: ivu_refresh_def Let_def iv_update_refines)
  then show "run_ok (ivu_refresh env s)" using run_ok_seq [OF assms] ivu_refresh_key(1) [OF ok(1), of env]
      ivu_refresh_stored [OF ok(2), of env] by (intro run_okI) simp_all
  show "im_key (iv_abs s) \<le> im_key (iv_abs (ivu_refresh env s))" by (rule ivu_refresh_key(2) [OF ok(1)])
qed

lemma net_iv_step_run:
  assumes "net_iv_step env s k s'" "run_ok s" "\<And>x. k = Some x \<Longrightarrow> use_seq x < 0xffffff"
  shows "run_ok s' \<and> im_key (iv_abs s) \<le> im_key (iv_abs s') \<and>
    (\<forall>x. k = Some x \<longrightarrow> nonce_of x = im_key (iv_abs s) \<and> im_key (iv_abs s) < im_key (iv_abs s'))"
  using assms(1)
proof cases
  case (send tx nid buf b)
  have q: "bm_seq s < 0xffffff" using assms(3) send(1) by (simp add: use_seq_def)
  have "bm_seq s < 2 ^ 24" using assms(2) by (simp add: run_ok_def)
  note e = header_encode_seq [OF send(2,3) this]
  show ?thesis using next_seq_run [OF assms(2) q e(1)] e send(1) by (auto simp: nonce_of_def)
next
  case (take_seq sq)
  have e: "sq = bm_seq s" "s' = snd (bt_mesh_next_seq env s)" using take_seq(2) by (auto simp: bt_mesh_next_seq_def Let_def)
  have q: "bm_seq s < 0xffffff" using assms(3) take_seq(1) e by (simp add: use_seq_def)
  have "bm_seq s < 2 ^ 24" using assms(2) by (simp add: run_ok_def)
  then have t: "take_bit 24 sq = bm_seq s" using take_bit_word_id [of 24 "bm_seq s"] e by simp
  show ?thesis using next_seq_run [OF assms(2) q e(2)] e t take_seq(1) by (auto simp: nonce_of_def)
next
  case (beacon iv u)
  then show ?thesis using iv_update_run [OF assms(2)] by simp
next
  case timer
  then show ?thesis using ivu_refresh_run [OF assms(2)] by simp
next
  case store_iv
  have ok: "im_ok (iv_abs s)" "stored_ok s" "bm_seq s < 2 ^ 24" using assms(2) by (simp_all add: run_ok_def)
  then show ?thesis using store_iv store_bits_stored(1,3) [OF ok(2,3)] run_ok_seq [OF assms(2)] by (auto intro!: run_okI)
next
  case store_seq
  have ok: "im_ok (iv_abs s)" "stored_ok s" "bm_seq s < 2 ^ 24" using assms(2) by (simp_all add: run_ok_def)
  then show ?thesis using store_seq store_bits_stored(2,4) [OF ok(2,3)] run_ok_seq [OF assms(2)] by (auto intro!: run_okI)
next
  case (restart s0)
  have ok: "im_ok (iv_abs s)" "stored_ok s" using assms(2) by (simp_all add: run_ok_def)
  note r = reload_stored [OF ok(2) restart(3-6)]
  then show ?thesis using restart(1,2) ok(1) by (auto simp: run_ok_def im_ok_def im_key_def less_eq_prod_def)
next
  case other
  have "stored_ok s'" using assms(2) other by (auto simp: run_ok_def intro: stored_ok_mono)
  moreover have "im_ok (iv_abs s)" using assms(2) by (simp add: run_ok_def)
  ultimately show ?thesis using run_ok_seq [OF assms(2)] other(1,2) by (auto intro!: run_okI)
qed

lemma net_iv_run_nonces:
  assumes "net_iv_run env s ks s'" "run_ok s" "\<forall>k \<in> set ks. use_seq k < 0xffffff"
  shows "run_ok s' \<and> sorted_wrt (<) (map nonce_of ks) \<and> (\<forall>k \<in> set ks. nonce_of k < im_key (iv_abs s'))"
  using assms
proof (induction rule: net_iv_run.induct)
  case (step s ks s' k s'')
  then have IH: "run_ok s'" "sorted_wrt (<) (map nonce_of ks)" "\<forall>k \<in> set ks. nonce_of k < im_key (iv_abs s')" by auto
  have "use_seq x < 0xffffff" if "k = Some x" for x using step.prems(2) that by simp
  note k = net_iv_step_run [OF step.hyps(2) IH(1) this]
  show ?case
  proof (cases k)
    case None
    then show ?thesis using IH k by (auto dest: order.strict_trans2)
  next
    case (Some x)
    then show ?thesis using IH k by (auto simp: sorted_wrt_append intro: order.strict_trans)
  qed
qed simp

section \<open>Provisioning\<close>

text \<open>
  Where a run starts: \<^verbatim>\<open>bt_mesh_provision\<close> calls \<^verbatim>\<open>bt_mesh_net_create\<close> on a node it has marked valid, which asks for both
  entries to be written.
\<close>

lemma net_create_stored:
  assumes "bt_mesh_net_create env idx fl key iv s = (None, s')" "flags s' BT_MESH_VALID"
  shows "stored_ok (s'\<lparr>bm_seq := 0\<rparr>)"
proof -
  obtain t where "s' = bt_mesh_store_iv False t"
    using assms(1) by (auto simp: bt_mesh_net_create_def Let_def split: prod.splits option.splits)
  then have "flags s' BT_MESH_IV_PENDING" "flags s' BT_MESH_SEQ_PENDING"
    using store_iv_pending [of False t] by (simp_all add: store_abs_def)
  then show ?thesis using assms(2) by (simp add: stored_ok_def)
qed

section \<open>Property\<close>

text \<open>C17: nonces are never reused while the sequence number fits. In every run of a provisioned node until its reset, with
  any PDUs encoded, numbers taken by transport.c and friend.c, beacons, timer expiries, writes of the storage work item
  and restarts in any order, the pairs of IV index and sequence number that are used up are strictly increasing, so
  that no two PDUs have the same pair. This holds as long as no number above \<open>0xfffffe\<close> is taken (the code does not
  stop there), a restart does not come before a requested write is done, and a node in the update phase has an index
  above 0.\<close>

theorem net_nonce_unique:
  assumes "net_iv_run env s ks s'" "stored_ok s" "bm_seq s < 2 ^ 24"
    and "flags s BT_MESH_IVU_IN_PROGRESS \<Longrightarrow> bm_iv_index s \<noteq> 0" and "\<forall>k \<in> set ks. use_seq k < 0xffffff"
  shows "sorted_wrt (<) (map nonce_of ks) \<and> distinct (map nonce_of ks)"
proof -
  have "run_ok s" using assms(2-4) by (auto simp: run_ok_def im_ok_def iv_abs_def unat_gt_0)
  from net_iv_run_nonces [OF assms(1) this assms(5)] have "sorted_wrt (<) (map nonce_of ks)" by blast
  then show ?thesis by (simp add: strict_sorted_iff)
qed

text \<open>The witness sends, stores, restarts and sends again.\<close>

lemma reload_example:
  assumes "flash s SK_IV = Some (V_IV \<lparr>iv_iv_index = 6, iv_iv_update = False, iv_iv_duration = 0\<rparr>)"
    "flash s SK_Seq = Some (V_Seq [1, 0, 0])"
  shows "bm_seq (net_reload s) = 127" "bm_iv_index (net_reload s) = 6"
    "\<not> flags (net_reload s) BT_MESH_IVU_IN_PROGRESS"
  using assms by (simp_all add: net_reload_def load_seq_def load_iv_def iv_set_def seq_set_def set_flag_to_def set_flag_def
      sys_get_le24_def sys_get_le16_def CONFIG_BT_MESH_SEQ_STORE_RATE_def Let_def)

lemma pending_example_next_seq:
  "snd (bt_mesh_next_seq e (net_example\<lparr>flags := (\<lambda>f. f \<in> {BT_MESH_VALID, BT_MESH_IV_PENDING, BT_MESH_SEQ_PENDING})\<rparr>)) =
     net_example\<lparr>flags := (\<lambda>f. f \<in> {BT_MESH_VALID, BT_MESH_IV_PENDING, BT_MESH_SEQ_PENDING}), bm_seq := 1\<rparr>"
  by (simp add: bt_mesh_next_seq_def bt_mesh_store_seq_def net_example_defs CONFIG_BT_MESH_SEQ_STORE_RATE_def Let_def)
     (simp add: IV_UPDATE_SEQ_LIMIT_def)

theorem net_nonce_unique_witness:
  "\<exists>s'. net_iv_run (env_example 1) (net_example\<lparr>flags := (\<lambda>f. f \<in> {BT_MESH_VALID, BT_MESH_IV_PENDING, BT_MESH_SEQ_PENDING})\<rparr>)
     [(6, 0, 0), (6, 127, 127)] s' \<and> distinct (map nonce_of [(6, 0, 0), (6, 127, 127)])"
proof -
  let ?e = "env_example 1"
  let ?s = "net_example\<lparr>flags := (\<lambda>f. f \<in> {BT_MESH_VALID, BT_MESH_IV_PENDING, BT_MESH_SEQ_PENDING})\<rparr>"
  let ?s1 = "?s\<lparr>bm_seq := 1\<rparr>"
  let ?s2 = "store_pending_iv_bit ?s1" let ?s3 = "store_pending_seq_bit ?s2"
  let ?boot = "net_boot 2 (flash ?s3)" let ?s4 = "net_reload ?boot" let ?s5 = "snd (bt_mesh_next_seq ?e ?s4)"
  have b: "nb_invar buf_example" "9 \<le> net_buf_simple_headroom buf_example"
    "(if ctx_app_idx (tx_ctx tx_example) = BT_MESH_KEY_UNUSED then 8 else 4) \<le> net_buf_simple_tailroom buf_example"
    by (simp_all add: buf_example_def nb_basic_defs)
  have n: "snd (bt_mesh_next_seq ?e ?s) = ?s1" by (rule pending_example_next_seq)
  obtain b1 where b1: "net_header_encode ?e tx_example 5 buf_example ?s = Some (Inr b1, ?s1)"
    using net_header_encode_eq [OF b, of ?e 5 ?s] n by auto
  obtain b2 where b2: "net_header_encode ?e tx_example 5 buf_example ?s4 = Some (Inr b2, ?s5)"
    using net_header_encode_eq [OF b, of ?e 5 ?s4] by auto
  have st: "\<not> flags ?s3 BT_MESH_IV_PENDING" "\<not> flags ?s3 BT_MESH_SEQ_PENDING"
    "flash ?s3 SK_IV = Some (V_IV \<lparr>iv_iv_index = 6, iv_iv_update = False, iv_iv_duration = 0\<rparr>)"
    "flash ?s3 SK_Seq = Some (V_Seq [1, 0, 0])"
    by (simp_all add: store_pending_iv_bit_def store_pending_seq_bit_def store_pending_iv_def store_pending_seq_def
        settings_save_one_def set_flag_to_def Let_def net_example_def net_boot_def sys_put_le24_def sys_put_le16_def)
  have s0: "flash ?boot = flash ?s3" "flags ?boot = (\<lambda>_. False)" "bm_iv_index ?boot = 0" "bm_seq ?boot = 0"
    by (simp_all add: net_boot_def)
  have r: "bm_seq ?s4 = 127" "bm_iv_index ?s4 = 6" "\<not> flags ?s4 BT_MESH_IVU_IN_PROGRESS"
    using reload_example [of ?boot] st(3,4) s0(1) by simp_all
  have q: "SEQ (nb_data b1) = 0" "SEQ (nb_data b2) = 127" "bm_seq ?s = 0"
    using header_encode_seq(2) [OF b1 b(1)] header_encode_seq(2) [OF b2 b(1)] r(1) by (simp_all add: net_example_def net_boot_def)
  have "im_key (iv_abs ?s5) = (6, 128)"
    using next_seq_key(2) [of ?s4 ?e] r by (simp add: im_ok_def) (simp add: im_key_def iv_abs_def)
  moreover have "im_ok (iv_abs ?s5)" using next_seq_key(1) [of ?s4 ?e] r by (simp add: im_ok_def iv_abs_def)
  ultimately have iv5: "BT_MESH_NET_IVI_TX ?s5 = 6" using ivi_tx_key [of ?s5] by (simp add: word_unat_eq_iff)
  have "BT_MESH_NET_IVI_TX ?s1 = 6" by (simp add: BT_MESH_NET_IVI_TX_def net_example_def net_boot_def)
  note iv = iv5 this
  have step: "net_iv_step ?e ?s (Some (6, 0, 0)) ?s1" "net_iv_step ?e ?s4 (Some (6, 127, 127)) ?s5"
    using net_iv_step.send [OF b1 b(1)] net_iv_step.send [OF b2 b(1)] unfolding iv q r by simp_all
  note run = net_iv_run.step [OF net_iv_run.start step(1)]
  note run = net_iv_run.step [OF net_iv_run.step [OF run net_iv_step.store_iv] net_iv_step.store_seq]
  note run = net_iv_run.step [OF net_iv_run.step [OF run net_iv_step.restart [OF st(1,2) s0]] step(2)]
  have run: "net_iv_run ?e ?s [(6, 0, 0), (6, 127, 127)] ?s5" using run by simp
  have "stored_ok ?s" "bm_seq ?s < 2 ^ 24" by (simp_all add: stored_ok_def net_example_def net_boot_def)
  from net_nonce_unique [OF run this] have "distinct (map nonce_of [(6, 0, 0), (6, 127, 127)])"
    by (simp add: use_seq_def)
  with run show ?thesis by blast
qed

end
