(* ===== verification/Transport.thy ===== *)
theory Transport
  imports Net_Iv
begin

text \<open>
  The transport layer of subsys/bluetooth/mesh/transport.c and transport.h: sending of unsegmented and segmented
  messages, retransmission and acknowledgements, reassembly, and the table of virtual addresses.

  \<^item> A \<^verbatim>\<open>struct seg_tx *\<close> or \<^verbatim>\<open>struct seg_rx *\<close> is the index of its slot. A segment buffer is a block of 12 bytes of
    the slab \<^verbatim>\<open>segs\<close>: the model keeps the bytes that were written to it, and \<open>segs_used\<close> counts the blocks in use.
  \<^item> Reading or writing past the end of \<^verbatim>\<open>seg[]\<close> or of a block is \<open>None\<close>.
  \<^item> \<open>trans_env\<close> has what transport.c calls in other parts of the stack: friend.c, heartbeat.c, access.c, the
    configuration database and the clock. The send callback of a segment is \<^verbatim>\<open>seg_sent_cb\<close> of this file:
    \<open>seg_env\<close> is the environment of the network layer with that callback and \<^verbatim>\<open>bt_mesh_tx_in_progress\<close> put in.
  \<^item> The message context of a caller is passed by value. \<^verbatim>\<open>CONFIG_BT_MESH_LOW_POWER\<close> and \<^verbatim>\<open>CONFIG_BT_TESTING\<close> are
    not compiled in.
  \<^item> The static and automatic buffers of the receive path are written before they are read; the model starts them
    with zeros.
\<close>

section \<open>State\<close>

record seg_tx =
  st_sub :: "nat option"
  st_seg :: "bytes option list"
  st_seq_auth :: u64
  st_src :: u16
  st_dst :: u16
  st_len :: u16
  st_hdr :: u8
  st_xmit :: u8
  st_seg_n :: u8
  st_seg_o :: u8
  st_nack_count :: u8
  st_attempts :: u8
  st_ttl :: u8
  st_seg_pending :: u8
  st_blocked :: bool
  st_ctl :: bool
  st_aszmic :: bool
  st_started :: bool
  st_sending :: bool
  st_friend_cred :: bool
  st_cb :: "send_cb option"
  st_retransmit :: "nat option"

record seg_rx =
  sr_sub :: "nat option"
  sr_seg :: "bytes option list"
  sr_seq_auth :: u64
  sr_src :: u16
  sr_dst :: u16
  sr_len :: u16
  sr_hdr :: u8
  sr_seg_n :: u8
  sr_ctl :: bool
  sr_in_use :: bool
  sr_obo :: bool
  sr_ttl :: u8
  sr_block :: u32
  sr_last :: u32
  sr_ack :: "nat option"

text \<open>\<open>vt_ref\<close> is a 15-bit field.\<close>

record bt_mesh_va =
  vt_ref :: u16
  vt_changed :: bool
  vt_addr :: u16
  vt_uuid :: bytes

record trans_state = net_state +
  seg_txs :: "seg_tx list"
  seg_rxs :: "seg_rx list"
  segs_used :: nat
  virtual_addrs :: "bt_mesh_va list"

datatype bt_mesh_friend_pdu_type =
  BT_MESH_FRIEND_PDU_SINGLE | BT_MESH_FRIEND_PDU_PARTIAL | BT_MESH_FRIEND_PDU_COMPLETE

record 's trans_env =
  te_net :: "'s net_env"
  te_cdb_dev_key :: "u16 \<Rightarrow> bytes option"
  te_primary_addr :: "'s \<Rightarrow> u16"
  te_uptime :: "'s \<Rightarrow> u32"
  te_friend_match :: "u16 \<Rightarrow> u16 \<Rightarrow> 's \<Rightarrow> bool"
  te_friend_has_space :: "u16 \<Rightarrow> u16 \<Rightarrow> u16 \<Rightarrow> u64 option \<Rightarrow> nat \<Rightarrow> 's \<Rightarrow> bool"
  te_friend_enqueue_tx ::
    "bt_mesh_net_tx \<Rightarrow> bt_mesh_friend_pdu_type \<Rightarrow> u64 option \<Rightarrow> nat \<Rightarrow> bytes \<Rightarrow> 's \<Rightarrow> bool \<times> 's"
  te_friend_enqueue_rx ::
    "bt_mesh_net_rx \<Rightarrow> bt_mesh_friend_pdu_type \<Rightarrow> u64 option \<Rightarrow> nat \<Rightarrow> bytes \<Rightarrow> 's \<Rightarrow> 's"
  te_friend_clear_incomplete :: "nat option \<Rightarrow> u16 \<Rightarrow> u16 \<Rightarrow> u64 \<Rightarrow> 's \<Rightarrow> 's"
  te_friend_ctl :: "u8 \<Rightarrow> bt_mesh_net_rx \<Rightarrow> net_buf_simple \<Rightarrow> 's \<Rightarrow> (errno option \<times> 's) option"
  te_hb_recv :: "bt_mesh_net_rx \<Rightarrow> net_buf_simple \<Rightarrow> 's \<Rightarrow> (errno option \<times> 's) option"
  te_model_recv :: "bt_mesh_net_rx \<Rightarrow> net_buf_simple \<Rightarrow> int \<Rightarrow> 's \<Rightarrow> 's option"

abbreviation te_tc :: "'s trans_env \<Rightarrow> tinycrypt" where "te_tc env \<equiv> ne_tc (te_net env)"
abbreviation te_friend :: "'s trans_env \<Rightarrow> bool" where "te_friend env \<equiv> ne_friend (te_net env)"

definition CONFIG_BT_MESH_TX_SEG_MAX :: nat where "CONFIG_BT_MESH_TX_SEG_MAX = 6"
definition CONFIG_BT_MESH_RX_SEG_MAX :: nat where "CONFIG_BT_MESH_RX_SEG_MAX = 3"
definition CONFIG_BT_MESH_SEG_BUFS :: nat where "CONFIG_BT_MESH_SEG_BUFS = 64"
definition SEG_RETRANSMIT_ATTEMPTS :: u8 where "SEG_RETRANSMIT_ATTEMPTS = 4"
definition BT_MESH_TTL_MAX :: u8 where "BT_MESH_TTL_MAX = 0x7f"

definition TRANS_SEQ_AUTH_NVAL :: u64 where "TRANS_SEQ_AUTH_NVAL = 0xffffffffffffffff"
definition BT_MESH_SDU_UNSEG_MAX :: nat where "BT_MESH_SDU_UNSEG_MAX = 11"
definition BT_MESH_CTL_SEG_SDU_MAX :: nat where "BT_MESH_CTL_SEG_SDU_MAX = 8"
definition BT_MESH_APP_SEG_SDU_MAX :: nat where "BT_MESH_APP_SEG_SDU_MAX = 12"
definition BT_MESH_TX_SDU_MAX :: nat where
  "BT_MESH_TX_SDU_MAX = CONFIG_BT_MESH_TX_SEG_MAX * BT_MESH_APP_SEG_SDU_MAX"
definition BT_MESH_RX_SDU_MAX :: nat where
  "BT_MESH_RX_SDU_MAX = CONFIG_BT_MESH_RX_SEG_MAX * BT_MESH_APP_SEG_SDU_MAX"
definition BT_MESH_RX_CTL_MAX :: nat where
  "BT_MESH_RX_CTL_MAX = CONFIG_BT_MESH_RX_SEG_MAX * BT_MESH_CTL_SEG_SDU_MAX"

section \<open>Headers\<close>

definition TRANS_SEQ_ZERO_MASK :: u16 where "TRANS_SEQ_ZERO_MASK = 0x1fff"
definition AID_MASK :: u8 where "AID_MASK = 0x3f"

definition SEG :: "bytes \<Rightarrow> bool" where "SEG data \<longleftrightarrow> drop_bit 7 (data ! 0) \<noteq> 0"
definition AKF :: "u8 \<Rightarrow> bool" where "AKF hdr \<longleftrightarrow> drop_bit 6 hdr AND 1 \<noteq> 0"
definition AID :: "u8 \<Rightarrow> u8" where "AID hdr = hdr AND AID_MASK"
definition ASZMIC :: "bytes \<Rightarrow> bool" where "ASZMIC data \<longleftrightarrow> drop_bit 7 (data ! 1) AND 1 \<noteq> 0"

definition UNSEG_HDR :: "u8 \<Rightarrow> u8 \<Rightarrow> u8" where "UNSEG_HDR akf aid = push_bit 6 akf OR (aid AND AID_MASK)"
definition SEG_HDR :: "u8 \<Rightarrow> u8 \<Rightarrow> u8" where "SEG_HDR akf aid = UNSEG_HDR akf aid OR 0x80"
definition TRANS_CTL_OP :: "u8 \<Rightarrow> u8" where "TRANS_CTL_OP hdr = hdr AND 0x7f"
definition TRANS_CTL_HDR :: "u8 \<Rightarrow> u8 \<Rightarrow> u8" where "TRANS_CTL_HDR op seg = (op AND 0x7f) OR push_bit 7 seg"

definition BLOCK_COMPLETE :: "u8 \<Rightarrow> u32" where
  "BLOCK_COMPLETE seg_n = ucast (push_bit (unat seg_n + 1) (1 :: u64) - 1)"

definition SEQ_AUTH :: "u32 \<Rightarrow> u32 \<Rightarrow> u64" where
  "SEQ_AUTH iv_index sq = push_bit 24 (ucast iv_index) OR ucast sq"

text \<open>The low 13 bits of the sequence number of the first segment.\<close>

definition seq_zero_of :: "u64 \<Rightarrow> u16" where
  "seq_zero_of seq_auth = ucast (seq_auth AND ucast TRANS_SEQ_ZERO_MASK)"

definition seg_len :: "bool \<Rightarrow> nat" where
  "seg_len ctl = (if ctl then BT_MESH_CTL_SEG_SDU_MAX else BT_MESH_APP_SEG_SDU_MAX)"

definition SEG_RETRANSMIT_TIMEOUT :: "seg_tx \<Rightarrow> nat" where
  "SEG_RETRANSMIT_TIMEOUT tx =
     (if BT_MESH_ADDR_IS_UNICAST (st_dst tx) then 400 + 50 * unat (st_ttl tx) else 50)"

section \<open>Slots\<close>

definition upd_tx :: "nat \<Rightarrow> (seg_tx \<Rightarrow> seg_tx) \<Rightarrow> 'a trans_state_scheme \<Rightarrow> 'a trans_state_scheme" where
  "upd_tx i f s = s\<lparr>seg_txs := (seg_txs s)[i := f (seg_txs s ! i)]\<rparr>"

definition upd_rx :: "nat \<Rightarrow> (seg_rx \<Rightarrow> seg_rx) \<Rightarrow> 'a trans_state_scheme \<Rightarrow> 'a trans_state_scheme" where
  "upd_rx i f s = s\<lparr>seg_rxs := (seg_rxs s)[i := f (seg_rxs s ! i)]\<rparr>"

definition segs_alloc :: "'a trans_state_scheme \<Rightarrow> 'a trans_state_scheme option" where
  "segs_alloc s = (if segs_used s \<ge> CONFIG_BT_MESH_SEG_BUFS then None else Some (s\<lparr>segs_used := segs_used s + 1\<rparr>))"

definition segs_free :: "'a trans_state_scheme \<Rightarrow> 'a trans_state_scheme" where
  "segs_free s = s\<lparr>segs_used := segs_used s - 1\<rparr>"

definition bt_mesh_tx_in_progress :: "'a trans_state_scheme \<Rightarrow> bool" where
  "bt_mesh_tx_in_progress s \<longleftrightarrow> (\<exists>tx \<in> set (seg_txs s). st_nack_count tx \<noteq> 0)"

section \<open>Sending: one segmented transmission\<close>

definition seg_tx_done :: "nat \<Rightarrow> nat \<Rightarrow> 'a trans_state_scheme \<Rightarrow> 'a trans_state_scheme" where
  "seg_tx_done i k s =
     upd_tx i (\<lambda>tx. tx\<lparr>st_seg := (st_seg tx)[k := None], st_nack_count := st_nack_count tx - 1\<rparr>) (segs_free s)"

definition seg_tx_blocks :: "seg_tx \<Rightarrow> u16 \<Rightarrow> u16 \<Rightarrow> bool" where
  "seg_tx_blocks tx src dst \<longleftrightarrow> st_src tx = src \<and> st_dst tx = dst"

text \<open>The loop of \<^verbatim>\<open>seg_tx_unblock_check\<close>: the blocked slot with the least SeqAuth, the first of them.\<close>

fun unblock_pick :: "nat \<Rightarrow> seg_tx \<Rightarrow> (nat \<times> seg_tx) list \<Rightarrow> (nat \<times> seg_tx) option \<Rightarrow> nat option" where
  "unblock_pick i tx [] best = map_option fst best"
| "unblock_pick i tx ((j, t) # rest) best =
     unblock_pick i tx rest
       (if j \<noteq> i \<and> st_blocked t \<and> seg_tx_blocks tx (st_src t) (st_dst t)
           \<and> (case best of None \<Rightarrow> True | Some (_, b) \<Rightarrow> st_seq_auth t < st_seq_auth b)
        then Some (j, t) else best)"

definition seg_tx_unblock_check :: "nat \<Rightarrow> 'a trans_state_scheme \<Rightarrow> 'a trans_state_scheme" where
  "seg_tx_unblock_check i s =
     (case unblock_pick i (seg_txs s ! i) (enumerate 0 (seg_txs s)) None of
        None \<Rightarrow> s
      | Some j \<Rightarrow> upd_tx j (\<lambda>t. t\<lparr>st_blocked := False, st_retransmit := Some 0\<rparr>) s)"

definition schedule_retransmit :: "nat \<Rightarrow> 'a trans_state_scheme \<Rightarrow> 'a trans_state_scheme" where
  "schedule_retransmit i s =
     (let tx = seg_txs s ! i; pending = st_seg_pending tx - 1 in
      if st_nack_count tx = 0 then s
      else if pending \<noteq> 0 \<or> st_sending tx then upd_tx i (\<lambda>tx. tx\<lparr>st_seg_pending := pending\<rparr>) s
      else upd_tx i (\<lambda>tx. tx\<lparr>st_seg_pending := pending,
             st_retransmit := Some (if st_seg_o tx \<noteq> 0 then 0 else SEG_RETRANSMIT_TIMEOUT tx)\<rparr>) s)"

text \<open>
  A callback without a start function is one whose \<open>cb_start\<close> changes nothing; \<open>st_started\<close> is then set without an effect,
  since only this function reads it.
\<close>

definition seg_send_start ::
    "'a trans_state_scheme trans_env \<Rightarrow> nat \<Rightarrow> u16 \<Rightarrow> errno option \<Rightarrow> 'a trans_state_scheme \<Rightarrow> 'a trans_state_scheme" where
  "seg_send_start env i duration err s =
     (let tx = seg_txs s ! i;
          s = (case st_cb tx of
                 Some c \<Rightarrow>
                   if st_started tx then s
                   else upd_tx i (\<lambda>tx. tx\<lparr>st_started := True\<rparr>) (cb_start (ne_cbs (te_net env)) c duration err s)
               | None \<Rightarrow> s) in
      if err \<noteq> None then schedule_retransmit i s else s)"

definition seg_sent :: "nat \<Rightarrow> errno option \<Rightarrow> 'a trans_state_scheme \<Rightarrow> 'a trans_state_scheme" where
  "seg_sent i err s = schedule_retransmit i s"

definition seg_sent_cb :: "'a trans_state_scheme trans_env \<Rightarrow> 'a trans_state_scheme cb_sem" where
  "seg_sent_cb env =
     \<lparr>cb_start = (\<lambda>c duration err s. case c of CB_seg i \<Rightarrow> seg_send_start env i duration err s
                    | _ \<Rightarrow> cb_start (ne_cbs (te_net env)) c duration err s),
      cb_end = (\<lambda>c err s. case c of CB_seg i \<Rightarrow> seg_sent i err s | _ \<Rightarrow> cb_end (ne_cbs (te_net env)) c err s)\<rparr>"

definition seg_env :: "'a trans_state_scheme trans_env \<Rightarrow> 'a trans_state_scheme net_env" where
  "seg_env env = (te_net env)\<lparr>ne_cbs := seg_sent_cb env, ne_tx_in_progress := bt_mesh_tx_in_progress\<rparr>"

text \<open>The loop of \<^verbatim>\<open>seg_tx_reset\<close>: \<open>n\<close> segments from \<open>k\<close> on.\<close>

primrec seg_tx_reset_loop :: "nat \<Rightarrow> nat \<Rightarrow> nat \<Rightarrow> 'a trans_state_scheme \<Rightarrow> 'a trans_state_scheme option" where
  "seg_tx_reset_loop 0 i k s = Some s"
| "seg_tx_reset_loop (Suc n) i k s =
     (let tx = seg_txs s ! i in
      if st_nack_count tx = 0 then Some s
      else if k \<ge> length (st_seg tx) then None
      else seg_tx_reset_loop n i (Suc k) (if st_seg tx ! k = None then s else seg_tx_done i k s))"

definition seg_tx_reset ::
    "'a trans_state_scheme trans_env \<Rightarrow> nat \<Rightarrow> 'a trans_state_scheme \<Rightarrow> 'a trans_state_scheme option" where
  "seg_tx_reset env i s =
     do {
       let s = upd_tx i (\<lambda>tx. tx\<lparr>st_retransmit := None, st_cb := None, st_seq_auth := 0, st_sub := None, st_src := BT_MESH_ADDR_UNASSIGNED,
                 st_dst := BT_MESH_ADDR_UNASSIGNED, st_blocked := False\<rparr>) s;
       s \<leftarrow> seg_tx_reset_loop (unat (st_seg_n (seg_txs s ! i)) + 1) i 0 s;
       let s = upd_tx i (\<lambda>tx. tx\<lparr>st_nack_count := 0\<rparr>) s;
       Some (if flags s BT_MESH_IVU_PENDING
             then snd (bt_mesh_net_iv_update (seg_env env) (bm_iv_index s) False (set_flag_to BT_MESH_IVU_PENDING False s))
             else s) }"

definition seg_tx_complete ::
    "'a trans_state_scheme trans_env \<Rightarrow> nat \<Rightarrow> errno option \<Rightarrow> 'a trans_state_scheme \<Rightarrow>
     'a trans_state_scheme option" where
  "seg_tx_complete env i err s =
     do {
       let cb = st_cb (seg_txs s ! i);
       s \<leftarrow> seg_tx_reset env i (seg_tx_unblock_check i s);
       Some (case cb of None \<Rightarrow> s | Some c \<Rightarrow> cb_end (ne_cbs (te_net env)) c err s) }"

text \<open>\<open>len\<close> bytes are read from the block of segment \<open>seg_o\<close>.\<close>

definition seg_tx_buf_build :: "seg_tx \<Rightarrow> nat \<Rightarrow> net_buf_simple \<Rightarrow> net_buf_simple option" where
  "seg_tx_buf_build tx seg_o buf =
     (let seq_zero = seq_zero_of (st_seq_auth tx);
          n = min (seg_len (st_ctl tx)) (unat (st_len tx) - seg_len (st_ctl tx) * seg_o) in
      if seg_o \<ge> length (st_seg tx) then None
      else case st_seg tx ! seg_o of
        None \<Rightarrow> None
      | Some blk \<Rightarrow>
          if length blk < n then None
          else do {
            buf \<leftarrow> net_buf_simple_add_u8 buf (st_hdr tx);
            buf \<leftarrow> net_buf_simple_add_u8 buf (push_bit 7 (of_bool (st_aszmic tx)) OR ucast (drop_bit 6 seq_zero));
            buf \<leftarrow> net_buf_simple_add_u8 buf (ucast (push_bit 2 (seq_zero AND 0x3f)) OR of_nat (seg_o div 8));
            buf \<leftarrow> net_buf_simple_add_u8 buf (push_bit 5 (of_nat seg_o AND 0x07) OR st_seg_n tx);
            net_buf_simple_add_mem buf (take n blk) })"

text \<open>The parameters of the network layer that \<^verbatim>\<open>seg_tx_send_unacked\<close> sets up.\<close>

definition seg_net_tx :: "nat \<Rightarrow> seg_tx \<Rightarrow> 'a mesh_state_scheme \<Rightarrow> bt_mesh_net_tx" where
  "seg_net_tx sub tx s =
     \<lparr>tx_sub = sub,
      tx_ctx = empty_ctx\<lparr>ctx_net_idx := sub_net_idx (subnets s ! sub),
        ctx_app_idx := (if st_ctl tx then BT_MESH_KEY_UNUSED else 0), ctx_addr := st_dst tx, ctx_send_rel := True,
        ctx_send_ttl := st_ttl tx\<rparr>,
      tx_src = st_src tx, tx_xmit = st_xmit tx, tx_friend_cred = st_friend_cred tx, tx_aszmic = False,
      tx_aid = st_hdr tx AND AID_MASK\<rparr>"

text \<open>
  The loop over the segments. Its position is part of the slot, and the callbacks of a segment run in it: nothing in
  the loop itself bounds the number of rounds. The result says whether the loop ran to its end.
\<close>

partial_function (option) seg_tx_send_loop ::
    "'a trans_state_scheme trans_env \<Rightarrow> nat \<Rightarrow> bt_mesh_net_tx \<Rightarrow> 'a trans_state_scheme \<Rightarrow>
     (bool \<times> 'a trans_state_scheme) option" where
  "seg_tx_send_loop env i net_tx s =
     (let tx = seg_txs s ! i; o1 = unat (st_seg_o tx); next = upd_tx i (\<lambda>tx. tx\<lparr>st_seg_o := st_seg_o tx + 1\<rparr>) in
      if st_seg_o tx > st_seg_n tx then Some (True, s)
      else if o1 \<ge> length (st_seg tx) then None
      else if st_seg tx ! o1 = None then seg_tx_send_loop env i net_tx (next s)
      else case bt_mesh_adv_create BT_MESH_ADV_DATA (st_xmit tx) s of
        None \<Rightarrow> Some (False, s)
      | Some (buf, s) \<Rightarrow>
          do {
            b \<leftarrow> net_buf_simple_reserve (ab_b buf) BT_MESH_NET_HDR_LEN;
            b \<leftarrow> seg_tx_buf_build tx o1 b;
            let s = upd_tx i (\<lambda>tx. tx\<lparr>st_seg_pending := st_seg_pending tx + 1\<rparr>) s;
            (err, s) \<leftarrow> bt_mesh_net_send (seg_env env) net_tx (buf\<lparr>ab_b := b\<rparr>) (Some (CB_seg i)) s;
            (if err \<noteq> None then Some (False, upd_tx i (\<lambda>tx. tx\<lparr>st_seg_pending := st_seg_pending tx - 1\<rparr>) s)
             else seg_tx_send_loop env i net_tx (next s)) })"

definition seg_tx_send_unacked ::
    "'a trans_state_scheme trans_env \<Rightarrow> nat \<Rightarrow> 'a trans_state_scheme \<Rightarrow> 'a trans_state_scheme option" where
  "seg_tx_send_unacked env i s =
     (let tx = seg_txs s ! i in
      if st_nack_count tx = 0 then Some s
      else if st_attempts tx = 0 then
        seg_tx_complete env i (if BT_MESH_ADDR_IS_UNICAST (st_dst tx) then Some ETIMEDOUT else None) s
      else do {
        sub \<leftarrow> st_sub tx;
        (fin, s) \<leftarrow> seg_tx_send_loop env i (seg_net_tx sub tx s) (upd_tx i (\<lambda>tx. tx\<lparr>st_sending := True\<rparr>) s);
        let s = (if fin then upd_tx i (\<lambda>tx. tx\<lparr>st_seg_o := 0, st_attempts := st_attempts tx - 1\<rparr>) s else s);
        let s = (if st_seg_pending (seg_txs s ! i) = 0
                 then upd_tx i (\<lambda>tx. tx\<lparr>st_retransmit := Some (SEG_RETRANSMIT_TIMEOUT tx)\<rparr>) s else s);
        Some (upd_tx i (\<lambda>tx. tx\<lparr>st_sending := False\<rparr>) s) })"

definition seg_retransmit ::
    "'a trans_state_scheme trans_env \<Rightarrow> nat \<Rightarrow> 'a trans_state_scheme \<Rightarrow> 'a trans_state_scheme option" where
  "seg_retransmit env i s = seg_tx_send_unacked env i (upd_tx i (\<lambda>tx. tx\<lparr>st_retransmit := None\<rparr>) s)"

section \<open>Sending: messages\<close>

definition send_unseg ::
    "'a trans_state_scheme trans_env \<Rightarrow> bt_mesh_net_tx \<Rightarrow> bytes \<Rightarrow> send_cb option \<Rightarrow> u8 option \<Rightarrow>
     'a trans_state_scheme \<Rightarrow> (errno option \<times> 'a trans_state_scheme) option" where
  "send_unseg env tx sdu cb ctl_op s =
     (case bt_mesh_adv_create BT_MESH_ADV_DATA (tx_xmit tx) s of
        None \<Rightarrow> Some (Some ENOBUFS, s)
      | Some (buf, s) \<Rightarrow>
          do {
            b \<leftarrow> net_buf_simple_reserve (ab_b buf) BT_MESH_NET_HDR_LEN;
            b \<leftarrow> net_buf_simple_add_u8 b (case ctl_op of Some op \<Rightarrow> TRANS_CTL_HDR op 0
                   | None \<Rightarrow> if BT_MESH_IS_DEV_KEY (ctx_app_idx (tx_ctx tx)) then UNSEG_HDR 0 0 else UNSEG_HDR 1 (tx_aid tx));
            b \<leftarrow> net_buf_simple_add_mem b sdu;
            let addr = ctx_addr (tx_ctx tx);
            let send = bt_mesh_net_send (seg_env env) tx (buf\<lparr>ab_b := b\<rparr>) cb;
            (if \<not> te_friend env then send s
             else if \<not> te_friend_has_space env (sub_net_idx (subnets s ! tx_sub tx)) (tx_src tx) addr None 1 s then
               (if BT_MESH_ADDR_IS_UNICAST addr then Some (Some ENOBUFS, net_buf_unref s) else send s)
             else
               let (queued, s) = te_friend_enqueue_tx env tx BT_MESH_FRIEND_PDU_SINGLE None 1 (nb_data b) s in
               if queued \<and> BT_MESH_ADDR_IS_UNICAST addr
               then Some (None, send_cb_finalize (seg_sent_cb env) cb (net_buf_unref s))
               else send s) })"

text \<open>The search for a free slot: the first one, and whether a transmission in progress blocks the new one.\<close>

definition send_seg_slot :: "u16 \<Rightarrow> u16 \<Rightarrow> seg_tx list \<Rightarrow> nat option \<times> bool" where
  "send_seg_slot src dst txs =
     (find_idx (\<lambda>t. st_nack_count t = 0) txs, \<exists>t \<in> set txs. st_nack_count t \<noteq> 0 \<and> seg_tx_blocks t src dst)"

text \<open>The slot as \<^verbatim>\<open>send_seg\<close> fills it in for \<open>len\<close> bytes; the segment pointers, the timer and the sending flag stay.\<close>

definition send_seg_init ::
    "bt_mesh_net_tx \<Rightarrow> nat \<Rightarrow> send_cb option \<Rightarrow> u8 option \<Rightarrow> bool \<Rightarrow> 'a bt_mesh_net_scheme \<Rightarrow> seg_tx \<Rightarrow> seg_tx" where
  "send_seg_init net_tx len cb ctl_op blocked s tx =
     (let ctl = (ctl_op \<noteq> None); seg_n = of_nat ((len - 1) div seg_len ctl) in
      tx\<lparr>st_hdr := (case ctl_op of Some op \<Rightarrow> TRANS_CTL_HDR op 1
                  | None \<Rightarrow> if BT_MESH_IS_DEV_KEY (ctx_app_idx (tx_ctx net_tx)) then SEG_HDR 0 0 else SEG_HDR 1 (tx_aid net_tx)),
         st_src := tx_src net_tx, st_dst := ctx_addr (tx_ctx net_tx), st_seg_n := seg_n, st_seg_o := 0,
         st_len := of_nat len, st_nack_count := seg_n + 1,
         st_seq_auth := SEQ_AUTH (BT_MESH_NET_IVI_TX s) (bm_seq s), st_sub := Some (tx_sub net_tx), st_cb := cb,
         st_attempts := SEG_RETRANSMIT_ATTEMPTS, st_seg_pending := 0, st_xmit := tx_xmit net_tx,
         st_aszmic := tx_aszmic net_tx, st_friend_cred := tx_friend_cred net_tx, st_blocked := blocked,
         st_started := False, st_ctl := ctl, st_ttl := ctx_send_ttl (tx_ctx net_tx)\<rparr>)"

text \<open>
  The loop that takes the SDU apart: segment \<open>seg_o\<close> on, \<open>data\<close> being what is left. An error is the one that
  \<^verbatim>\<open>send_seg\<close> returns.
\<close>

function send_seg_loop ::
    "'a trans_state_scheme trans_env \<Rightarrow> nat \<Rightarrow> bt_mesh_net_tx \<Rightarrow> u8 option \<Rightarrow> bytes \<Rightarrow> nat \<Rightarrow> 'a trans_state_scheme \<Rightarrow>
     (errno option \<times> 'a trans_state_scheme) option" where
  "send_seg_loop env i net_tx ctl_op data seg_o s =
     (if data = [] then Some (None, s)
      else case segs_alloc s of
        None \<Rightarrow> map_option (Pair (Some ENOBUFS)) (seg_tx_reset env i s)
      | Some s \<Rightarrow>
          let n = min (length data) (seg_len (ctl_op \<noteq> None)); addr = ctx_addr (tx_ctx net_tx) in
          if seg_o \<ge> length (st_seg (seg_txs s ! i)) then None
          else
            let s = upd_tx i (\<lambda>tx. tx\<lparr>st_seg := (st_seg tx)[seg_o := Some (take n data)]\<rparr>) s in
            if \<not> te_friend env then send_seg_loop env i net_tx ctl_op (drop n data) (Suc seg_o) s
            else
              let tx = seg_txs s ! i in
              (case seg_tx_buf_build tx seg_o (NET_BUF_SIMPLE_DEFINE (replicate 16 0)) of
                 None \<Rightarrow> None
               | Some seg \<Rightarrow>
                   let (queued, s) =
                         te_friend_enqueue_tx env net_tx
                           (if seg_o = unat (st_seg_n tx) then BT_MESH_FRIEND_PDU_COMPLETE else BT_MESH_FRIEND_PDU_PARTIAL)
                           (if ctl_op = None then Some (st_seq_auth tx) else None) (unat (st_seg_n tx) + 1) (nb_data seg) s;
                       s = (if queued \<and> BT_MESH_ADDR_IS_UNICAST addr
                            then upd_tx i (\<lambda>tx. tx\<lparr>st_seg := (st_seg tx)[seg_o := None]\<rparr>) (segs_free s) else s) in
                   send_seg_loop env i net_tx ctl_op (drop n data) (Suc seg_o) s))"
  by pat_completeness auto

lemma seg_len_pos [simp]: "0 < seg_len ctl"
  by (simp add: seg_len_def BT_MESH_CTL_SEG_SDU_MAX_def BT_MESH_APP_SEG_SDU_MAX_def)

termination send_seg_loop
  by (relation "measure (\<lambda>(env, i, net_tx, ctl_op, data, seg_o, s). length data)") auto

definition send_seg ::
    "'a trans_state_scheme trans_env \<Rightarrow> bt_mesh_net_tx \<Rightarrow> bytes \<Rightarrow> send_cb option \<Rightarrow> u8 option \<Rightarrow>
     'a trans_state_scheme \<Rightarrow> (errno option \<times> 'a trans_state_scheme) option" where
  "send_seg env net_tx sdu cb ctl_op s =
     (case send_seg_slot (tx_src net_tx) (ctx_addr (tx_ctx net_tx)) (seg_txs s) of
        (None, blocked) \<Rightarrow> Some (Some EBUSY, s)
      | (Some i, blocked) \<Rightarrow>
          let s = upd_tx i (send_seg_init net_tx (length sdu) cb ctl_op blocked s) s; tx = seg_txs s ! i in
          if te_friend env
             \<and> \<not> te_friend_has_space env (sub_net_idx (subnets s ! tx_sub net_tx)) (tx_src net_tx) (st_dst tx)
                   (Some (st_seq_auth tx)) (unat (st_seg_n tx) + 1) s
             \<and> BT_MESH_ADDR_IS_UNICAST (st_dst tx)
          then map_option (Pair (Some ENOBUFS)) (seg_tx_reset env i s)
          else do {
            (err, s) \<leftarrow> send_seg_loop env i net_tx ctl_op sdu 0 s;
            (if err \<noteq> None then Some (err, s)
             else if te_friend env \<and> st_seg (seg_txs s ! i) ! 0 = None then do {
               s \<leftarrow> seg_tx_reset env i s;
               Some (None, send_cb_finalize (seg_sent_cb env) cb s) }
             else if blocked then Some (None, snd (bt_mesh_next_seq (seg_env env) s))
             else map_option (Pair None) (seg_tx_send_unacked env i s)) })"

section \<open>Virtual addresses\<close>

definition bt_mesh_va_get :: "u16 \<Rightarrow> 'a trans_state_scheme \<Rightarrow> nat option" where
  "bt_mesh_va_get index s = (if unat index \<ge> length (virtual_addrs s) then None else Some (unat index))"

definition va_store :: "nat \<Rightarrow> 'a trans_state_scheme \<Rightarrow> 'a trans_state_scheme" where
  "va_store i s =
     bt_mesh_store_label (s\<lparr>virtual_addrs := (virtual_addrs s)[i := (virtual_addrs s ! i)\<lparr>vt_changed := True\<rparr>]\<rparr>)"

definition va_matches :: "bytes \<Rightarrow> bt_mesh_va \<Rightarrow> bool" where
  "va_matches uuid va \<longleftrightarrow> vt_ref va \<noteq> 0 \<and> vt_uuid va = uuid"

text \<open>The result is the status and, on success, the address.\<close>

definition bt_mesh_va_add ::
    "tinycrypt \<Rightarrow> bytes \<Rightarrow> 'a trans_state_scheme \<Rightarrow> (mesh_status + u16) \<times> 'a trans_state_scheme" where
  "bt_mesh_va_add tc uuid s =
     (case find_idx (va_matches uuid) (virtual_addrs s) of
        Some i \<Rightarrow>
          let va = virtual_addrs s ! i in
          (Inr (vt_addr va),
           va_store i (s\<lparr>virtual_addrs := (virtual_addrs s)[i := va\<lparr>vt_ref := take_bit 15 (vt_ref va + 1)\<rparr>]\<rparr>))
      | None \<Rightarrow>
          (case find_idx (\<lambda>va. vt_ref va = 0) (virtual_addrs s) of
             None \<Rightarrow> (Inl STATUS_INSUFF_RESOURCES, s)
           | Some i \<Rightarrow>
               let va = (virtual_addrs s ! i)\<lparr>vt_uuid := uuid\<rparr> in
               (case bt_mesh_virtual_addr tc uuid of
                  Inl _ \<Rightarrow> (Inl STATUS_UNSPECIFIED,
                            s\<lparr>virtual_addrs := (virtual_addrs s)[i := va\<lparr>vt_addr := BT_MESH_ADDR_UNASSIGNED\<rparr>]\<rparr>)
                | Inr addr \<Rightarrow>
                    (Inr addr, va_store i (s\<lparr>virtual_addrs := (virtual_addrs s)[i := va\<lparr>vt_addr := addr, vt_ref := 1\<rparr>]\<rparr>)))))"

definition bt_mesh_va_del ::
    "bytes \<Rightarrow> 'a trans_state_scheme \<Rightarrow> (mesh_status + u16) \<times> 'a trans_state_scheme" where
  "bt_mesh_va_del uuid s =
     (case find_idx (va_matches uuid) (virtual_addrs s) of
        None \<Rightarrow> (Inl STATUS_CANNOT_REMOVE, s)
      | Some i \<Rightarrow>
          let va = virtual_addrs s ! i in
          (Inr (vt_addr va),
           va_store i (s\<lparr>virtual_addrs := (virtual_addrs s)[i := va\<lparr>vt_ref := take_bit 15 (vt_ref va - 1)\<rparr>]\<rparr>)))"

definition bt_mesh_va_find :: "bytes \<Rightarrow> 'a trans_state_scheme \<Rightarrow> nat option" where
  "bt_mesh_va_find uuid s = find_idx (va_matches uuid) (virtual_addrs s)"

definition bt_mesh_va_label_get :: "u16 \<Rightarrow> 'a trans_state_scheme \<Rightarrow> bytes option" where
  "bt_mesh_va_label_get addr s =
     map_option (\<lambda>i. vt_uuid (virtual_addrs s ! i))
       (find_idx (\<lambda>va. vt_ref va \<noteq> 0 \<and> vt_addr va = addr) (virtual_addrs s))"


section \<open>Sending: access and control messages\<close>

definition trans_encrypt ::
    "'a trans_state_scheme trans_env \<Rightarrow> bt_mesh_net_tx \<Rightarrow> bytes \<Rightarrow> net_buf_simple \<Rightarrow> 'a trans_state_scheme \<Rightarrow>
     (errno + net_buf_simple) option" where
  "trans_encrypt env tx key msg s =
     (let addr = ctx_addr (tx_ctx tx) in
      bt_mesh_app_encrypt (te_tc env) key
        \<lparr>ac_dev_key = BT_MESH_IS_DEV_KEY (ctx_app_idx (tx_ctx tx)), ac_aszmic = tx_aszmic tx, ac_src = tx_src tx,
         ac_dst = addr, ac_seq_num = bm_seq s, ac_iv_index = BT_MESH_NET_IVI_TX s,
         ac_ad = (if BT_MESH_ADDR_IS_VIRTUAL addr then bt_mesh_va_label_get addr s else None)\<rparr> msg)"

text \<open>The TTL that is sent: \<^verbatim>\<open>None\<close> where it is too large.\<close>

definition trans_send_ttl :: "u8 \<Rightarrow> 'a bt_mesh_net_scheme \<Rightarrow> u8 option" where
  "trans_send_ttl ttl s =
     (if ttl = BT_MESH_TTL_DEFAULT then Some (bt_mesh_default_ttl_get s)
      else if ttl > BT_MESH_TTL_MAX then None else Some ttl)"

definition bt_mesh_trans_send ::
    "'a trans_state_scheme trans_env \<Rightarrow> bt_mesh_net_tx \<Rightarrow> net_buf_simple \<Rightarrow> send_cb option \<Rightarrow> 'a trans_state_scheme \<Rightarrow>
     (errno option \<times> 'a trans_state_scheme) option" where
  "bt_mesh_trans_send env tx msg cb s =
     (if nb_len msg < 1 then Some (Some EINVAL, s)
      else if nb_len msg > BT_MESH_TX_SDU_MAX then Some (Some EMSGSIZE, s)
      else if net_buf_simple_tailroom msg < 4 then Some (Some EINVAL, s)
      else case trans_send_ttl (ctx_send_ttl (tx_ctx tx)) s of
        None \<Rightarrow> Some (Some EINVAL, s)
      | Some ttl \<Rightarrow>
          let ctx = (tx_ctx tx)\<lparr>ctx_send_ttl := ttl, ctx_send_rel := ctx_send_rel (tx_ctx tx) \<or> nb_len msg > BT_MESH_SDU_UNSEG_MAX\<rparr> in
          if ctx_addr ctx = BT_MESH_ADDR_UNASSIGNED
             \<or> (\<not> BT_MESH_ADDR_IS_UNICAST (ctx_addr ctx) \<and> BT_MESH_IS_DEV_KEY (ctx_app_idx ctx))
          then Some (Some EINVAL, s)
          else case bt_mesh_keys_resolve (ne_elem_find (te_net env)) (te_cdb_dev_key env) ctx s of
            Inl err \<Rightarrow> Some (Some err, s)
          | Inr (sub, key, aid) \<Rightarrow>
              let tx = tx\<lparr>tx_ctx := ctx, tx_sub := sub, tx_xmit := bt_mesh_net_transmit_get s, tx_aid := aid,
                         tx_aszmic := ctx_send_rel ctx \<and> \<not> net_buf_simple_tailroom msg < 8\<rparr> in
              (case trans_encrypt env tx key msg s of
                 None \<Rightarrow> None
               | Some (Inl err) \<Rightarrow> Some (Some err, s)
               | Some (Inr msg) \<Rightarrow>
                   if ctx_send_rel ctx then send_seg env tx (nb_data msg) cb None s
                   else send_unseg env tx (nb_data msg) cb None s))"

definition bt_mesh_ctl_send ::
    "'a trans_state_scheme trans_env \<Rightarrow> bt_mesh_net_tx \<Rightarrow> u8 \<Rightarrow> bytes \<Rightarrow> send_cb option \<Rightarrow> 'a trans_state_scheme \<Rightarrow>
     (errno option \<times> 'a trans_state_scheme) option" where
  "bt_mesh_ctl_send env tx ctl_op data cb s =
     (case trans_send_ttl (ctx_send_ttl (tx_ctx tx)) s of
        None \<Rightarrow> Some (Some EINVAL, s)
      | Some ttl \<Rightarrow>
          let ctx = (tx_ctx tx)\<lparr>ctx_send_ttl := ttl, ctx_send_rel := ctx_send_rel (tx_ctx tx) \<or> length data > BT_MESH_SDU_UNSEG_MAX,
                     ctx_app_idx := BT_MESH_KEY_UNUSED\<rparr> in
          if ctx_addr ctx = BT_MESH_ADDR_UNASSIGNED \<or> BT_MESH_ADDR_IS_VIRTUAL (ctx_addr ctx) then Some (Some EINVAL, s)
          else if ctx_send_rel ctx then send_seg env (tx\<lparr>tx_ctx := ctx\<rparr>) data cb (Some ctl_op) s
          else send_unseg env (tx\<lparr>tx_ctx := ctx\<rparr>) data cb (Some ctl_op) s)"

section \<open>Receiving: acknowledgements and control messages\<close>

text \<open>Bits are numbered from 1, and 0 says that no bit is set.\<close>

definition find_lsb_set :: "u32 \<Rightarrow> nat" where
  "find_lsb_set w = (case find_idx (bit w) [0..<32] of None \<Rightarrow> 0 | Some k \<Rightarrow> k + 1)"

definition find_msb_set :: "u32 \<Rightarrow> nat" where
  "find_msb_set w = (case find_last_idx (bit w) [0..<32] of None \<Rightarrow> 0 | Some k \<Rightarrow> k + 1)"

definition popcount :: "u32 \<Rightarrow> nat" where
  "popcount w = length (filter (bit w) [0..<32])"

text \<open>The slot of the message, and whether it is a Friend that answers: its address is then taken over.\<close>

primrec seg_tx_scan :: "u16 \<Rightarrow> bool \<Rightarrow> u16 \<Rightarrow> seg_tx list \<Rightarrow> nat \<Rightarrow> (nat \<times> bool) option" where
  "seg_tx_scan seq_zero obo addr [] i = None"
| "seg_tx_scan seq_zero obo addr (tx # rest) i =
     (if seq_zero_of (st_seq_auth tx) \<noteq> seq_zero then seg_tx_scan seq_zero obo addr rest (Suc i)
      else if st_dst tx = addr then Some (i, False)
      else if obo \<and> unat (st_nack_count tx) = unat (st_seg_n tx) + 1 then Some (i, True)
      else seg_tx_scan seq_zero obo addr rest (Suc i))"

definition seg_tx_lookup ::
    "u16 \<Rightarrow> bool \<Rightarrow> u16 \<Rightarrow> 'a trans_state_scheme \<Rightarrow> nat option \<times> 'a trans_state_scheme" where
  "seg_tx_lookup seq_zero obo addr s =
     (case seg_tx_scan seq_zero obo addr (seg_txs s) 0 of
        None \<Rightarrow> (None, s)
      | Some (i, frnd) \<Rightarrow> (Some i, if frnd then upd_tx i (\<lambda>tx. tx\<lparr>st_dst := addr\<rparr>) s else s))"

text \<open>The loop over the bits of an acknowledgement.\<close>

function trans_ack_loop :: "u32 \<Rightarrow> nat \<Rightarrow> 'a trans_state_scheme \<Rightarrow> 'a trans_state_scheme option" where
  "trans_ack_loop ack i s =
     (let b = find_lsb_set ack; k = b - 1 in
      if b = 0 then Some s
      else if k \<ge> length (st_seg (seg_txs s ! i)) then None
      else trans_ack_loop (ack AND NOT (push_bit k 1)) i (if st_seg (seg_txs s ! i) ! k = None then s else seg_tx_done i k s))"
  by pat_completeness auto

lemma find_lsb_set_bit:
  assumes "find_lsb_set w = Suc k"
  shows "bit w k" "k < 32"
proof -
  from assms have "find_idx (bit w) [0..<32] = Some k" by (simp add: find_lsb_set_def split: option.splits)
  from find_idx_SomeD[OF this] have k: "k < length [0..<32]" and b: "bit w ([0..<32] ! k)" by blast+
  from k show k: "k < 32" by simp
  then have "[0..<32] ! k = k" by (subst nth_upt) simp_all
  with b show "bit w k" by argo
qed

lemma find_lsb_set_0: "find_lsb_set w = 0 \<longleftrightarrow> w = 0"
proof -
  have "w = 0" if "\<forall>k < 32. \<not> bit w k" using that by (intro bit_word_eqI) simp
  then have "w = 0 \<longleftrightarrow> (\<forall>k < 32. \<not> bit w k)" by auto
  also have "\<dots> \<longleftrightarrow> find_idx (bit w) [0..<32] = None" by (simp add: find_idx_None_iff Ball_def)
  also have "\<dots> \<longleftrightarrow> find_lsb_set w = 0" by (simp add: find_lsb_set_def split: option.splits)
  finally show ?thesis by simp
qed

lemma popcount_card: "popcount w = card {j. j < 32 \<and> bit w j}"
proof -
  have "set (filter (bit w) [0..<32]) = {j. j < 32 \<and> bit w j}" by auto
  then show ?thesis using distinct_card[of "filter (bit w) [0..<32]"] by (simp add: popcount_def)
qed

lemma popcount_clear:
  assumes "bit w k" "k < 32"
  shows "popcount (w AND NOT (push_bit k 1)) < popcount w"
  unfolding popcount_card
proof (rule psubset_card_mono)
  let ?v = "w AND NOT (push_bit k 1)"
  have "{j. j < 32 \<and> bit ?v j} \<subseteq> {j. j < 32 \<and> bit w j}" by (auto simp only: bit_and_iff)
  moreover have "\<not> bit ?v k" using assms by (simp add: bit_and_iff bit_not_iff bit_push_bit_iff bit_exp_iff possible_bit_def)
  with assms have "k \<in> {j. j < 32 \<and> bit w j}" "k \<notin> {j. j < 32 \<and> bit ?v j}" by simp_all
  ultimately show "{j. j < 32 \<and> bit ?v j} \<subset> {j. j < 32 \<and> bit w j}" by blast
qed simp

termination trans_ack_loop
proof (relation "measure (\<lambda>(ack, i, s). popcount ack)", simp, goal_cases)
  case (1 ack i s b k)
  then have "find_lsb_set ack = Suc k" by (cases b) simp_all
  from popcount_clear[OF find_lsb_set_bit[OF this]] show ?case by simp
qed

declare trans_ack_loop.simps [simp del]

text \<open>The result has the SeqAuth that \<^verbatim>\<open>*seq_auth\<close> is left with.\<close>

definition trans_ack ::
    "'a trans_state_scheme trans_env \<Rightarrow> bt_mesh_net_rx \<Rightarrow> net_buf_simple \<Rightarrow> u64 \<Rightarrow> 'a trans_state_scheme \<Rightarrow>
     (errno option \<times> u64 \<times> 'a trans_state_scheme) option" where
  "trans_ack env rx buf seq_auth s =
     (if nb_len buf < 6 then Some (Some EINVAL, seq_auth, s)
      else do {
        (v, buf) \<leftarrow> net_buf_simple_pull_be16 buf;
        let obo = (drop_bit 15 v \<noteq> 0);
        let seq_zero = drop_bit 2 v AND TRANS_SEQ_ZERO_MASK;
        (if te_friend env \<and> rx_friend_match rx then Some (None, SEQ_AUTH (BT_MESH_NET_IVI_RX rx s) (ucast seq_zero), s)
         else do {
           (ack, buf) \<leftarrow> net_buf_simple_pull_be32 buf;
           (case seg_tx_lookup seq_zero obo (ctx_addr (rx_ctx rx)) s of
              (None, s) \<Rightarrow> Some (Some EINVAL, seq_auth, s)
            | (Some i, s) \<Rightarrow>
                let tx = seg_txs s ! i; seq_auth' = st_seq_auth tx in
                if \<not> BT_MESH_ADDR_IS_UNICAST (st_dst tx) then Some (Some EINVAL, seq_auth, s)
                else if ack = 0 then map_option (\<lambda>s. (None, seq_auth', s)) (seg_tx_complete env i (Some ECANCELED) s)
                else if find_msb_set ack - 1 > unat (st_seg_n tx) then Some (Some EINVAL, seq_auth', s)
                else do {
                  s \<leftarrow> trans_ack_loop ack i (upd_tx i (\<lambda>tx. tx\<lparr>st_retransmit := None\<rparr>) s);
                  s \<leftarrow> (if st_nack_count (seg_txs s ! i) \<noteq> 0 then seg_tx_send_unacked env i s
                       else seg_tx_complete env i None s);
                  Some (None, seq_auth', s) }) }) })"

definition TRANS_CTL_OP_ACK :: u8 where "TRANS_CTL_OP_ACK = 0x00"
definition TRANS_CTL_OP_FRIEND_POLL :: u8 where "TRANS_CTL_OP_FRIEND_POLL = 0x01"
definition TRANS_CTL_OP_FRIEND_REQ :: u8 where "TRANS_CTL_OP_FRIEND_REQ = 0x03"
definition TRANS_CTL_OP_FRIEND_CLEAR :: u8 where "TRANS_CTL_OP_FRIEND_CLEAR = 0x05"
definition TRANS_CTL_OP_FRIEND_CLEAR_CFM :: u8 where "TRANS_CTL_OP_FRIEND_CLEAR_CFM = 0x06"
definition TRANS_CTL_OP_FRIEND_SUB_ADD :: u8 where "TRANS_CTL_OP_FRIEND_SUB_ADD = 0x07"
definition TRANS_CTL_OP_FRIEND_SUB_REM :: u8 where "TRANS_CTL_OP_FRIEND_SUB_REM = 0x08"
definition TRANS_CTL_OP_HEARTBEAT :: u8 where "TRANS_CTL_OP_HEARTBEAT = 0x0a"

definition ctl_recv ::
    "'a trans_state_scheme trans_env \<Rightarrow> bt_mesh_net_rx \<Rightarrow> u8 \<Rightarrow> net_buf_simple \<Rightarrow> u64 \<Rightarrow> 'a trans_state_scheme \<Rightarrow>
     (errno option \<times> u64 \<times> 'a trans_state_scheme) option" where
  "ctl_recv env rx hdr buf seq_auth s =
     (let ctl_op = TRANS_CTL_OP hdr; keep = map_option (\<lambda>(err, s). (err, seq_auth, s)) in
      if ctl_op = TRANS_CTL_OP_ACK then trans_ack env rx buf seq_auth s
      else if ctl_op = TRANS_CTL_OP_HEARTBEAT then keep (te_hb_recv env rx buf s)
      else if \<not> rx_local_match rx then Some (None, seq_auth, s)
      else if te_friend env
              \<and> ctl_op \<in> {TRANS_CTL_OP_FRIEND_POLL, TRANS_CTL_OP_FRIEND_REQ, TRANS_CTL_OP_FRIEND_CLEAR,
                          TRANS_CTL_OP_FRIEND_CLEAR_CFM, TRANS_CTL_OP_FRIEND_SUB_ADD, TRANS_CTL_OP_FRIEND_SUB_REM}
      then keep (te_friend_ctl env ctl_op rx buf s)
      else Some (Some ENOENT, seq_auth, s))"

definition send_ack ::
    "'a trans_state_scheme trans_env \<Rightarrow> nat option \<Rightarrow> u16 \<Rightarrow> u16 \<Rightarrow> u8 \<Rightarrow> u64 \<Rightarrow> u32 \<Rightarrow> bool \<Rightarrow> 'a trans_state_scheme \<Rightarrow>
     (errno option \<times> 'a trans_state_scheme) option" where
  "send_ack env sub0 src dst ttl seq_auth block obo s =
     do {
       sub \<leftarrow> sub0;
       (if \<not> BT_MESH_ADDR_IS_UNICAST src then Some (None, s)
        else bt_mesh_ctl_send env
               \<lparr>tx_sub = sub,
                tx_ctx = empty_ctx\<lparr>ctx_net_idx := sub_net_idx (subnets s ! sub), ctx_app_idx := BT_MESH_KEY_UNUSED,
                  ctx_addr := dst, ctx_send_ttl := ttl\<rparr>,
                tx_src = (if obo then te_primary_addr env s else src), tx_xmit = bt_mesh_net_transmit_get s,
                tx_friend_cred = False, tx_aszmic = False, tx_aid = 0\<rparr>
               TRANS_CTL_OP_ACK
               (sys_put_be16 ((push_bit 2 (seq_zero_of seq_auth) AND 0x7ffc) OR push_bit 15 (of_bool obo))
                @ sys_put_be32 block) None s) }"

section \<open>Receiving: reassembly\<close>

definition ack_timeout :: "seg_rx \<Rightarrow> 'a bt_mesh_net_scheme \<Rightarrow> nat" where
  "ack_timeout rx s =
     (let ttl = (if sr_ttl rx = BT_MESH_TTL_DEFAULT then bt_mesh_default_ttl_get s else sr_ttl rx) in
      max (150 + unat ttl * 50 + (unat (sr_seg_n rx) + 1 - popcount (sr_block rx)) * 100) 400)"

text \<open>The loop of \<^verbatim>\<open>seg_rx_reset\<close>: \<open>n\<close> segments from \<open>k\<close> on.\<close>

primrec seg_rx_reset_loop :: "nat \<Rightarrow> nat \<Rightarrow> nat \<Rightarrow> 'a trans_state_scheme \<Rightarrow> 'a trans_state_scheme option" where
  "seg_rx_reset_loop 0 i k s = Some s"
| "seg_rx_reset_loop (Suc n) i k s =
     (let rx = seg_rxs s ! i in
      if k \<ge> length (sr_seg rx) then None
      else seg_rx_reset_loop n i (Suc k)
             (if sr_seg rx ! k = None then s else upd_rx i (\<lambda>rx. rx\<lparr>sr_seg := (sr_seg rx)[k := None]\<rparr>) (segs_free s)))"

definition seg_rx_reset ::
    "'a trans_state_scheme trans_env \<Rightarrow> nat \<Rightarrow> bool \<Rightarrow> 'a trans_state_scheme \<Rightarrow> 'a trans_state_scheme option" where
  "seg_rx_reset env i full_reset s =
     do {
       let rx = seg_rxs s ! i;
       let s = upd_rx i (\<lambda>rx. rx\<lparr>sr_ack := None\<rparr>) s;
       let s = (if te_friend env \<and> sr_obo rx \<and> sr_block rx \<noteq> BLOCK_COMPLETE (sr_seg_n rx)
                then te_friend_clear_incomplete env (sr_sub rx) (sr_src rx) (sr_dst rx) (sr_seq_auth rx) s else s);
       s \<leftarrow> seg_rx_reset_loop (unat (sr_seg_n (seg_rxs s ! i)) + 1) i 0 s;
       Some (upd_rx i (\<lambda>rx. if full_reset
               then rx\<lparr>sr_in_use := False, sr_seq_auth := 0, sr_sub := None, sr_src := BT_MESH_ADDR_UNASSIGNED,
                       sr_dst := BT_MESH_ADDR_UNASSIGNED\<rparr>
               else rx\<lparr>sr_in_use := False\<rparr>) s) }"

text \<open>The acknowledgement timer.\<close>

definition seg_ack ::
    "'a trans_state_scheme trans_env \<Rightarrow> nat \<Rightarrow> 'a trans_state_scheme \<Rightarrow> 'a trans_state_scheme option" where
  "seg_ack env i s =
     (let s = upd_rx i (\<lambda>rx. rx\<lparr>sr_ack := None\<rparr>) s; rx = seg_rxs s ! i in
      if te_uptime env s - sr_last rx > 60 * 1000 then seg_rx_reset env i False s
      else do {
        (err, s) \<leftarrow> send_ack env (sr_sub rx) (sr_dst rx) (sr_src rx) (sr_ttl rx) (sr_seq_auth rx) (sr_block rx) (sr_obo rx) s;
        Some (upd_rx i (\<lambda>rx. rx\<lparr>sr_ack := Some (ack_timeout rx s)\<rparr>) s) })"

definition sdu_len_is_ok :: "bool \<Rightarrow> u8 \<Rightarrow> bool" where
  "sdu_len_is_ok ctl seg_n \<longleftrightarrow> unat seg_n < CONFIG_BT_MESH_RX_SEG_MAX"

text \<open>A slot with a SeqAuth that is not older, an older transmission in progress, or neither.\<close>

datatype seg_rx_match = Rx_Found nat | Rx_Outdated nat | Rx_None

primrec seg_rx_scan :: "bt_mesh_net_rx \<Rightarrow> u64 \<Rightarrow> seg_rx list \<Rightarrow> nat \<Rightarrow> seg_rx_match" where
  "seg_rx_scan net_rx seq_auth [] i = Rx_None"
| "seg_rx_scan net_rx seq_auth (rx # rest) i =
     (if sr_src rx \<noteq> ctx_addr (rx_ctx net_rx) \<or> sr_dst rx \<noteq> ctx_recv_dst (rx_ctx net_rx)
      then seg_rx_scan net_rx seq_auth rest (Suc i)
      else if sr_seq_auth rx \<ge> seq_auth then Rx_Found i
      else if sr_in_use rx then Rx_Outdated i
      else seg_rx_scan net_rx seq_auth rest (Suc i))"

definition seg_rx_find ::
    "'a trans_state_scheme trans_env \<Rightarrow> bt_mesh_net_rx \<Rightarrow> u64 \<Rightarrow> 'a trans_state_scheme \<Rightarrow>
     (nat option \<times> 'a trans_state_scheme) option" where
  "seg_rx_find env net_rx seq_auth s =
     (case seg_rx_scan net_rx seq_auth (seg_rxs s) 0 of
        Rx_Found i \<Rightarrow> Some (Some i, s)
      | Rx_Outdated i \<Rightarrow> map_option (Pair None) (seg_rx_reset env i True s)
      | Rx_None \<Rightarrow> Some (None, s))"

definition seg_rx_is_valid :: "seg_rx \<Rightarrow> bt_mesh_net_rx \<Rightarrow> u8 \<Rightarrow> u8 \<Rightarrow> bool" where
  "seg_rx_is_valid rx net_rx hdr seg_n \<longleftrightarrow>
     \<not> (sr_hdr rx \<noteq> hdr \<or> sr_seg_n rx \<noteq> seg_n)
     \<and> \<not> (sr_src rx \<noteq> ctx_addr (rx_ctx net_rx) \<or> sr_dst rx \<noteq> ctx_recv_dst (rx_ctx net_rx))
     \<and> sr_ctl rx = rx_ctl net_rx"

definition seg_rx_alloc ::
    "bt_mesh_net_rx \<Rightarrow> u8 \<Rightarrow> u64 \<Rightarrow> u8 \<Rightarrow> 'a trans_state_scheme \<Rightarrow> (nat \<times> 'a trans_state_scheme) option" where
  "seg_rx_alloc net_rx hdr seq_auth seg_n s =
     (if CONFIG_BT_MESH_SEG_BUFS - segs_used s < 1 then None
      else case find_idx (\<lambda>rx. \<not> sr_in_use rx) (seg_rxs s) of
        None \<Rightarrow> None
      | Some i \<Rightarrow>
          Some (i, upd_rx i (\<lambda>rx. rx\<lparr>sr_in_use := True, sr_sub := rx_sub net_rx, sr_ctl := rx_ctl net_rx,
                     sr_seq_auth := seq_auth, sr_seg_n := seg_n, sr_hdr := hdr, sr_ttl := ctx_send_ttl (rx_ctx net_rx),
                     sr_src := ctx_addr (rx_ctx net_rx), sr_dst := ctx_recv_dst (rx_ctx net_rx), sr_block := 0\<rparr>) s))"

text \<open>The loop of \<^verbatim>\<open>seg_rx_assemble\<close>: \<open>n\<close> segments from \<open>k\<close> on.\<close>

primrec seg_rx_assemble_loop :: "nat \<Rightarrow> nat \<Rightarrow> seg_rx \<Rightarrow> net_buf_simple \<Rightarrow> net_buf_simple option" where
  "seg_rx_assemble_loop 0 k rx buf = Some buf"
| "seg_rx_assemble_loop (Suc n) k rx buf =
     (let len = min (seg_len (sr_ctl rx)) (unat (sr_len rx) - k * seg_len (sr_ctl rx)) in
      if k \<ge> length (sr_seg rx) then None
      else do {
        blk \<leftarrow> sr_seg rx ! k;
        buf \<leftarrow> (if length blk < len then None else net_buf_simple_add_mem buf (take len blk));
        seg_rx_assemble_loop n (Suc k) rx buf })"

definition seg_rx_assemble :: "seg_rx \<Rightarrow> net_buf_simple \<Rightarrow> bool \<Rightarrow> net_buf_simple option" where
  "seg_rx_assemble rx buf aszmic =
     do {
       buf \<leftarrow> seg_rx_assemble_loop (unat (sr_seg_n rx) + 1) 0 rx (net_buf_simple_reset buf);
       Some (if sr_ctl rx then buf else buf\<lparr>nb_len := nb_len buf - APP_MIC_LEN aszmic\<rparr>) }"

section \<open>Receiving: messages\<close>

text \<open>
  A key is tried: \<open>Some\<close> is success, with the plaintext. For a segmented message the output buffer shares the storage
  of the reassembly buffer, so that the decryption is in place. \<open>Some None\<close> is a failed assertion.
\<close>

definition sdu_try_decrypt ::
    "tinycrypt \<Rightarrow> bt_mesh_app_crypto_ctx \<Rightarrow> net_buf_simple \<Rightarrow> net_buf_simple \<Rightarrow> seg_rx option \<Rightarrow> bytes \<Rightarrow>
     net_buf_simple option option" where
  "sdu_try_decrypt tc crypto buf sdu seg key =
     (case (case seg of None \<Rightarrow> Some (buf, sdu)
            | Some rx \<Rightarrow> map_option (\<lambda>b. (b, sdu\<lparr>nb_store := take (nb_size sdu) (nb_store b)\<rparr>))
                           (seg_rx_assemble rx buf (ac_aszmic crypto))) of
        None \<Rightarrow> Some None
      | Some (buf, sdu) \<Rightarrow>
          (case bt_mesh_app_decrypt tc key crypto buf (net_buf_simple_reset sdu) of
             None \<Rightarrow> Some None
           | Some (Inl err) \<Rightarrow> None
           | Some (Inr out) \<Rightarrow> Some (Some out)))"

definition sdu_recv ::
    "'a trans_state_scheme trans_env \<Rightarrow> bt_mesh_net_rx \<Rightarrow> u8 \<Rightarrow> bool \<Rightarrow> net_buf_simple \<Rightarrow> net_buf_simple \<Rightarrow> seg_rx option \<Rightarrow>
     int \<Rightarrow> 'a trans_state_scheme \<Rightarrow> (errno option \<times> bt_mesh_net_rx \<times> 'a trans_state_scheme) option" where
  "sdu_recv env rx hdr aszmic buf sdu seg rssi s =
     (let dst = ctx_recv_dst (rx_ctx rx);
          crypto = \<lparr>ac_dev_key = (\<not> AKF hdr), ac_aszmic = aszmic, ac_src = ctx_addr (rx_ctx rx), ac_dst = dst,
            ac_seq_num = (case seg of Some g \<Rightarrow> ucast (sr_seq_auth g AND 0xffffff) | None \<Rightarrow> rx_seq rx),
            ac_iv_index = BT_MESH_NET_IVI_RX rx s,
            ac_ad = (if BT_MESH_ADDR_IS_VIRTUAL dst then bt_mesh_va_label_get dst s else None)\<rparr> in
      if te_friend env \<and> \<not> rx_local_match rx then Some (None, rx, s)
      else case bt_mesh_app_key_find (te_cdb_dev_key env) (ac_dev_key crypto) (AID hdr) rx
                  (sdu_try_decrypt (te_tc env) crypto buf sdu seg) s of
        None \<Rightarrow> Some (None, rx\<lparr>rx_ctx := (rx_ctx rx)\<lparr>ctx_app_idx := BT_MESH_KEY_UNUSED\<rparr>\<rparr>, s)
      | Some (app_idx, out) \<Rightarrow>
          let rx = rx\<lparr>rx_ctx := (rx_ctx rx)\<lparr>ctx_app_idx := app_idx\<rparr>\<rparr> in
          do {
            sdu \<leftarrow> out;
            s \<leftarrow> te_model_recv env rx sdu rssi s;
            Some (None, rx, s) })"

text \<open>What \<^verbatim>\<open>trans_unseg\<close> and \<^verbatim>\<open>trans_seg\<close> give back through pointers.\<close>

record trans_out =
  to_pdu_type :: bt_mesh_friend_pdu_type
  to_seq_auth :: u64
  to_seg_count :: nat

type_synonym 's trans_result = "(errno option \<times> bt_mesh_net_rx \<times> trans_out \<times> 's) option"

definition trans_unseg ::
    "'a trans_state_scheme trans_env \<Rightarrow> net_buf_simple \<Rightarrow> bt_mesh_net_rx \<Rightarrow> trans_out \<Rightarrow> int \<Rightarrow> 'a trans_state_scheme \<Rightarrow>
     'a trans_state_scheme trans_result" where
  "trans_unseg env buf rx t rssi s =
     (if nb_len buf < 1 then Some (Some EINVAL, rx, t, s)
      else case bt_mesh_rpl_check rx False s of
        (True, _, s) \<Rightarrow> Some (Some EINVAL, rx, t, s)
      | (False, _, s) \<Rightarrow>
          do {
            (hdr, buf) \<leftarrow> net_buf_simple_pull_u8 buf;
            (if rx_ctl rx then
               map_option (\<lambda>(err, seq_auth, s). (err, rx, t\<lparr>to_seq_auth := seq_auth\<rparr>, s)) (ctl_recv env rx hdr buf (to_seq_auth t) s)
             else if nb_len buf < 1 + APP_MIC_LEN False then Some (Some EINVAL, rx, t, s)
             else map_option (\<lambda>(err, rx, s). (err, rx, t, s))
                    (sdu_recv env rx hdr False (buf\<lparr>nb_len := nb_len buf - APP_MIC_LEN False\<rparr>)
                       (NET_BUF_SIMPLE_DEFINE (replicate BT_MESH_SDU_UNSEG_MAX 0)) None rssi s)) })"

text \<open>The fields of a segment header behind the first octet: SeqZero, SegO and SegN.\<close>

definition seg_fields :: "u16 \<Rightarrow> u8 \<Rightarrow> u16 \<times> u8 \<times> u8" where
  "seg_fields v n =
     (drop_bit 2 v AND TRANS_SEQ_ZERO_MASK, push_bit 3 (ucast (v AND 0x03)) OR drop_bit 5 n, n AND 0x1f)"

text \<open>The sequence number of the first segment, from that of any segment and SeqZero.\<close>

definition seg_seq0 :: "u32 \<Rightarrow> u16 \<Rightarrow> u32" where
  "seg_seq0 sq seq_zero = sq - (((sq AND mask 14) - ucast seq_zero) AND mask 13)"

text \<open>A complete SDU in slot \<open>i\<close> goes up. \<open>d\<close> is the PDU.\<close>

definition trans_seg_complete ::
    "'a trans_state_scheme trans_env \<Rightarrow> bytes \<Rightarrow> bt_mesh_net_rx \<Rightarrow> trans_out \<Rightarrow> int \<Rightarrow> nat option \<Rightarrow> nat \<Rightarrow>
     'a trans_state_scheme \<Rightarrow> 'a trans_state_scheme trans_result" where
  "trans_seg_complete env d net_rx t rssi rpl i s =
     do {
       let s = (case rpl of None \<Rightarrow> s | Some r \<Rightarrow> bt_mesh_rpl_update r net_rx s);
       let t = t\<lparr>to_pdu_type := BT_MESH_FRIEND_PDU_COMPLETE\<rparr>;
       let s = upd_rx i (\<lambda>rx. rx\<lparr>sr_ack := None\<rparr>) s;
       (_, s) \<leftarrow> send_ack env (rx_sub net_rx) (ctx_recv_dst (rx_ctx net_rx)) (ctx_addr (rx_ctx net_rx))
                  (ctx_send_ttl (rx_ctx net_rx)) (to_seq_auth t) (sr_block (seg_rxs s ! i)) (sr_obo (seg_rxs s ! i)) s;
       let rx = seg_rxs s ! i;
       let mic = APP_MIC_LEN (ASZMIC d);
       (err, net_rx, t, s) \<leftarrow>
         (if rx_ctl net_rx then do {
            sdu \<leftarrow> seg_rx_assemble rx (NET_BUF_SIMPLE_DEFINE (replicate BT_MESH_RX_CTL_MAX 0)) False;
            (err, seq_auth, s) \<leftarrow> ctl_recv env net_rx (d ! 0) sdu (to_seq_auth t) s;
            Some (err, net_rx, t\<lparr>to_seq_auth := seq_auth\<rparr>, s) }
          else if unat (sr_len rx) < 1 + mic then Some (Some EINVAL, net_rx, t, s)
          else do {
            let seg_buf = NET_BUF_SIMPLE_DEFINE (replicate BT_MESH_RX_SDU_MAX 0);
            (err, net_rx, s) \<leftarrow> sdu_recv env net_rx (d ! 0) (ASZMIC d) seg_buf
                                 (net_buf_simple_init_with_data (take (unat (sr_len rx) - mic) (nb_store seg_buf))) (Some rx) rssi s;
            Some (err, net_rx, t, s) });
       s \<leftarrow> seg_rx_reset env i False s;
       Some (err, net_rx, t, s) }"

text \<open>The label \<^verbatim>\<open>found_rx\<close> of \<^verbatim>\<open>trans_seg\<close>: the segment \<open>seg_o\<close> in \<open>buf\<close> belongs to slot \<open>i\<close>.\<close>

definition trans_seg_found ::
    "'a trans_state_scheme trans_env \<Rightarrow> bytes \<Rightarrow> net_buf_simple \<Rightarrow> bt_mesh_net_rx \<Rightarrow> trans_out \<Rightarrow> int \<Rightarrow> nat option \<Rightarrow>
     u8 \<Rightarrow> u8 \<Rightarrow> nat \<Rightarrow> 'a trans_state_scheme \<Rightarrow> 'a trans_state_scheme trans_result" where
  "trans_seg_found env d buf net_rx t rssi rpl seg_o seg_n i s =
     (let ko = unat seg_o; len = nb_len buf; sl = seg_len (sr_ctl (seg_rxs s ! i)) in
      if bit (sr_block (seg_rxs s ! i)) ko then Some (Some EALREADY, net_rx, t, s)
      else if seg_o \<noteq> seg_n \<and> len \<noteq> sl then Some (Some EINVAL, net_rx, t, s)
      else
        let s = (if seg_o = seg_n then upd_rx i (\<lambda>rx. rx\<lparr>sr_len := of_nat (unat seg_n * sl + len)\<rparr>) s else s) in
        if seg_o = seg_n \<and> unat (sr_len (seg_rxs s ! i)) > BT_MESH_RX_SDU_MAX then do {
          (_, s) \<leftarrow> send_ack env (rx_sub net_rx) (ctx_recv_dst (rx_ctx net_rx)) (ctx_addr (rx_ctx net_rx))
                     (ctx_send_ttl (rx_ctx net_rx)) (to_seq_auth t) 0 (sr_obo (seg_rxs s ! i)) s;
          s \<leftarrow> seg_rx_reset env i True s;
          Some (Some EMSGSIZE, net_rx, t, s) }
        else
          let s = upd_rx i (\<lambda>rx. rx\<lparr>sr_last := te_uptime env s,
                    sr_ack := (case sr_ack rx of Some ms \<Rightarrow> if ms = 0 then Some (ack_timeout rx s) else Some ms
                               | None \<Rightarrow> Some (ack_timeout rx s))\<rparr>) s in
          if ko \<ge> length (sr_seg (seg_rxs s ! i)) then None
          else case segs_alloc s of
            None \<Rightarrow> Some (Some ENOBUFS, net_rx, t, upd_rx i (\<lambda>rx. rx\<lparr>sr_seg := (sr_seg rx)[ko := None]\<rparr>) s)
          | Some s \<Rightarrow>
              if len > BT_MESH_APP_SEG_SDU_MAX then None
              else
                let s = upd_rx i (\<lambda>rx. rx\<lparr>sr_seg := (sr_seg rx)[ko := Some (nb_data buf)],
                          sr_block := sr_block rx OR push_bit ko 1\<rparr>) s in
                if sr_block (seg_rxs s ! i) \<noteq> BLOCK_COMPLETE seg_n
                then Some (None, net_rx, t\<lparr>to_pdu_type := BT_MESH_FRIEND_PDU_PARTIAL\<rparr>, s)
                else trans_seg_complete env d net_rx t rssi rpl i s)"

definition trans_seg ::
    "'a trans_state_scheme trans_env \<Rightarrow> net_buf_simple \<Rightarrow> bt_mesh_net_rx \<Rightarrow> trans_out \<Rightarrow> int \<Rightarrow> 'a trans_state_scheme \<Rightarrow>
     'a trans_state_scheme trans_result" where
  "trans_seg env buf net_rx t rssi s =
     (let d = nb_data buf; src = ctx_addr (rx_ctx net_rx); dst = ctx_recv_dst (rx_ctx net_rx);
          ack = send_ack env (rx_sub net_rx) dst src (ctx_send_ttl (rx_ctx net_rx)) in
      if nb_len buf < 5 then Some (Some EINVAL, net_rx, t, s)
      else case bt_mesh_rpl_check net_rx True s of
        (True, _, s) \<Rightarrow> Some (Some EINVAL, net_rx, t, s)
      | (False, rpl, s) \<Rightarrow>
          do {
            buf \<leftarrow> net_buf_simple_pull buf 1;
            (v, buf) \<leftarrow> net_buf_simple_pull_be16 buf;
            (n, buf) \<leftarrow> net_buf_simple_pull_u8 buf;
            let (seq_zero, seg_o, seg_n) = seg_fields v n;
            let seq_auth = SEQ_AUTH (BT_MESH_NET_IVI_RX net_rx s) (seg_seq0 (rx_seq net_rx) seq_zero);
            let t' = t\<lparr>to_seq_auth := seq_auth, to_seg_count := unat seg_n + 1\<rparr>;
            let found = trans_seg_found env d buf net_rx t' rssi rpl seg_o seg_n;
            (if seg_o > seg_n then Some (Some EINVAL, net_rx, t, s)
             else do {
               (slot, s) \<leftarrow> seg_rx_find env net_rx seq_auth s;
               (case slot of
                  Some i \<Rightarrow>
                    let rx = seg_rxs s ! i in
                    if sr_seq_auth rx > seq_auth then Some (Some EINVAL, net_rx, t', s)
                    else if \<not> seg_rx_is_valid rx net_rx (d ! 0) seg_n then Some (Some EINVAL, net_rx, t', s)
                    else if sr_in_use rx then found i s
                    else if sr_block rx = BLOCK_COMPLETE (sr_seg_n rx) then do {
                      (_, s) \<leftarrow> ack seq_auth (sr_block rx) (sr_obo rx) s;
                      Some (Some EALREADY, net_rx, t', case rpl of None \<Rightarrow> s | Some r \<Rightarrow> bt_mesh_rpl_update r net_rx s) }
                    else Some (Some EINVAL, net_rx, t', s)
                | None \<Rightarrow>
                    if \<not> sdu_len_is_ok (rx_ctl net_rx) seg_n then do {
                      (_, s) \<leftarrow> ack seq_auth 0 (rx_friend_match net_rx) s;
                      Some (Some EMSGSIZE, net_rx, t', s) }
                    else if te_friend env \<and> rx_friend_match net_rx \<and> \<not> rx_local_match net_rx
                            \<and> \<not> te_friend_has_space env (sub_net_idx (subnets s ! the (rx_sub net_rx))) src dst (Some seq_auth)
                                  (unat seg_n + 1) s then do {
                      (_, s) \<leftarrow> ack seq_auth 0 (rx_friend_match net_rx) s;
                      Some (Some ENOBUFS, net_rx, t', s) }
                    else
                      (case seg_rx_alloc net_rx (d ! 0) seq_auth seg_n s of
                         None \<Rightarrow> Some (Some ENOMEM, net_rx, t', s)
                       | Some (i, s) \<Rightarrow> found i (upd_rx i (\<lambda>rx. rx\<lparr>sr_obo := rx_friend_match net_rx\<rparr>) s))) }) })"

definition bt_mesh_trans_recv :: "'a trans_state_scheme trans_env \<Rightarrow> 'a trans_state_scheme trans_recv" where
  "bt_mesh_trans_recv env buf rx rssi s =
     do {
       let rx = rx\<lparr>rx_friend_match := te_friend env
                    \<and> te_friend_match env (sub_net_idx (subnets s ! the (rx_sub rx))) (ctx_recv_dst (rx_ctx rx)) s\<rparr>;
       buf \<leftarrow> net_buf_simple_pull buf BT_MESH_NET_HDR_LEN;
       let t = \<lparr>to_pdu_type = BT_MESH_FRIEND_PDU_SINGLE, to_seq_auth = TRANS_SEQ_AUTH_NVAL, to_seg_count = 0\<rparr>;
       (if SEG (nb_data buf) \<and> \<not> rx_local_match rx \<and> \<not> rx_friend_match rx then Some (None, rx, s)
        else do {
          (err, rx, t, s) \<leftarrow> (if SEG (nb_data buf) then trans_seg env buf rx t rssi s
                              else trans_unseg env buf rx (t\<lparr>to_seg_count := 1\<rparr>) rssi s);
          Some (err, rx,
            if te_friend env \<and> rx_friend_match rx \<and> err = None
            then te_friend_enqueue_rx env rx (to_pdu_type t)
                   (if to_seq_auth t = TRANS_SEQ_AUTH_NVAL then None else Some (to_seq_auth t)) (to_seg_count t) (nb_data buf) s
            else s) }) }"

section \<open>Reset\<close>

text \<open>A loop over slots whose body may fail.\<close>

primrec slots_loop :: "(nat \<Rightarrow> 's \<Rightarrow> 's option) \<Rightarrow> nat list \<Rightarrow> 's \<Rightarrow> 's option" where
  "slots_loop f [] s = Some s"
| "slots_loop f (i # is) s = Option.bind (f i s) (slots_loop f is)"

definition bt_mesh_rx_reset ::
    "'a trans_state_scheme trans_env \<Rightarrow> 'a trans_state_scheme \<Rightarrow> 'a trans_state_scheme option" where
  "bt_mesh_rx_reset env s = slots_loop (\<lambda>i. seg_rx_reset env i True) [0..<length (seg_rxs s)] s"

definition bt_mesh_trans_reset ::
    "'a trans_state_scheme trans_env \<Rightarrow> 'a trans_state_scheme \<Rightarrow> 'a trans_state_scheme option" where
  "bt_mesh_trans_reset env s =
     do {
       s \<leftarrow> bt_mesh_rx_reset env s;
       s \<leftarrow> slots_loop (seg_tx_reset env) [0..<length (seg_txs s)] s;
       let s = s\<lparr>virtual_addrs := map (\<lambda>va. if vt_ref va \<noteq> 0 then va\<lparr>vt_ref := 0, vt_changed := True\<rparr> else va)
                   (virtual_addrs s)\<rparr>;
       Some (bt_mesh_store_label (bt_mesh_rpl_clear s)) }"

text \<open>The slots as the static initialisers leave them, with \<open>labels\<close> slots for virtual addresses.\<close>

definition unused_seg_tx :: seg_tx where
  "unused_seg_tx =
     \<lparr>st_sub = None, st_seg = replicate CONFIG_BT_MESH_TX_SEG_MAX None, st_seq_auth = 0, st_src = 0, st_dst = 0, st_len = 0,
      st_hdr = 0, st_xmit = 0, st_seg_n = 0, st_seg_o = 0, st_nack_count = 0, st_attempts = 0, st_ttl = 0, st_seg_pending = 0,
      st_blocked = False, st_ctl = False, st_aszmic = False, st_started = False, st_sending = False, st_friend_cred = False,
      st_cb = None, st_retransmit = None\<rparr>"

definition unused_seg_rx :: seg_rx where
  "unused_seg_rx =
     \<lparr>sr_sub = None, sr_seg = replicate CONFIG_BT_MESH_RX_SEG_MAX None, sr_seq_auth = 0, sr_src = 0, sr_dst = 0, sr_len = 0,
      sr_hdr = 0, sr_seg_n = 0, sr_ctl = False, sr_in_use = False, sr_obo = False, sr_ttl = 0, sr_block = 0, sr_last = 0,
      sr_ack = None\<rparr>"

definition unused_va :: bt_mesh_va where
  "unused_va = \<lparr>vt_ref = 0, vt_changed = False, vt_addr = 0, vt_uuid = replicate 16 0\<rparr>"

definition CONFIG_BT_MESH_TX_SEG_MSG_COUNT :: nat where "CONFIG_BT_MESH_TX_SEG_MSG_COUNT = 3"
definition CONFIG_BT_MESH_RX_SEG_MSG_COUNT :: nat where "CONFIG_BT_MESH_RX_SEG_MSG_COUNT = 3"

definition trans_boot :: "nat \<Rightarrow> nat \<Rightarrow> settings_store \<Rightarrow> trans_state" where
  "trans_boot labels n store =
     net_state.extend (net_boot n store)
       \<lparr>seg_txs = replicate CONFIG_BT_MESH_TX_SEG_MSG_COUNT unused_seg_tx,
        seg_rxs = replicate CONFIG_BT_MESH_RX_SEG_MSG_COUNT unused_seg_rx, segs_used = 0,
        virtual_addrs = replicate labels unused_va\<rparr>"

end
