(* ===== verification/Transport_Seg.thy ===== *)
theory Transport_Seg
  imports Transport
begin

text \<open>
  Segments: the octets that \<^verbatim>\<open>seg_tx_buf_build\<close> writes and \<^verbatim>\<open>trans_seg\<close> reads, the SeqAuth that a receiver computes
  from them, the pieces into which \<^verbatim>\<open>send_seg\<close> takes a message apart and from which \<^verbatim>\<open>seg_rx_assemble\<close> puts it
  together again, in whatever order they arrive.
\<close>

section \<open>Segment headers\<close>

lemma trans_masks:
  "(0x1fff :: u16) = mask 13" "(0x3f :: u16) = mask 6" "(0x03 :: u16) = mask 2" "(0x07 :: u8) = mask 3"
  "(0x1f :: u8) = mask 5"
  by (simp_all add: mask_eq_exp_minus_1)

definition seg_octets :: "seg_tx \<Rightarrow> nat \<Rightarrow> bytes" where
  "seg_octets tx k =
     (let seq_zero = seq_zero_of (st_seq_auth tx) in
      [st_hdr tx, push_bit 7 (of_bool (st_aszmic tx)) OR ucast (drop_bit 6 seq_zero),
       ucast (push_bit 2 (seq_zero AND 0x3f)) OR of_nat (k div 8), push_bit 5 (of_nat k AND 0x07) OR st_seg_n tx])"

lemma bit_of_nat_less:
  assumes "k < 2 ^ m" "m \<le> i"
  shows "\<not> bit (of_nat k :: 'a::len word) i"
proof -
  have "k < 2 ^ i" using assms by (meson less_le_trans one_le_numeral power_increasing)
  then have "\<not> bit k i" by (simp add: bit_iff_odd)
  then show ?thesis by (simp add: bit_of_nat_iff)
qed

lemma bit_of_nat_u8: "i < 8 \<Longrightarrow> bit (of_nat k :: u8) i \<longleftrightarrow> bit k i"
  by (simp add: bit_of_nat_iff)

lemma bit_u8_less:
  assumes "n < 2 ^ m" "m < 8" "m \<le> i"
  shows "\<not> bit (n :: u8) i"
proof -
  have 1: "take_bit m n = n" by (rule take_bit_word_id) (use assms in simp_all)
  have "\<not> bit (take_bit m n) i" using assms(3) by (simp add: bit_take_bit_iff)
  then show ?thesis unfolding 1 .
qed

lemma seg_fields_octets:
  assumes "k < 32" "st_seg_n tx < 32"
  shows "seg_fields (sys_get_be16 (drop 1 (seg_octets tx k))) (seg_octets tx k ! 3) =
     (seq_zero_of (st_seq_auth tx), of_nat k, st_seg_n tx)"
proof -
  define z where "z = seq_zero_of (st_seq_auth tx)"
  define v where "v = sys_get_be16 (drop 1 (seg_octets tx k))"
  define n where "n = seg_octets tx k ! 3"
  have z: "\<not> bit z i" if "13 \<le> i" for i
    using that by (simp add: z_def seq_zero_of_def TRANS_SEQ_ZERO_MASK_def trans_masks bit_simps)
  have kd: "\<not> bit (of_nat (k div 8) :: u8) i" if "2 \<le> i" for i
    by (rule bit_of_nat_less[OF _ that]) (use assms(1) in \<open>simp add: div_less_iff_less_mult\<close>)
  have k5: "\<not> bit (of_nat k :: u8) i" if "5 \<le> i" for i
    using bit_of_nat_less[of k 5 i] assms(1) that by simp
  have kb: "bit (k div 8) i = bit k (i + 3)" for i
    by (simp add: bit_iff_odd power_add div_mult2_eq[symmetric] mult.commute)
  have n5: "\<not> bit (st_seg_n tx) i" if "5 \<le> i" for i
    using bit_u8_less[of "st_seg_n tx" 5 i] assms(2) that by simp
  have v: "v = push_bit 8 (ucast (push_bit 7 (of_bool (st_aszmic tx)) OR ucast (drop_bit 6 z) :: u8))
      OR ucast (ucast (push_bit 2 (z AND mask 6)) OR of_nat (k div 8) :: u8)"
    by (simp add: v_def seg_octets_def sys_get_be16_def z_def Let_def trans_masks)
  have n: "n = push_bit 5 (of_nat k AND mask 3) OR st_seg_n tx"
    by (simp add: n_def seg_octets_def Let_def trans_masks)
  have 1: "drop_bit 2 v AND mask 13 = z"
  proof (rule bit_word_eqI)
    fix i :: nat
    consider "i < 6" | "6 \<le> i" "i < 13" | "13 \<le> i" by linarith
    then show "bit (drop_bit 2 v AND mask 13) i \<longleftrightarrow> bit z i"
      using z[of i] kd[of "i + 2"] by cases (auto simp: v bit_simps)
  qed
  have 2: "push_bit 3 (ucast (v AND mask 2)) OR drop_bit 5 n = (of_nat k :: u8)"
  proof (rule bit_word_eqI)
    fix i
    assume i: "i < LENGTH(8)"
    show "bit (push_bit 3 (ucast (v AND mask 2)) OR drop_bit 5 n :: u8) i \<longleftrightarrow> bit (of_nat k :: u8) i"
      using i k5[of i] n5[of "5 + i"] kb[of "i - 3"] 
      by (cases "i < 3"; cases "i < 5") (auto simp: v n bit_simps bit_of_nat_u8)
  qed
  have 3: "n AND mask 5 = st_seg_n tx"
  proof (rule bit_word_eqI)
    fix i
    show "bit (n AND mask 5) i \<longleftrightarrow> bit (st_seg_n tx) i"
      using n5[of i] by (cases "i < 5") (auto simp: n bit_simps)
  qed
  show ?thesis unfolding v_def[symmetric] n_def[symmetric] z_def[symmetric] seg_fields_def TRANS_SEQ_ZERO_MASK_def trans_masks
    using 1 2 3 by simp
qed

lemma ASZMIC_octets [simp]: "ASZMIC (seg_octets tx k @ d) \<longleftrightarrow> st_aszmic tx"
proof -
  let ?o = "push_bit 7 (of_bool (st_aszmic tx)) OR ucast (drop_bit 6 (seq_zero_of (st_seq_auth tx))) :: u8"
  have "bit ?o 7 \<longleftrightarrow> st_aszmic tx"
    by (simp add: seq_zero_of_def TRANS_SEQ_ZERO_MASK_def trans_masks bit_simps)
  moreover have "drop_bit 7 w AND 1 \<noteq> 0 \<longleftrightarrow> bit w 7" for w :: u8
    by (simp add: and_one_eq bit_iff_odd_drop_bit odd_iff_mod_2_eq_one)
  ultimately have "drop_bit 7 ?o AND 1 \<noteq> 0 \<longleftrightarrow> st_aszmic tx" by blast
  then show ?thesis by (simp only: ASZMIC_def seg_octets_def Let_def append_Cons nth_Cons_Suc nth_Cons_0 One_nat_def)
qed

text \<open>The number of the first segment is recovered from any of the following 8191.\<close>

lemma seq_zero_of_auth: "ucast (seq_zero_of (SEQ_AUTH iv sq)) = (take_bit 13 sq :: u32)"
  by (rule bit_word_eqI)
     (auto simp: seq_zero_of_def TRANS_SEQ_ZERO_MASK_def trans_masks SEQ_AUTH_def bit_simps)

lemma seg_seq0_eq:
  assumes "unat sq0 \<le> unat sq" "unat sq < unat sq0 + 8192"
  shows "seg_seq0 sq (seq_zero_of (SEQ_AUTH iv sq0)) = sq0"
proof -
  have "take_bit 13 (take_bit 14 sq - take_bit 13 sq0) = take_bit 13 (sq - sq0)"
  proof -
    have m: "x mod 4294967296 mod 8192 = x mod 8192" for x :: int by (rule mod_mod_cancel) simp
    have n: "uint sq mod 16384 mod 8192 = uint sq mod 8192" by (rule mod_mod_cancel) simp
    have "(uint sq mod 16384 - uint sq0 mod 8192) mod 8192 = (uint sq - uint sq0) mod 8192"
      using n by (metis mod_diff_eq mod_mod_trivial)
    then show ?thesis
      by (simp only: word_uint_eq_iff unsigned_take_bit_eq uint_word_ariths take_bit_eq_mod uint_mod_distrib)
         (simp add: m)
  qed
  also have "\<dots> = sq - sq0"
  proof (rule take_bit_word_id)
    have "unat (sq - sq0) = unat sq - unat sq0" using assms(1) by (simp add: unat_sub word_le_nat_alt)
    then show "sq - sq0 < 2 ^ 13" using assms(2) by (simp add: word_less_nat_alt)
  qed simp
  finally show ?thesis by (simp add: seg_seq0_def seq_zero_of_auth take_bit_eq_mask[symmetric])
qed

lemma nb_add_ex:
  assumes "nb_invar b" "length bs \<le> net_buf_simple_tailroom b"
  obtains b' where "net_buf_simple_add_mem b bs = Some b'" "nb_invar b'" "nb_data b' = nb_data b @ bs"
    "net_buf_simple_headroom b' = net_buf_simple_headroom b" "net_buf_simple_tailroom b' + length bs = net_buf_simple_tailroom b"
  using nb.add_Some[OF assms(2)] nb.add_content[OF assms(1)] by (metis (no_types))

lemma seg_tx_buf_build_data:
  assumes "nb_invar buf" and k: "k < length (st_seg tx)" "st_seg tx ! k = Some blk"
    and n: "n = min (seg_len (st_ctl tx)) (unat (st_len tx) - seg_len (st_ctl tx) * k)" "n \<le> length blk"
    and room: "4 + n \<le> net_buf_simple_tailroom buf"
  shows "\<exists>b. seg_tx_buf_build tx k buf = Some b \<and> nb_invar b \<and> nb_data b = nb_data buf @ seg_octets tx k @ take n blk
    \<and> net_buf_simple_headroom b = net_buf_simple_headroom buf \<and> net_buf_simple_tailroom b + 4 + n = net_buf_simple_tailroom buf"
proof -
  obtain o0 o1 o2 o3 where o: "seg_octets tx k = [o0, o1, o2, o3]" by (simp add: seg_octets_def Let_def)
  obtain b1 where b1: "net_buf_simple_add_mem buf [o0] = Some b1" "nb_invar b1" "nb_data b1 = nb_data buf @ [o0]"
    "net_buf_simple_headroom b1 = net_buf_simple_headroom buf" "net_buf_simple_tailroom b1 + 1 = net_buf_simple_tailroom buf"
    by (rule nb_add_ex[OF assms(1), of "[o0]"]) (use room in simp_all)
  obtain b2 where b2: "net_buf_simple_add_mem b1 [o1] = Some b2" "nb_invar b2" "nb_data b2 = nb_data b1 @ [o1]"
    "net_buf_simple_headroom b2 = net_buf_simple_headroom b1" "net_buf_simple_tailroom b2 + 1 = net_buf_simple_tailroom b1"
    by (rule nb_add_ex[OF b1(2), of "[o1]"]) (use room b1(5) in simp_all)
  obtain b3 where b3: "net_buf_simple_add_mem b2 [o2] = Some b3" "nb_invar b3" "nb_data b3 = nb_data b2 @ [o2]"
    "net_buf_simple_headroom b3 = net_buf_simple_headroom b2" "net_buf_simple_tailroom b3 + 1 = net_buf_simple_tailroom b2"
    by (rule nb_add_ex[OF b2(2), of "[o2]"]) (use room b1(5) b2(5) in simp_all)
  obtain b4 where b4: "net_buf_simple_add_mem b3 [o3] = Some b4" "nb_invar b4" "nb_data b4 = nb_data b3 @ [o3]"
    "net_buf_simple_headroom b4 = net_buf_simple_headroom b3" "net_buf_simple_tailroom b4 + 1 = net_buf_simple_tailroom b3"
    by (rule nb_add_ex[OF b3(2), of "[o3]"]) (use room b1(5) b2(5) b3(5) in simp_all)
  obtain b5 where b5: "net_buf_simple_add_mem b4 (take n blk) = Some b5" "nb_invar b5" "nb_data b5 = nb_data b4 @ take n blk"
    "net_buf_simple_headroom b5 = net_buf_simple_headroom b4" "net_buf_simple_tailroom b5 + length (take n blk) = net_buf_simple_tailroom b4"
    by (rule nb_add_ex[OF b4(2), of "take n blk"]) (use room n b1(5) b2(5) b3(5) b4(5) in simp_all)
  have "seg_tx_buf_build tx k buf = Some b5"
    using o k n(2) b1(1) b2(1) b3(1) b4(1) b5(1)
    by (simp add: seg_tx_buf_build_def seg_octets_def Let_def net_buf_simple_add_u8_def n(1)[symmetric] not_less)
  then show ?thesis using b1(3-5) b2(3-5) b3(3-5) b4(3-5) b5(2-5) o n(2) by auto
qed

section \<open>Pieces of a message\<close>

definition seg_chunk :: "bool \<Rightarrow> bytes \<Rightarrow> nat \<Rightarrow> bytes" where
  "seg_chunk ctl sdu k = take (seg_len ctl) (drop (k * seg_len ctl) sdu)"

definition seg_last :: "bool \<Rightarrow> bytes \<Rightarrow> nat" where
  "seg_last ctl sdu = (length sdu - 1) div seg_len ctl"

lemma length_seg_chunk: "length (seg_chunk ctl sdu k) = min (seg_len ctl) (length sdu - k * seg_len ctl)"
  by (simp add: seg_chunk_def)

lemma seg_chunk_drop: "drop (k * seg_len ctl) sdu = seg_chunk ctl sdu k @ drop (Suc k * seg_len ctl) sdu"
  by (simp add: seg_chunk_def append_take_drop_id[symmetric] add.commute flip: drop_drop)

lemma seg_last_covers: "length sdu \<le> Suc (seg_last ctl sdu) * seg_len ctl"
proof -
  have "length sdu - 1 < Suc ((length sdu - 1) div seg_len ctl) * seg_len ctl"
    using dividend_less_div_times[of "seg_len ctl" "length sdu - 1"] by simp
  then show ?thesis by (simp add: seg_last_def)
qed

lemma seg_chunk_full: "k < seg_last ctl sdu \<Longrightarrow> length (seg_chunk ctl sdu k) = seg_len ctl"
proof -
  assume "k < seg_last ctl sdu"
  then have "Suc k * seg_len ctl \<le> length sdu - 1"
    by (metis Suc_leI div_times_less_eq_dividend le_trans mult_le_mono1 seg_last_def)
  then show ?thesis by (simp add: length_seg_chunk min_def)
qed

lemma seg_chunk_last:
  assumes "sdu \<noteq> []"
  shows "seg_last ctl sdu * seg_len ctl + length (seg_chunk ctl sdu (seg_last ctl sdu)) = length sdu"
proof -
  have "seg_last ctl sdu * seg_len ctl \<le> length sdu"
    using div_times_less_eq_dividend[of "length sdu - 1" "seg_len ctl"] by (simp add: seg_last_def del: div_times_less_eq_dividend)
  then show ?thesis using seg_last_covers[of sdu ctl] by (auto simp: length_seg_chunk min_def)
qed

lemma bit_BLOCK_COMPLETE: "k < 32 \<Longrightarrow> n < 32 \<Longrightarrow> bit (BLOCK_COMPLETE n) k \<longleftrightarrow> k \<le> unat n"
proof -
  assume "k < 32" "n < 32"
  have "BLOCK_COMPLETE n = ucast (mask (unat n + 1) :: u64)"
    by (simp add: BLOCK_COMPLETE_def mask_eq_exp_minus_1 push_bit_eq_mult)
  then show ?thesis using \<open>k < 32\<close> by (auto simp: bit_simps)
qed

section \<open>Reassembly\<close>

text \<open>The slot \<open>rx\<close> has the pieces \<open>K\<close> of \<open>sdu\<close>.\<close>

definition rx_holds :: "bool \<Rightarrow> bytes \<Rightarrow> nat set \<Rightarrow> seg_rx \<Rightarrow> bool" where
  "rx_holds ctl sdu K rx \<longleftrightarrow>
     sdu \<noteq> [] \<and> seg_last ctl sdu < CONFIG_BT_MESH_RX_SEG_MAX \<and>
     sr_ctl rx = ctl \<and> length (sr_seg rx) = CONFIG_BT_MESH_RX_SEG_MAX \<and> unat (sr_seg_n rx) = seg_last ctl sdu \<and>
     K \<subseteq> {..seg_last ctl sdu} \<and> (\<forall>k < 32. bit (sr_block rx) k \<longleftrightarrow> k \<in> K) \<and>
     (\<forall>k \<in> K. sr_seg rx ! k = Some (seg_chunk ctl sdu k)) \<and>
     (seg_last ctl sdu \<in> K \<longrightarrow> unat (sr_len rx) = length sdu)"

lemma rx_holds_complete:
  assumes "rx_holds ctl sdu K rx"
  shows "sr_block rx = BLOCK_COMPLETE (sr_seg_n rx) \<longleftrightarrow> K = {..seg_last ctl sdu}"
proof -
  from assms have n: "unat (sr_seg_n rx) = seg_last ctl sdu" "seg_last ctl sdu < 3" and K: "K \<subseteq> {..seg_last ctl sdu}"
    and b: "\<forall>k < 32. bit (sr_block rx) k \<longleftrightarrow> k \<in> K"
    by (auto simp: rx_holds_def CONFIG_BT_MESH_RX_SEG_MAX_def)
  have c: "bit (BLOCK_COMPLETE (sr_seg_n rx)) k \<longleftrightarrow> k \<le> seg_last ctl sdu" if "k < 32" for k
    using bit_BLOCK_COMPLETE[OF that, of "sr_seg_n rx"] n by (simp add: word_less_nat_alt)
  have "sr_block rx = BLOCK_COMPLETE (sr_seg_n rx) \<longleftrightarrow> (\<forall>k < 32. k \<in> K \<longleftrightarrow> k \<le> seg_last ctl sdu)"
    using b c by (auto intro!: bit_word_eqI)
  also have "\<dots> \<longleftrightarrow> K = {..seg_last ctl sdu}" using K n(2) by auto
  finally show ?thesis .
qed

lemma seg_rx_assemble_loop_data:
  assumes "rx_holds ctl sdu {..seg_last ctl sdu} rx"
  shows "k + n = Suc (seg_last ctl sdu) \<Longrightarrow> nb_invar b \<Longrightarrow> length (drop (k * seg_len ctl) sdu) \<le> net_buf_simple_tailroom b \<Longrightarrow>
    \<exists>b'. seg_rx_assemble_loop n k rx b = Some b' \<and> nb_invar b' \<and> nb_data b' = nb_data b @ drop (k * seg_len ctl) sdu
      \<and> nb_off b' = nb_off b"
proof (induction n arbitrary: k b)
  case 0
  then have "length sdu \<le> k * seg_len ctl" using seg_last_covers[of sdu ctl] by simp
  with 0 show ?case by simp
next
  case (Suc n)
  from assms have rx: "sr_ctl rx = ctl" "length (sr_seg rx) = 3" "seg_last ctl sdu < 3" "unat (sr_len rx) = length sdu"
    "k \<le> seg_last ctl sdu \<Longrightarrow> sr_seg rx ! k = Some (seg_chunk ctl sdu k)"
    by (auto simp: rx_holds_def CONFIG_BT_MESH_RX_SEG_MAX_def)
  have k: "k \<le> seg_last ctl sdu" "k + n = seg_last ctl sdu" using Suc.prems(1) by simp_all
  have len: "min (seg_len ctl) (length sdu - k * seg_len ctl) = length (seg_chunk ctl sdu k)" by (simp add: length_seg_chunk)
  have d: "drop (k * seg_len ctl) sdu = seg_chunk ctl sdu k @ drop (Suc k * seg_len ctl) sdu" by (rule seg_chunk_drop)
  have r: "length (seg_chunk ctl sdu k) + length (drop (Suc k * seg_len ctl) sdu) \<le> net_buf_simple_tailroom b"
    using Suc.prems(3) unfolding d length_append .
  obtain b1 where b1: "net_buf_simple_add_mem b (seg_chunk ctl sdu k) = Some b1" "nb_invar b1"
    "nb_data b1 = nb_data b @ seg_chunk ctl sdu k" "net_buf_simple_headroom b1 = net_buf_simple_headroom b"
    "net_buf_simple_tailroom b1 + length (seg_chunk ctl sdu k) = net_buf_simple_tailroom b"
    by (rule nb_add_ex[OF Suc.prems(2), of "seg_chunk ctl sdu k"]) (use r in simp_all)
  have "length (drop (Suc k * seg_len ctl) sdu) \<le> net_buf_simple_tailroom b1" using r b1(5) by linarith
  from Suc.IH[OF _ b1(2) this] Suc.prems(1) obtain b' where
    b': "seg_rx_assemble_loop n (Suc k) rx b1 = Some b'" "nb_invar b'"
      "nb_data b' = nb_data b1 @ drop (Suc k * seg_len ctl) sdu" "nb_off b' = nb_off b1" by auto
  have "seg_rx_assemble_loop (Suc n) k rx b = Some b'"
    using rx k b1(1) b'(1) len by (simp add: Let_def)
  moreover have "nb_data b' = nb_data b @ drop (k * seg_len ctl) sdu" unfolding d b'(3) b1(3) by simp
  moreover have "nb_off b' = nb_off b" using b'(4) b1(4) by (simp add: net_buf_simple_headroom_def)
  ultimately show ?case using b'(2) by blast
qed

lemma seg_rx_assemble_data:
  assumes "rx_holds ctl sdu {..seg_last ctl sdu} rx" "nb_invar b" "length sdu \<le> nb_size b"
  shows "\<exists>b'. seg_rx_assemble rx b aszmic = Some b' \<and> nb_off b' = 0 \<and> take (length sdu) (nb_store b') = sdu \<and>
    nb_len b' = length sdu - (if ctl then 0 else APP_MIC_LEN aszmic)"
proof -
  let ?r = "net_buf_simple_reset b"
  have r: "nb_invar ?r" "nb_data ?r = []" "nb_off ?r = 0" "net_buf_simple_tailroom ?r = nb_size b"
    using assms(2) by (simp_all add: net_buf_simple_reset_def nb_basic_defs)
  have n: "unat (sr_seg_n rx) = seg_last ctl sdu" "sr_ctl rx = ctl" using assms(1) by (auto simp: rx_holds_def)
  from seg_rx_assemble_loop_data[OF assms(1), of 0 "seg_last ctl sdu + 1" ?r] r assms(3)
  obtain b' where b': "seg_rx_assemble_loop (seg_last ctl sdu + 1) 0 rx ?r = Some b'" "nb_invar b'" "nb_data b' = sdu"
    "nb_off b' = 0" by auto
  have "nb_len b' = length sdu" using length_nb_data[OF b'(2)] b'(3) by simp
  moreover from this have "take (length sdu) (nb_store b') = sdu" using b'(3,4) by (simp add: nb_data_def)
  ultimately show ?thesis using b'(1,4) n by (simp add: seg_rx_assemble_def del: seg_rx_assemble_loop.simps)
qed

text \<open>What \<^verbatim>\<open>found_rx\<close> does to the slot before the segment is stored.\<close>

definition rx_touch :: "'a trans_state_scheme trans_env \<Rightarrow> nat \<Rightarrow> u8 \<Rightarrow> u8 \<Rightarrow> nat \<Rightarrow> 'a trans_state_scheme \<Rightarrow> 'a trans_state_scheme" where
  "rx_touch env i seg_o seg_n len s =
     (let sl = seg_len (sr_ctl (seg_rxs s ! i));
          s = (if seg_o = seg_n then upd_rx i (\<lambda>rx. rx\<lparr>sr_len := of_nat (unat seg_n * sl + len)\<rparr>) s else s) in
      upd_rx i (\<lambda>rx. rx\<lparr>sr_last := te_uptime env s,
                  sr_ack := (case sr_ack rx of Some ms \<Rightarrow> if ms = 0 then Some (ack_timeout rx s) else Some ms
                             | None \<Rightarrow> Some (ack_timeout rx s))\<rparr>) s)"

lemma rx_touch_slot:
  assumes "i < length (seg_rxs s)"
  shows "length (seg_rxs (rx_touch env i seg_o seg_n len s)) = length (seg_rxs s)"
    and "segs_used (rx_touch env i seg_o seg_n len s) = segs_used s"
    and "sr_seg (seg_rxs (rx_touch env i seg_o seg_n len s) ! i) = sr_seg (seg_rxs s ! i)"
    and "sr_block (seg_rxs (rx_touch env i seg_o seg_n len s) ! i) = sr_block (seg_rxs s ! i)"
    and "sr_ctl (seg_rxs (rx_touch env i seg_o seg_n len s) ! i) = sr_ctl (seg_rxs s ! i)"
    and "sr_seg_n (seg_rxs (rx_touch env i seg_o seg_n len s) ! i) = sr_seg_n (seg_rxs s ! i)"
    and "sr_len (seg_rxs (rx_touch env i seg_o seg_n len s) ! i) =
      (if seg_o = seg_n then of_nat (unat seg_n * seg_len (sr_ctl (seg_rxs s ! i)) + len) else sr_len (seg_rxs s ! i))"
  using assms by (simp_all add: rx_touch_def upd_rx_def Let_def)

definition rx_store :: "nat \<Rightarrow> nat \<Rightarrow> bytes \<Rightarrow> 'a trans_state_scheme \<Rightarrow> 'a trans_state_scheme" where
  "rx_store i k blk s =
     upd_rx i (\<lambda>rx. rx\<lparr>sr_seg := (sr_seg rx)[k := Some blk], sr_block := sr_block rx OR push_bit k 1\<rparr>)
       (s\<lparr>segs_used := segs_used s + 1\<rparr>)"

lemma rx_holds_piece:
  assumes h: "rx_holds ctl sdu K rx" and k: "k \<le> seg_last ctl sdu" and len: "length sdu \<le> BT_MESH_RX_SDU_MAX"
  shows "unat (of_nat k :: u8) = k" "(of_nat k = sr_seg_n rx) \<longleftrightarrow> k = seg_last ctl sdu" "k < length (sr_seg rx)"
    "length (seg_chunk ctl sdu k) \<le> BT_MESH_APP_SEG_SDU_MAX"
    "k \<noteq> seg_last ctl sdu \<Longrightarrow> length (seg_chunk ctl sdu k) = seg_len (sr_ctl rx)"
    "unat (sr_seg_n rx) * seg_len (sr_ctl rx) + length (seg_chunk ctl sdu (seg_last ctl sdu)) = length sdu"
    "unat (of_nat (length sdu) :: u16) = length sdu"
proof -
  from h have rx: "sdu \<noteq> []" "seg_last ctl sdu < 3" "sr_ctl rx = ctl" "unat (sr_seg_n rx) = seg_last ctl sdu"
    "length (sr_seg rx) = 3"
    by (auto simp: rx_holds_def CONFIG_BT_MESH_RX_SEG_MAX_def)
  show 1: "unat (of_nat k :: u8) = k" using k rx(2) by (simp add: unat_of_nat)
  then show "(of_nat k = sr_seg_n rx) \<longleftrightarrow> k = seg_last ctl sdu" using rx(4) by (metis word_unat_eq_iff)
  show "k < length (sr_seg rx)" using k rx by simp
  show "length (seg_chunk ctl sdu k) \<le> BT_MESH_APP_SEG_SDU_MAX"
    by (simp add: length_seg_chunk seg_len_def BT_MESH_APP_SEG_SDU_MAX_def BT_MESH_CTL_SEG_SDU_MAX_def min_le_iff_disj)
  show "length (seg_chunk ctl sdu k) = seg_len (sr_ctl rx)" if "k \<noteq> seg_last ctl sdu"
    using seg_chunk_full[of k ctl sdu] k that rx(3) by simp
  show "unat (sr_seg_n rx) * seg_len (sr_ctl rx) + length (seg_chunk ctl sdu (seg_last ctl sdu)) = length sdu"
    using seg_chunk_last[OF rx(1), of ctl] rx(3,4) by simp
  show "unat (of_nat (length sdu) :: u16) = length sdu"
    using len by (simp add: unat_of_nat BT_MESH_RX_SDU_MAX_def CONFIG_BT_MESH_RX_SEG_MAX_def BT_MESH_APP_SEG_SDU_MAX_def)
qed

text \<open>A segment of the right length is stored if a block of the slab is left.\<close>

lemma rx_store_holds:
  assumes i: "i < length (seg_rxs s)" and h: "rx_holds ctl sdu K (seg_rxs s ! i)" and k: "k \<le> seg_last ctl sdu"
    and len: "length sdu \<le> BT_MESH_RX_SDU_MAX" and n: "n = length (seg_chunk ctl sdu k)"
  shows "rx_holds ctl sdu (insert k K)
    (seg_rxs (rx_store i k (seg_chunk ctl sdu k) (rx_touch env i (of_nat k) (sr_seg_n (seg_rxs s ! i)) n s)) ! i)"
proof -
  let ?rx = "seg_rxs s ! i"
  note p = rx_holds_piece[OF h k len]
  have len': "sr_len (seg_rxs (rx_touch env i (of_nat k) (sr_seg_n ?rx) n s) ! i) =
    (if k = seg_last ctl sdu then of_nat (length sdu) else sr_len ?rx)"
    using p(2,6) n by (auto simp: rx_touch_slot[OF i])
  have k32: "k < 32" using h k by (auto simp: rx_holds_def CONFIG_BT_MESH_RX_SEG_MAX_def)
  have b: "bit (push_bit k 1 :: u32) j \<longleftrightarrow> j = k" if "j < 32" for j
    using k32 that by (auto simp: bit_exp_iff possible_bit_def)
  show ?thesis using h k b len' p(7)
    by (auto simp: rx_holds_def rx_store_def upd_rx_def rx_touch_slot[OF i] i bit_or_iff nth_list_update[OF p(3)])
qed

lemma rx_touch_holds:
  assumes i: "i < length (seg_rxs s)" and h: "rx_holds ctl sdu K (seg_rxs s ! i)" and k: "k \<le> seg_last ctl sdu" "k \<notin> K"
    and len: "length sdu \<le> BT_MESH_RX_SDU_MAX"
  shows "rx_holds ctl sdu K (seg_rxs (upd_rx i (\<lambda>rx. rx\<lparr>sr_seg := (sr_seg rx)[k := None]\<rparr>)
     (rx_touch env i (of_nat k) (sr_seg_n (seg_rxs s ! i)) n s)) ! i)"
proof -
  note p = rx_holds_piece[OF h k(1) len]
  have "(of_nat k = sr_seg_n (seg_rxs s ! i)) \<longrightarrow> seg_last ctl sdu \<notin> K" using p(2) k(2) by auto
  then show ?thesis using h k(2)
    by (auto simp: rx_holds_def upd_rx_def rx_touch_slot[OF i] i nth_list_update[OF p(3)])
qed

lemma trans_seg_found_accept:
  assumes i: "i < length (seg_rxs s)" and new: "\<not> bit (sr_block (seg_rxs s ! i)) (unat seg_o)"
    and len: "seg_o = seg_n \<or> nb_len buf = seg_len (sr_ctl (seg_rxs s ! i))"
    and fits: "seg_o = seg_n \<longrightarrow> unat (of_nat (unat seg_n * seg_len (sr_ctl (seg_rxs s ! i)) + nb_len buf) :: u16) \<le> BT_MESH_RX_SDU_MAX"
    and k: "unat seg_o < length (sr_seg (seg_rxs s ! i))"
  shows "trans_seg_found env d buf net_rx t rssi rpl seg_o seg_n i s =
    (let s1 = rx_touch env i seg_o seg_n (nb_len buf) s; s2 = rx_store i (unat seg_o) (nb_data buf) s1 in
     if segs_used s \<ge> CONFIG_BT_MESH_SEG_BUFS
     then Some (Some ENOBUFS, net_rx, t, upd_rx i (\<lambda>rx. rx\<lparr>sr_seg := (sr_seg rx)[unat seg_o := None]\<rparr>) s1)
     else if nb_len buf > BT_MESH_APP_SEG_SDU_MAX then None
     else if sr_block (seg_rxs s2 ! i) \<noteq> BLOCK_COMPLETE seg_n
     then Some (None, net_rx, t\<lparr>to_pdu_type := BT_MESH_FRIEND_PDU_PARTIAL\<rparr>, s2)
     else trans_seg_complete env d net_rx t rssi rpl i s2)"
proof -
  define s0 where "s0 = (if seg_o = seg_n then upd_rx i (\<lambda>rx. rx\<lparr>sr_len := of_nat (unat seg_n * seg_len (sr_ctl (seg_rxs s ! i)) + nb_len buf)\<rparr>) s else s)"
  define s1 where "s1 = rx_touch env i seg_o seg_n (nb_len buf) s"
  have s1': "s1 = upd_rx i (\<lambda>rx. rx\<lparr>sr_last := te_uptime env s0,
                  sr_ack := (case sr_ack rx of Some ms \<Rightarrow> if ms = 0 then Some (ack_timeout rx s0) else Some ms
                             | None \<Rightarrow> Some (ack_timeout rx s0))\<rparr>) s0"
    unfolding s1_def rx_touch_def s0_def Let_def by (rule refl)
  have a: "segs_alloc s1 = (if segs_used s \<ge> CONFIG_BT_MESH_SEG_BUFS then None else Some (s1\<lparr>segs_used := segs_used s1 + 1\<rparr>))"
    by (simp add: segs_alloc_def s1_def rx_touch_slot[OF i])
  have l: "seg_o = seg_n \<longrightarrow> \<not> unat (sr_len (seg_rxs s0 ! i)) > BT_MESH_RX_SDU_MAX"
    using fits i by (auto simp: s0_def upd_rx_def)
  have k': "\<not> unat seg_o \<ge> length (sr_seg (seg_rxs s1 ! i))" using k by (simp add: s1_def rx_touch_slot[OF i])
  have len': "\<not> (seg_o \<noteq> seg_n \<and> nb_len buf \<noteq> seg_len (sr_ctl (seg_rxs s ! i)))" using len by auto
  have l': "\<not> (seg_o = seg_n \<and> unat (sr_len (seg_rxs s0 ! i)) > BT_MESH_RX_SDU_MAX)" using l by auto
  show ?thesis
    unfolding trans_seg_found_def Let_def s0_def[symmetric] s1'[symmetric] s1_def[symmetric]
      if_not_P[OF new] if_not_P[OF len'] if_not_P[OF l'] if_not_P[OF k'] a rx_store_def
    by simp
qed

lemma trans_seg_found_eq:
  assumes i: "i < length (seg_rxs s)" and h: "rx_holds ctl sdu K (seg_rxs s ! i)" and k: "k \<le> seg_last ctl sdu"
    and b: "nb_invar buf" "nb_data buf = seg_chunk ctl sdu k" and n: "seg_n = sr_seg_n (seg_rxs s ! i)"
    and len: "length sdu \<le> BT_MESH_RX_SDU_MAX" and s1: "s1 = rx_touch env i (of_nat k) seg_n (nb_len buf) s"
  shows "trans_seg_found env d buf net_rx t rssi rpl (of_nat k) seg_n i s =
    (if k \<in> K then Some (Some EALREADY, net_rx, t, s)
     else if segs_used s \<ge> CONFIG_BT_MESH_SEG_BUFS
     then Some (Some ENOBUFS, net_rx, t, upd_rx i (\<lambda>rx. rx\<lparr>sr_seg := (sr_seg rx)[k := None]\<rparr>) s1)
     else if insert k K = {..seg_last ctl sdu}
     then trans_seg_complete env d net_rx t rssi rpl i (rx_store i k (seg_chunk ctl sdu k) s1)
     else Some (None, net_rx, t\<lparr>to_pdu_type := BT_MESH_FRIEND_PDU_PARTIAL\<rparr>, rx_store i k (seg_chunk ctl sdu k) s1))"
proof -
  note p = rx_holds_piece[OF h k len]
  have l: "nb_len buf = length (seg_chunk ctl sdu k)" using length_nb_data[OF b(1)] b(2) by simp
  have k32: "k < 32" using h k by (auto simp: rx_holds_def CONFIG_BT_MESH_RX_SEG_MAX_def)
  have bk: "bit (sr_block (seg_rxs s ! i)) k \<longleftrightarrow> k \<in> K" using h k32 by (auto simp: rx_holds_def)
  let ?s2 = "rx_store i k (seg_chunk ctl sdu k) s1"
  have h2: "rx_holds ctl sdu (insert k K) (seg_rxs ?s2 ! i)"
    using rx_store_holds[OF i h k len l, of env] s1 n by simp
  have n2: "sr_seg_n (seg_rxs ?s2 ! i) = seg_n" using i n by (simp add: s1 rx_store_def upd_rx_def rx_touch_slot[OF i])
  have c: "sr_block (seg_rxs ?s2 ! i) = BLOCK_COMPLETE seg_n \<longleftrightarrow> insert k K = {..seg_last ctl sdu}"
    using rx_holds_complete[OF h2] n2 by simp
  show ?thesis
  proof (cases "k \<in> K")
    case True
    then show ?thesis using bk p(1) by (simp add: trans_seg_found_def Let_def)
  next
    case False
    have "of_nat k = seg_n \<longrightarrow> unat (of_nat (unat seg_n * seg_len (sr_ctl (seg_rxs s ! i)) + nb_len buf) :: u16) \<le> BT_MESH_RX_SDU_MAX"
      using p(2,6,7) l n len by (auto simp del: of_nat_add of_nat_mult)
    moreover have "of_nat k = seg_n \<or> nb_len buf = seg_len (sr_ctl (seg_rxs s ! i))" using p(2,5) l n by auto
    ultimately have "trans_seg_found env d buf net_rx t rssi rpl (of_nat k) seg_n i s =
      (if segs_used s \<ge> CONFIG_BT_MESH_SEG_BUFS
       then Some (Some ENOBUFS, net_rx, t, upd_rx i (\<lambda>rx. rx\<lparr>sr_seg := (sr_seg rx)[k := None]\<rparr>) s1)
       else if nb_len buf > BT_MESH_APP_SEG_SDU_MAX then None
       else if sr_block (seg_rxs ?s2 ! i) \<noteq> BLOCK_COMPLETE seg_n
       then Some (None, net_rx, t\<lparr>to_pdu_type := BT_MESH_FRIEND_PDU_PARTIAL\<rparr>, ?s2)
       else trans_seg_complete env d net_rx t rssi rpl i ?s2)"
      using trans_seg_found_accept[OF i, of "of_nat k" seg_n buf env d net_rx t rssi rpl] bk False p(1,3) s1 b(2)
      by (simp add: Let_def)
    then show ?thesis using False p(4) l c by simp
  qed
qed

section \<open>Sessions\<close>

text \<open>
  \<open>tx\<close> is the slot of the sender and \<open>sdu\<close> its message; \<open>seg_sends\<close> says that they belong together and that the
  message is not too long for the receiver. \<open>seg_arrives\<close>: segment \<open>k\<close> of it comes in, in a PDU that the network
  layer has decrypted with the sequence number of \<open>net_rx\<close>.
\<close>

definition seg_sends :: "seg_tx \<Rightarrow> bytes \<Rightarrow> u32 \<Rightarrow> u32 \<Rightarrow> bool" where
  "seg_sends tx sdu iv sq0 \<longleftrightarrow>
     sdu \<noteq> [] \<and> seg_last (st_ctl tx) sdu < CONFIG_BT_MESH_RX_SEG_MAX \<and>
     st_seg_n tx = of_nat (seg_last (st_ctl tx) sdu) \<and> st_seq_auth tx = SEQ_AUTH iv sq0"

definition seg_arrives ::
    "seg_tx \<Rightarrow> bytes \<Rightarrow> u32 \<Rightarrow> u32 \<Rightarrow> nat \<Rightarrow> bt_mesh_net_rx \<Rightarrow> net_buf_simple \<Rightarrow> 'a trans_state_scheme \<Rightarrow> bool" where
  "seg_arrives tx sdu iv sq0 k net_rx buf s \<longleftrightarrow>
     k \<le> seg_last (st_ctl tx) sdu \<and> nb_invar buf \<and> nb_data buf = seg_octets tx k @ seg_chunk (st_ctl tx) sdu k \<and>
     ctx_addr (rx_ctx net_rx) = st_src tx \<and> ctx_recv_dst (rx_ctx net_rx) = st_dst tx \<and> rx_ctl net_rx = st_ctl tx \<and>
     BT_MESH_NET_IVI_RX net_rx s = iv \<and> unat sq0 \<le> unat (rx_seq net_rx) \<and> unat (rx_seq net_rx) < unat sq0 + 8192 \<and>
     \<not> fst (bt_mesh_rpl_check net_rx True s)"

definition rx_other :: "seg_tx \<Rightarrow> seg_rx \<Rightarrow> bool" where
  "rx_other tx rx \<longleftrightarrow>
     sr_src rx \<noteq> st_src tx \<or> sr_dst rx \<noteq> st_dst tx \<or> (sr_seq_auth rx < st_seq_auth tx \<and> \<not> sr_in_use rx)"

text \<open>The slot \<open>i\<close> is that of the message, and has the pieces \<open>K\<close>.\<close>

definition rx_session :: "seg_tx \<Rightarrow> bytes \<Rightarrow> nat set \<Rightarrow> nat \<Rightarrow> 'a trans_state_scheme \<Rightarrow> bool" where
  "rx_session tx sdu K i s \<longleftrightarrow>
     i < length (seg_rxs s) \<and> rx_holds (st_ctl tx) sdu K (seg_rxs s ! i) \<and> sr_in_use (seg_rxs s ! i) \<and>
     sr_seq_auth (seg_rxs s ! i) = st_seq_auth tx \<and> sr_hdr (seg_rxs s ! i) = st_hdr tx \<and>
     sr_src (seg_rxs s ! i) = st_src tx \<and> sr_dst (seg_rxs s ! i) = st_dst tx \<and> (\<forall>j < i. rx_other tx (seg_rxs s ! j))"

text \<open>Nothing of the message has come in yet, and there is room for it.\<close>

definition rx_idle ::
    "'a trans_state_scheme trans_env \<Rightarrow> seg_tx \<Rightarrow> bt_mesh_net_rx \<Rightarrow> 'a trans_state_scheme \<Rightarrow> bool" where
  "rx_idle env tx net_rx s \<longleftrightarrow>
     list_all (rx_other tx) (seg_rxs s) \<and> segs_used s < CONFIG_BT_MESH_SEG_BUFS \<and>
     (\<exists>rx \<in> set (seg_rxs s). \<not> sr_in_use rx) \<and>
     list_all (\<lambda>rx. length (sr_seg rx) = CONFIG_BT_MESH_RX_SEG_MAX) (seg_rxs s) \<and>
     (te_friend env \<and> rx_friend_match net_rx \<longrightarrow> rx_local_match net_rx)"

lemma seg_rx_scan_found:
  assumes "i < length xs" "\<forall>j < i. rx_other tx (xs ! j)" "sr_src (xs ! i) = st_src tx" "sr_dst (xs ! i) = st_dst tx"
    "sr_seq_auth (xs ! i) = st_seq_auth tx" "ctx_addr (rx_ctx net_rx) = st_src tx" "ctx_recv_dst (rx_ctx net_rx) = st_dst tx"
  shows "seg_rx_scan net_rx (st_seq_auth tx) xs n = Rx_Found (n + i)"
  using assms
proof (induction xs arbitrary: i n)
  case (Cons x xs)
  show ?case
  proof (cases i)
    case 0
    then show ?thesis using Cons.prems by simp
  next
    case (Suc j)
    from Cons.prems(2) Suc have "rx_other tx x" by force
    moreover have "\<forall>j' < j. rx_other tx (xs ! j')" using Cons.prems(2) Suc by force
    ultimately show ?thesis using Cons.IH[of j "Suc n"] Cons.prems Suc by (auto simp: rx_other_def)
  qed
qed simp

lemma seg_rx_scan_none:
  assumes "list_all (rx_other tx) xs" "ctx_addr (rx_ctx net_rx) = st_src tx" "ctx_recv_dst (rx_ctx net_rx) = st_dst tx"
  shows "seg_rx_scan net_rx (st_seq_auth tx) xs n = Rx_None"
  using assms by (induction xs arbitrary: n) (auto simp: rx_other_def)

lemma seg_chunk_nonempty: "sdu \<noteq> [] \<Longrightarrow> k \<le> seg_last ctl sdu \<Longrightarrow> seg_chunk ctl sdu k \<noteq> []"
proof -
  assume s: "sdu \<noteq> []" and k: "k \<le> seg_last ctl sdu"
  have "k * seg_len ctl \<le> length sdu - 1"
    using k div_times_less_eq_dividend[of "length sdu - 1" "seg_len ctl"] by (metis le_trans mult_le_mono1 seg_last_def)
  also have "\<dots> < length sdu" using s by (cases sdu) simp_all
  finally show ?thesis by (simp add: seg_chunk_def)
qed

text \<open>The first steps of \<^verbatim>\<open>trans_seg\<close>: the header is read and the SeqAuth of the sender recovered.\<close>

lemma trans_seg_header:
  assumes sends: "seg_sends tx sdu iv sq0" and arr: "seg_arrives tx sdu iv sq0 k net_rx buf s"
    and rpl: "rpl = fst (snd (bt_mesh_rpl_check net_rx True s))"
    and t': "t' = t\<lparr>to_seq_auth := st_seq_auth tx, to_seg_count := unat (st_seg_n tx) + 1\<rparr>"
  obtains buf' where "nb_invar buf'" "nb_data buf' = seg_chunk (st_ctl tx) sdu k"
    "seg_rx_scan net_rx (st_seq_auth tx) (seg_rxs s) 0 = Rx_Found i \<Longrightarrow>
     sr_seq_auth (seg_rxs s ! i) = st_seq_auth tx \<Longrightarrow> sr_in_use (seg_rxs s ! i) \<Longrightarrow>
     seg_rx_is_valid (seg_rxs s ! i) net_rx (st_hdr tx) (st_seg_n tx) \<Longrightarrow>
     trans_seg env buf net_rx t rssi s =
       trans_seg_found env (nb_data buf) buf' net_rx t' rssi rpl (of_nat k) (st_seg_n tx) i s"
    "seg_rx_scan net_rx (st_seq_auth tx) (seg_rxs s) 0 = Rx_None \<Longrightarrow>
     (te_friend env \<and> rx_friend_match net_rx \<longrightarrow> rx_local_match net_rx) \<Longrightarrow>
     seg_rx_alloc net_rx (st_hdr tx) (st_seq_auth tx) (st_seg_n tx) s = Some (i, s0) \<Longrightarrow>
     trans_seg env buf net_rx t rssi s =
       trans_seg_found env (nb_data buf) buf' net_rx t' rssi rpl (of_nat k) (st_seg_n tx) i
         (upd_rx i (\<lambda>rx. rx\<lparr>sr_obo := rx_friend_match net_rx\<rparr>) s0)"
proof -
  have sd: "sdu \<noteq> []" "seg_last (st_ctl tx) sdu < 3" "unat (st_seg_n tx) = seg_last (st_ctl tx) sdu"
    "st_seq_auth tx = SEQ_AUTH iv sq0"
    using sends by (auto simp: seg_sends_def CONFIG_BT_MESH_RX_SEG_MAX_def unat_of_nat)
  have ar: "k \<le> seg_last (st_ctl tx) sdu" "nb_invar buf" "nb_data buf = seg_octets tx k @ seg_chunk (st_ctl tx) sdu k"
    "BT_MESH_NET_IVI_RX net_rx s = iv" "seg_seq0 (rx_seq net_rx) (seq_zero_of (st_seq_auth tx)) = sq0"
    and rp: "\<not> fst (bt_mesh_rpl_check net_rx True s)"
    using arr seg_seq0_eq[of sq0 "rx_seq net_rx" iv] sd(4) by (auto simp: seg_arrives_def)
  obtain o0 o1 o2 o3 where o: "seg_octets tx k = [o0, o1, o2, o3]" "o0 = st_hdr tx" by (simp add: seg_octets_def Let_def)
  have d: "nb_data buf = o0 # o1 # o2 # o3 # seg_chunk (st_ctl tx) sdu k" using ar(3) o by simp
  have len: "\<not> nb_len buf < 5"
    using length_nb_data[OF ar(2)] d seg_chunk_nonempty[OF sd(1) ar(1)] by (cases "seg_chunk (st_ctl tx) sdu k") simp_all
  obtain b1 where b1: "net_buf_simple_pull buf 1 = Some b1" "nb_invar b1" "nb_data b1 = o1 # o2 # o3 # seg_chunk (st_ctl tx) sdu k"
    using nb_pull_ex[OF ar(2), of 1] d by auto
  obtain b2 where b2: "net_buf_simple_pull_be16 b1 = Some (sys_get_be16 [o1, o2, o3], b2)" "nb_invar b2"
    "nb_data b2 = o3 # seg_chunk (st_ctl tx) sdu k"
    using pull_be16_data[OF b1(2)] b1(3) by (auto simp: sys_get_be16_def)
  obtain b3 where b3: "net_buf_simple_pull_u8 b2 = Some (o3, b3)" "nb_invar b3" "nb_data b3 = seg_chunk (st_ctl tx) sdu k"
    using pull_u8_data[OF b2(2)] b2(3) by auto
  have f: "seg_fields (sys_get_be16 [o1, o2, o3]) o3 = (seq_zero_of (st_seq_auth tx), of_nat k, st_seg_n tx)"
    using seg_fields_octets[of k tx] o(1) ar(1) sd(2,3) by (simp add: word_less_nat_alt)
  have kn: "\<not> (of_nat k :: u8) > st_seg_n tx" using ar(1) sd(2,3) by (simp add: word_less_nat_alt unat_of_nat)
  have c: "bt_mesh_rpl_check net_rx True s = (False, rpl, s)"
    using rp by (auto simp: rpl bt_mesh_rpl_check_def split: rpl_verdict.splits if_splits)
  have ok: "sdu_len_is_ok ctl (st_seg_n tx)" for ctl using sd(2,3) by (simp add: sdu_len_is_ok_def CONFIG_BT_MESH_RX_SEG_MAX_def)
  show ?thesis
  proof (rule that[OF b3(2,3)])
    assume "seg_rx_scan net_rx (st_seq_auth tx) (seg_rxs s) 0 = Rx_Found i" "sr_seq_auth (seg_rxs s ! i) = st_seq_auth tx"
      "sr_in_use (seg_rxs s ! i)" "seg_rx_is_valid (seg_rxs s ! i) net_rx (st_hdr tx) (st_seg_n tx)"
    then show "trans_seg env buf net_rx t rssi s =
       trans_seg_found env (nb_data buf) b3 net_rx t' rssi rpl (of_nat k) (st_seg_n tx) i s"
      using len c b1(1) b2(1) b3(1) f kn ar(4,5) sd(4) d o(2) by (simp add: trans_seg_def seg_rx_find_def Let_def t')
  next
    assume "seg_rx_scan net_rx (st_seq_auth tx) (seg_rxs s) 0 = Rx_None"
      "te_friend env \<and> rx_friend_match net_rx \<longrightarrow> rx_local_match net_rx"
      "seg_rx_alloc net_rx (st_hdr tx) (st_seq_auth tx) (st_seg_n tx) s = Some (i, s0)"
    then show "trans_seg env buf net_rx t rssi s =
       trans_seg_found env (nb_data buf) b3 net_rx t' rssi rpl (of_nat k) (st_seg_n tx) i
         (upd_rx i (\<lambda>rx. rx\<lparr>sr_obo := rx_friend_match net_rx\<rparr>) s0)"
      using len c b1(1) b2(1) b3(1) f kn ar(4,5) sd(4) d o(2) ok by (auto simp: trans_seg_def seg_rx_find_def Let_def t')
  qed
qed

lemma seg_sends_length: "seg_sends tx sdu iv sq0 \<Longrightarrow> length sdu \<le> BT_MESH_RX_SDU_MAX"
proof -
  assume "seg_sends tx sdu iv sq0"
  then have "Suc (seg_last (st_ctl tx) sdu) \<le> 3" by (simp add: seg_sends_def CONFIG_BT_MESH_RX_SEG_MAX_def)
  then have "Suc (seg_last (st_ctl tx) sdu) * seg_len (st_ctl tx) \<le> 3 * 12"
    by (rule mult_le_mono) (simp add: seg_len_def BT_MESH_CTL_SEG_SDU_MAX_def BT_MESH_APP_SEG_SDU_MAX_def)
  with seg_last_covers[of sdu "st_ctl tx"]
  show ?thesis by (simp add: BT_MESH_RX_SDU_MAX_def CONFIG_BT_MESH_RX_SEG_MAX_def BT_MESH_APP_SEG_SDU_MAX_def)
qed

text \<open>Every segment of a message ends up in \<^verbatim>\<open>found_rx\<close> with the slot of the message.\<close>

lemma trans_seg_session:
  assumes sends: "seg_sends tx sdu iv sq0" and arr: "seg_arrives tx sdu iv sq0 k net_rx buf s"
    and ses: "rx_session tx sdu K i s"
  obtains buf' t' rpl where "nb_invar buf'" "nb_data buf' = seg_chunk (st_ctl tx) sdu k"
    "trans_seg env buf net_rx t rssi s =
       trans_seg_found env (nb_data buf) buf' net_rx t' rssi rpl (of_nat k) (sr_seg_n (seg_rxs s ! i)) i s"
proof -
  from ses have i: "i < length (seg_rxs s)" "rx_holds (st_ctl tx) sdu K (seg_rxs s ! i)" "sr_in_use (seg_rxs s ! i)"
    "sr_seq_auth (seg_rxs s ! i) = st_seq_auth tx" "sr_hdr (seg_rxs s ! i) = st_hdr tx"
    "sr_src (seg_rxs s ! i) = st_src tx" "sr_dst (seg_rxs s ! i) = st_dst tx" "\<forall>j < i. rx_other tx (seg_rxs s ! j)"
    by (auto simp: rx_session_def)
  from arr have r: "ctx_addr (rx_ctx net_rx) = st_src tx" "ctx_recv_dst (rx_ctx net_rx) = st_dst tx" "rx_ctl net_rx = st_ctl tx"
    by (auto simp: seg_arrives_def)
  have n: "sr_seg_n (seg_rxs s ! i) = st_seg_n tx"
    using i(2) sends by (simp add: rx_holds_def seg_sends_def word_unat_eq_iff unat_of_nat CONFIG_BT_MESH_RX_SEG_MAX_def)
  have v: "seg_rx_is_valid (seg_rxs s ! i) net_rx (st_hdr tx) (st_seg_n tx)"
    using i r n by (auto simp: seg_rx_is_valid_def rx_holds_def)
  have f: "seg_rx_scan net_rx (st_seq_auth tx) (seg_rxs s) 0 = Rx_Found i"
    using seg_rx_scan_found[OF i(1,8,6,7,4) r(1,2), of 0] by simp
  show ?thesis
    by (rule trans_seg_header[OF sends arr refl refl, of i env t rssi]) (rule that, auto simp: n f i v)
qed

lemma trans_seg_first:
  assumes sends: "seg_sends tx sdu iv sq0" and arr: "seg_arrives tx sdu iv sq0 k net_rx buf s"
    and idle: "rx_idle env tx net_rx s"
  obtains buf' t' rpl i s0 where "nb_invar buf'" "nb_data buf' = seg_chunk (st_ctl tx) sdu k" "rx_session tx sdu {} i s0"
    "segs_used s0 = segs_used s" "bm_iv_index s0 = bm_iv_index s" "replay_list s0 = replay_list s"
    "trans_seg env buf net_rx t rssi s =
       trans_seg_found env (nb_data buf) buf' net_rx t' rssi rpl (of_nat k) (sr_seg_n (seg_rxs s0 ! i)) i s0"
proof -
  from idle have id: "list_all (rx_other tx) (seg_rxs s)" "segs_used s < 64"
    "\<exists>rx \<in> set (seg_rxs s). \<not> sr_in_use rx" "list_all (\<lambda>rx. length (sr_seg rx) = CONFIG_BT_MESH_RX_SEG_MAX) (seg_rxs s)"
    and fr: "te_friend env \<and> rx_friend_match net_rx \<longrightarrow> rx_local_match net_rx"
    by (auto simp: rx_idle_def CONFIG_BT_MESH_SEG_BUFS_def)
  from arr have r: "ctx_addr (rx_ctx net_rx) = st_src tx" "ctx_recv_dst (rx_ctx net_rx) = st_dst tx" "rx_ctl net_rx = st_ctl tx"
    by (auto simp: seg_arrives_def)
  from id(3) obtain i where i: "find_idx (\<lambda>rx. \<not> sr_in_use rx) (seg_rxs s) = Some i"
    by (metis find_idx_None_iff option.exhaust)
  from find_idx_SomeD[OF i] have il: "i < length (seg_rxs s)" by blast
  obtain s0 where a: "seg_rx_alloc net_rx (st_hdr tx) (st_seq_auth tx) (st_seg_n tx) s = Some (i, s0)"
    and s0: "s0 = upd_rx i (\<lambda>rx. rx\<lparr>sr_in_use := True, sr_sub := rx_sub net_rx, sr_ctl := rx_ctl net_rx,
                     sr_seq_auth := st_seq_auth tx, sr_seg_n := st_seg_n tx, sr_hdr := st_hdr tx, sr_ttl := ctx_send_ttl (rx_ctx net_rx),
                     sr_src := ctx_addr (rx_ctx net_rx), sr_dst := ctx_recv_dst (rx_ctx net_rx), sr_block := 0\<rparr>) s"
    using i id(2) by (simp add: seg_rx_alloc_def CONFIG_BT_MESH_SEG_BUFS_def)
  let ?s = "upd_rx i (\<lambda>rx. rx\<lparr>sr_obo := rx_friend_match net_rx\<rparr>) s0"
  have ses: "rx_session tx sdu {} i ?s"
    using sends il r id(1,4)
    by (auto simp: rx_session_def rx_holds_def s0 upd_rx_def seg_sends_def list_all_length unat_of_nat CONFIG_BT_MESH_RX_SEG_MAX_def)
  have n: "sr_seg_n (seg_rxs ?s ! i) = st_seg_n tx" using il by (simp add: s0 upd_rx_def)
  have u: "segs_used ?s = segs_used s" "bm_iv_index ?s = bm_iv_index s" "replay_list ?s = replay_list s"
    by (simp_all add: s0 upd_rx_def)
  show ?thesis
    by (rule trans_seg_header[OF sends arr refl refl, of i env t rssi s0])
       (rule that[OF _ _ ses u], auto simp: n a fr seg_rx_scan_none[OF id(1) r(1,2)])
qed

text \<open>What the operations on slot \<open>i\<close> keep.\<close>

definition rx_ident :: "seg_rx \<Rightarrow> bool \<times> u64 \<times> u8 \<times> u16 \<times> u16" where
  "rx_ident rx = (sr_in_use rx, sr_seq_auth rx, sr_hdr rx, sr_src rx, sr_dst rx)"

lemma rx_session_keep:
  assumes "rx_session tx sdu K i s" "map rx_ident (seg_rxs s') = map rx_ident (seg_rxs s)"
    "rx_holds (st_ctl tx) sdu K' (seg_rxs s' ! i)"
  shows "rx_session tx sdu K' i s'"
proof -
  from assms(2) have len: "length (seg_rxs s') = length (seg_rxs s)" by (rule map_eq_imp_length_eq)
  have e: "rx_ident (seg_rxs s' ! j) = rx_ident (seg_rxs s ! j)" if "j < length (seg_rxs s)" for j
    using assms(2) len that by (metis nth_map)
  have o: "rx_other tx (seg_rxs s' ! j) \<longleftrightarrow> rx_other tx (seg_rxs s ! j)" if "j < length (seg_rxs s)" for j
    using e[OF that] by (auto simp: rx_ident_def rx_other_def)
  show ?thesis using assms(1,3) len e[of i] o by (auto simp: rx_session_def rx_ident_def)
qed

lemma rx_ident_upd:
  assumes "\<And>rx. rx_ident (f rx) = rx_ident rx"
  shows "map rx_ident (seg_rxs (upd_rx i f s)) = map rx_ident (seg_rxs s)"
  by (cases "i < length (seg_rxs s)") (simp_all add: upd_rx_def assms map_update list_update_same_conv list_update_beyond)

lemma rx_ident_ops [simp]:
  "map rx_ident (seg_rxs (rx_touch env i a b n s)) = map rx_ident (seg_rxs s)"
  "map rx_ident (seg_rxs (rx_store i k d s)) = map rx_ident (seg_rxs s)"
  "map rx_ident (seg_rxs (upd_rx i (\<lambda>rx. rx\<lparr>sr_seg := (sr_seg rx)[k := None]\<rparr>) s)) = map rx_ident (seg_rxs s)"
proof -
  note u = rx_ident_upd
  show "map rx_ident (seg_rxs (upd_rx i (\<lambda>rx. rx\<lparr>sr_seg := (sr_seg rx)[k := None]\<rparr>) s)) = map rx_ident (seg_rxs s)"
    by (rule u) (simp add: rx_ident_def)
  have "map rx_ident (seg_rxs (rx_store i k d s)) = map rx_ident (seg_rxs (s\<lparr>segs_used := segs_used s + 1\<rparr>))"
    unfolding rx_store_def by (rule u) (simp add: rx_ident_def)
  then show "map rx_ident (seg_rxs (rx_store i k d s)) = map rx_ident (seg_rxs s)" by simp
  have "map rx_ident (seg_rxs (upd_rx i (\<lambda>rx. rx\<lparr>sr_len := m\<rparr>) s)) = map rx_ident (seg_rxs s)" for m
    by (rule u) (simp add: rx_ident_def)
  moreover have "map rx_ident (seg_rxs (rx_touch env i a b n s)) =
      map rx_ident (seg_rxs (if a = b then upd_rx i (\<lambda>rx. rx\<lparr>sr_len := of_nat (unat b * seg_len (sr_ctl (seg_rxs s ! i)) + n)\<rparr>) s else s))"
    unfolding rx_touch_def Let_def by (rule u) (simp add: rx_ident_def)
  ultimately show "map rx_ident (seg_rxs (rx_touch env i a b n s)) = map rx_ident (seg_rxs s)" by simp
qed

text \<open>One segment: a piece the slot has already, no block left, the last piece, or one more.\<close>

lemma rx_session_step:
  assumes sends: "seg_sends tx sdu iv sq0" and ses: "rx_session tx sdu K i s" and k: "k \<le> seg_last (st_ctl tx) sdu"
    and b: "nb_invar buf" "nb_data buf = seg_chunk (st_ctl tx) sdu k"
  shows "segs_used s < CONFIG_BT_MESH_SEG_BUFS \<Longrightarrow> k \<notin> K \<Longrightarrow> insert k K = {..seg_last (st_ctl tx) sdu} \<Longrightarrow>
      \<exists>s'. trans_seg_found env d buf net_rx t rssi rpl (of_nat k) (sr_seg_n (seg_rxs s ! i)) i s =
          trans_seg_complete env d net_rx t rssi rpl i s' \<and> rx_session tx sdu (insert k K) i s'"
    and "insert k K \<noteq> {..seg_last (st_ctl tx) sdu} \<Longrightarrow>
      trans_seg_found env d buf net_rx t rssi rpl (of_nat k) (sr_seg_n (seg_rxs s ! i)) i s = Some (err, net_rx', t', s') \<Longrightarrow>
      rx_session tx sdu (if err = None then insert k K else K) i s'"
proof -
  note len = seg_sends_length[OF sends]
  from ses have i: "i < length (seg_rxs s)" and h: "rx_holds (st_ctl tx) sdu K (seg_rxs s ! i)"
    by (auto simp: rx_session_def)
  have l: "nb_len buf = length (seg_chunk (st_ctl tx) sdu k)" using length_nb_data[OF b(1)] b(2) by simp
  define s1 where "s1 = rx_touch env i (of_nat k) (sr_seg_n (seg_rxs s ! i)) (nb_len buf) s"
  define s2 where "s2 = rx_store i k (seg_chunk (st_ctl tx) sdu k) s1"
  have s2: "rx_session tx sdu (insert k K) i s2"
    by (rule rx_session_keep[OF ses]) (use rx_store_holds[OF i h k len l, of env] in \<open>simp_all add: s2_def s1_def\<close>)
  have s3: "k \<notin> K \<Longrightarrow> rx_session tx sdu K i (upd_rx i (\<lambda>rx. rx\<lparr>sr_seg := (sr_seg rx)[k := None]\<rparr>) s1)"
    by (rule rx_session_keep[OF ses]) (use rx_touch_holds[OF i h k _ len, of env "nb_len buf"] in \<open>simp_all add: s1_def\<close>)
  note eq = trans_seg_found_eq[OF i h k b refl len s1_def, of d net_rx t rssi rpl, folded s2_def]
  show "\<exists>s'. trans_seg_found env d buf net_rx t rssi rpl (of_nat k) (sr_seg_n (seg_rxs s ! i)) i s =
          trans_seg_complete env d net_rx t rssi rpl i s' \<and> rx_session tx sdu (insert k K) i s'"
    if "segs_used s < CONFIG_BT_MESH_SEG_BUFS" "k \<notin> K" "insert k K = {..seg_last (st_ctl tx) sdu}"
  proof -
    have "trans_seg_found env d buf net_rx t rssi rpl (of_nat k) (sr_seg_n (seg_rxs s ! i)) i s =
        trans_seg_complete env d net_rx t rssi rpl i s2"
      unfolding eq using that by simp
    with s2 show ?thesis by blast
  qed
  show "rx_session tx sdu (if err = None then insert k K else K) i s'"
    if "insert k K \<noteq> {..seg_last (st_ctl tx) sdu}"
      "trans_seg_found env d buf net_rx t rssi rpl (of_nat k) (sr_seg_n (seg_rxs s ! i)) i s = Some (err, net_rx', t', s')"
    using that eq ses s2 s3 by (auto split: if_splits)
qed

text \<open>
  A run of the receiver: the first segment of a message to arrive, further ones in any order and any number of times,
  and between them whatever leaves the slots of receive sessions alone but for their timers: acknowledgements that are
  sent, unsegmented messages, the node's own transmissions. Segments of other messages are not among them.
\<close>

inductive reassembly ::
    "'a trans_state_scheme trans_env \<Rightarrow> seg_tx \<Rightarrow> bytes \<Rightarrow> u32 \<Rightarrow> u32 \<Rightarrow> nat set \<Rightarrow> 'a trans_state_scheme \<Rightarrow> bool"
  for env tx sdu iv sq0 where
  first: "seg_sends tx sdu iv sq0 \<Longrightarrow> rx_idle env tx net_rx s \<Longrightarrow> seg_arrives tx sdu iv sq0 k net_rx buf s \<Longrightarrow>
    0 < seg_last (st_ctl tx) sdu \<Longrightarrow> trans_seg env buf net_rx t rssi s = Some (None, net_rx', t', s') \<Longrightarrow>
    reassembly env tx sdu iv sq0 {k} s'"
| more: "reassembly env tx sdu iv sq0 K s \<Longrightarrow> seg_arrives tx sdu iv sq0 k net_rx buf s \<Longrightarrow>
    insert k K \<noteq> {..seg_last (st_ctl tx) sdu} \<Longrightarrow> trans_seg env buf net_rx t rssi s = Some (err, net_rx', t', s') \<Longrightarrow>
    reassembly env tx sdu iv sq0 (if err = None then insert k K else K) s'"
| other: "reassembly env tx sdu iv sq0 K s \<Longrightarrow>
    map (\<lambda>rx. rx\<lparr>sr_ack := None, sr_last := 0\<rparr>) (seg_rxs s') = map (\<lambda>rx. rx\<lparr>sr_ack := None, sr_last := 0\<rparr>) (seg_rxs s) \<Longrightarrow>
    reassembly env tx sdu iv sq0 K s'"

lemma rx_timers:
  assumes "map (\<lambda>rx. rx\<lparr>sr_ack := None, sr_last := 0\<rparr>) xs = map (\<lambda>rx. rx\<lparr>sr_ack := None, sr_last := 0\<rparr>) ys"
  shows "map rx_ident xs = map rx_ident ys" "i < length ys \<Longrightarrow> rx_holds ctl sdu K (xs ! i) = rx_holds ctl sdu K (ys ! i)"
proof -
  define f where "f = (\<lambda>rx. rx\<lparr>sr_ack := None, sr_last := 0\<rparr> :: seg_rx)"
  have eq: "map f xs = map f ys" using assms by (simp add: f_def)
  have id: "map rx_ident zs = map rx_ident (map f zs)" for zs by (simp add: rx_ident_def f_def)
  have "map rx_ident (map f xs) = map rx_ident (map f ys)" by (simp only: eq)
  then show "map rx_ident xs = map rx_ident ys" unfolding id[of xs] id[of ys] .
  have h: "rx_holds ctl sdu K (f rx) = rx_holds ctl sdu K rx" for rx by (simp add: rx_holds_def f_def)
  have l: "length xs = length ys" using eq by (rule map_eq_imp_length_eq)
  assume i: "i < length ys"
  have "map f xs ! i = map f ys ! i" by (simp only: eq)
  then have "f (xs ! i) = f (ys ! i)" using i l by simp
  then have "rx_holds ctl sdu K (f (xs ! i)) = rx_holds ctl sdu K (f (ys ! i))" by (simp only:)
  then show "rx_holds ctl sdu K (xs ! i) = rx_holds ctl sdu K (ys ! i)" unfolding h .
qed

lemma reassembly_session:
  assumes "reassembly env tx sdu iv sq0 K s"
  shows "seg_sends tx sdu iv sq0 \<and> (\<exists>i. rx_session tx sdu K i s)"
  using assms
proof induction
  case (first net_rx s k buf t rssi net_rx' t' s')
  obtain buf' t'' rpl i s0 where f: "nb_invar buf'" "nb_data buf' = seg_chunk (st_ctl tx) sdu k" "rx_session tx sdu {} i s0"
    "trans_seg env buf net_rx t rssi s =
       trans_seg_found env (nb_data buf) buf' net_rx t'' rssi rpl (of_nat k) (sr_seg_n (seg_rxs s0 ! i)) i s0"
    by (rule trans_seg_first[OF first(1,3,2), of t rssi])
  have k: "k \<le> seg_last (st_ctl tx) sdu" using first(3) by (simp add: seg_arrives_def)
  have "{k} \<noteq> {..seg_last (st_ctl tx) sdu}" using first(4) by (metis atMost_iff le0 less_irrefl order_refl singletonD)
  from rx_session_step(2)[OF first(1) f(3) k f(1,2) this trans[OF f(4)[symmetric] first(5)]]
  have "rx_session tx sdu {k} i s'" by simp
  with first(1) show ?case by blast
next
  case (more K s k net_rx buf t rssi err net_rx' t' s')
  from more.IH obtain i where snd: "seg_sends tx sdu iv sq0" and i: "rx_session tx sdu K i s" by blast
  obtain buf' t'' rpl where f: "nb_invar buf'" "nb_data buf' = seg_chunk (st_ctl tx) sdu k"
    "trans_seg env buf net_rx t rssi s =
       trans_seg_found env (nb_data buf) buf' net_rx t'' rssi rpl (of_nat k) (sr_seg_n (seg_rxs s ! i)) i s"
    by (rule trans_seg_session[OF snd more.hyps(2) i, of env t rssi])
  have k: "k \<le> seg_last (st_ctl tx) sdu" using more.hyps(2) by (simp add: seg_arrives_def)
  from rx_session_step(2)[OF snd i k f(1,2) more.hyps(3) trans[OF f(3)[symmetric] more.hyps(4)]]
  have "rx_session tx sdu (if err = None then insert k K else K) i s'" .
  with snd show ?case by blast
next
  case (other K s s')
  then obtain i where i: "rx_session tx sdu K i s" by blast
  then have "i < length (seg_rxs s)" "rx_holds (st_ctl tx) sdu K (seg_rxs s ! i)" by (auto simp: rx_session_def)
  with rx_timers[OF other.hyps(2)] have "rx_holds (st_ctl tx) sdu K (seg_rxs s' ! i)" by simp
  from rx_session_keep[OF i rx_timers(1)[OF other.hyps(2)] this] other.IH show ?case by blast
qed

text \<open>A new piece that does not complete the message is accepted as long as there are blocks.\<close>

lemma rx_session_accepts:
  assumes sends: "seg_sends tx sdu iv sq0" and ses: "rx_session tx sdu K i s" and k: "k \<le> seg_last (st_ctl tx) sdu" "k \<notin> K"
    and b: "nb_invar buf" "nb_data buf = seg_chunk (st_ctl tx) sdu k" and room: "segs_used s < CONFIG_BT_MESH_SEG_BUFS"
    and part: "insert k K \<noteq> {..seg_last (st_ctl tx) sdu}"
  shows "\<exists>t' s'. trans_seg_found env d buf net_rx t rssi rpl (of_nat k) (sr_seg_n (seg_rxs s ! i)) i s = Some (None, net_rx, t', s') \<and>
    segs_used s' = segs_used s + 1 \<and> bm_iv_index s' = bm_iv_index s \<and> replay_list s' = replay_list s"
proof -
  from ses have i: "i < length (seg_rxs s)" and h: "rx_holds (st_ctl tx) sdu K (seg_rxs s ! i)" by (auto simp: rx_session_def)
  note eq = trans_seg_found_eq[OF i h k(1) b refl seg_sends_length[OF sends] refl, of env d net_rx t rssi rpl]
  show ?thesis unfolding eq using k(2) room part
    by (simp add: rx_store_def upd_rx_def rx_touch_slot[OF i]) (simp add: rx_touch_def upd_rx_def Let_def)
qed

lemma reassembly_first:
  assumes sends: "seg_sends tx sdu iv sq0" and arr: "seg_arrives tx sdu iv sq0 k net_rx buf s" and idle: "rx_idle env tx net_rx s"
    and two: "0 < seg_last (st_ctl tx) sdu"
  shows "\<exists>t' s'. trans_seg env buf net_rx t rssi s = Some (None, net_rx, t', s') \<and> reassembly env tx sdu iv sq0 {k} s' \<and>
    segs_used s' = segs_used s + 1 \<and> bm_iv_index s' = bm_iv_index s \<and> replay_list s' = replay_list s"
proof -
  obtain buf' t'' rpl i s0 where f: "nb_invar buf'" "nb_data buf' = seg_chunk (st_ctl tx) sdu k" "rx_session tx sdu {} i s0"
    "segs_used s0 = segs_used s" "bm_iv_index s0 = bm_iv_index s" "replay_list s0 = replay_list s"
    "trans_seg env buf net_rx t rssi s =
       trans_seg_found env (nb_data buf) buf' net_rx t'' rssi rpl (of_nat k) (sr_seg_n (seg_rxs s0 ! i)) i s0"
    by (rule trans_seg_first[OF sends arr idle, of t rssi])
  have k: "k \<le> seg_last (st_ctl tx) sdu" "k \<notin> {}" using arr by (simp_all add: seg_arrives_def)
  have room: "segs_used s0 < CONFIG_BT_MESH_SEG_BUFS" using idle f(4) by (simp add: rx_idle_def)
  have part: "{k} \<noteq> {..seg_last (st_ctl tx) sdu}" using two by (metis atMost_iff le0 less_irrefl order_refl singletonD)
  from rx_session_accepts[OF sends f(3) k f(1,2) room part, of env "nb_data buf" net_rx t'' rssi rpl] f(4,5,6,7)
  obtain t' s' where e: "trans_seg env buf net_rx t rssi s = Some (None, net_rx, t', s')"
    "segs_used s' = segs_used s + 1" "bm_iv_index s' = bm_iv_index s" "replay_list s' = replay_list s"
    by auto
  with reassembly.first[OF sends idle arr two e(1)] show ?thesis by blast
qed

section \<open>Properties\<close>

text \<open>C20: reassembly. Let some of the segments of a message have arrived, in any order, some of them repeatedly and
  interleaved with steps that leave the receive sessions alone. A further segment is then accepted as long as a block is left to store it in; and
  when it is the last one that was missing, the message goes up, and what \<^verbatim>\<open>seg_rx_assemble\<close> puts together from
  the slot is the message of the sender, its MIC behind the payload.\<close>

theorem seg_reassembly:
  assumes run: "reassembly env tx sdu iv sq0 K s" and arr: "seg_arrives tx sdu iv sq0 k net_rx buf s" and new: "k \<notin> K"
    and room: "segs_used s < CONFIG_BT_MESH_SEG_BUFS"
  shows "if insert k K = {..seg_last (st_ctl tx) sdu}
    then \<exists>t' rpl i s'. trans_seg env buf net_rx t rssi s = trans_seg_complete env (nb_data buf) net_rx t' rssi rpl i s' \<and>
      (\<forall>b aszmic. nb_invar b \<and> length sdu \<le> nb_size b \<longrightarrow>
        (\<exists>b'. seg_rx_assemble (seg_rxs s' ! i) b aszmic = Some b' \<and> nb_off b' = 0 \<and> take (length sdu) (nb_store b') = sdu \<and>
          nb_len b' = length sdu - (if st_ctl tx then 0 else APP_MIC_LEN aszmic)))
    else \<exists>t' s'. trans_seg env buf net_rx t rssi s = Some (None, net_rx, t', s') \<and> reassembly env tx sdu iv sq0 (insert k K) s'"
proof -
  from reassembly_session[OF run] obtain i where snd: "seg_sends tx sdu iv sq0" and i: "rx_session tx sdu K i s" by blast
  obtain buf' t' rpl where f: "nb_invar buf'" "nb_data buf' = seg_chunk (st_ctl tx) sdu k"
    "trans_seg env buf net_rx t rssi s =
       trans_seg_found env (nb_data buf) buf' net_rx t' rssi rpl (of_nat k) (sr_seg_n (seg_rxs s ! i)) i s"
    by (rule trans_seg_session[OF snd arr i, of env t rssi])
  have k: "k \<le> seg_last (st_ctl tx) sdu" using arr by (simp add: seg_arrives_def)
  show ?thesis
  proof (cases "insert k K = {..seg_last (st_ctl tx) sdu}")
    case True
    from rx_session_step(1)[OF snd i k f(1,2) room new True, of env "nb_data buf" net_rx t' rssi rpl] obtain s' where
      s': "trans_seg_found env (nb_data buf) buf' net_rx t' rssi rpl (of_nat k) (sr_seg_n (seg_rxs s ! i)) i s =
        trans_seg_complete env (nb_data buf) net_rx t' rssi rpl i s'" "rx_session tx sdu {..seg_last (st_ctl tx) sdu} i s'"
      unfolding True by blast
    have h: "rx_holds (st_ctl tx) sdu {..seg_last (st_ctl tx) sdu} (seg_rxs s' ! i)" using s'(2) by (simp add: rx_session_def)
    show ?thesis unfolding if_P[OF True] f(3) s'(1) using seg_rx_assemble_data[OF h] by blast
  next
    case False
    from rx_session_accepts[OF snd i k new f(1,2) room False, of env "nb_data buf" net_rx t' rssi rpl] obtain t'' s' where
      e: "trans_seg env buf net_rx t rssi s = Some (None, net_rx, t'', s')" unfolding f(3) by blast
    from reassembly.more[OF run arr False e] have "reassembly env tx sdu iv sq0 (insert k K) s'" by simp
    with e show ?thesis unfolding if_not_P[OF False] by blast
  qed
qed

definition trans_env_example :: "u16 \<Rightarrow> 's trans_env" where
  "trans_env_example addr =
     \<lparr>te_net = env_example addr, te_cdb_dev_key = (\<lambda>_. None), te_primary_addr = (\<lambda>_. addr), te_uptime = (\<lambda>_. 0),
      te_friend_match = (\<lambda>_ _ _. False), te_friend_has_space = (\<lambda>_ _ _ _ _ _. False),
      te_friend_enqueue_tx = (\<lambda>_ _ _ _ _ s. (False, s)), te_friend_enqueue_rx = (\<lambda>_ _ _ _ _ s. s),
      te_friend_clear_incomplete = (\<lambda>_ _ _ _ s. s), te_friend_ctl = (\<lambda>_ _ _ s. Some (None, s)),
      te_hb_recv = (\<lambda>_ _ s. Some (None, s)), te_model_recv = (\<lambda>_ _ _ s. Some s)\<rparr>"

definition trans_example :: trans_state where
  "trans_example = (trans_boot 2 2 (\<lambda>_. None))\<lparr>flags := (\<lambda>f. f = BT_MESH_VALID), bm_iv_index := 6,
     subnets := [example_sub, unused_subnet]\<rparr>"

definition seg_tx_example :: seg_tx where
  "seg_tx_example = unused_seg_tx\<lparr>st_hdr := 0xc0, st_seg_n := 1, st_src := 1, st_dst := 7, st_seq_auth := SEQ_AUTH 6 5\<rparr>"

definition sdu_example :: bytes where "sdu_example = replicate 12 1 @ replicate 8 2"

definition seg_rx_example :: "u32 \<Rightarrow> bt_mesh_net_rx" where
  "seg_rx_example sq = empty_rx\<lparr>rx_sub := Some 0, rx_ctx := empty_ctx\<lparr>ctx_addr := 1, ctx_recv_dst := 7\<rparr>, rx_seq := sq,
     rx_local_match := True, rx_net_if := BT_MESH_NET_IF_ADV\<rparr>"

lemma seg_example_sends: "seg_sends seg_tx_example sdu_example 6 5" "seg_last (st_ctl seg_tx_example) sdu_example = 1"
  by (simp_all add: seg_sends_def seg_tx_example_def sdu_example_def seg_last_def unused_seg_tx_def seg_len_def
      BT_MESH_APP_SEG_SDU_MAX_def CONFIG_BT_MESH_RX_SEG_MAX_def)

lemma seg_example_arrives:
  assumes "k \<le> 1" "sq = 5 \<or> sq = 6" "bm_iv_index s = 6" "replay_list s = replay_list trans_example"
  shows "seg_arrives seg_tx_example sdu_example 6 5 k (seg_rx_example sq)
    (net_buf_simple_init_with_data (seg_octets seg_tx_example k @ seg_chunk False sdu_example k)) s"
proof -
  let ?d = "seg_octets seg_tx_example k @ seg_chunk False sdu_example k"
  have "length ?d \<le> 24" by (simp add: seg_octets_def Let_def seg_chunk_def sdu_example_def)
  then have b: "nb_invar (net_buf_simple_init_with_data ?d)" "nb_data (net_buf_simple_init_with_data ?d) = ?d"
    by (simp_all add: net_buf_simple_init_with_data_def nb_basic_defs)
  have r: "replay_list s = [rpl_zero, rpl_zero]"
    using assms(4) by (simp add: trans_example_def trans_boot_def net_boot_def net_state.defs numeral_2_eq_2)
  have l: "k \<le> seg_last (st_ctl seg_tx_example) sdu_example" using assms(1) seg_example_sends(2) by simp
  show ?thesis
    unfolding seg_arrives_def b(2)
    using l b(1) assms(2,3) r
    by (auto simp: seg_tx_example_def unused_seg_tx_def seg_rx_example_def empty_rx_def empty_ctx_def
        BT_MESH_NET_IVI_RX_def bt_mesh_rpl_check_def rpl_zero_def)
qed

lemma trans_example_idle: "rx_idle (trans_env_example 7) seg_tx_example (seg_rx_example sq) trans_example" "bm_iv_index trans_example = 6"
  by (simp_all add: rx_idle_def trans_example_def trans_boot_def net_boot_def net_state.defs unused_seg_rx_def rx_other_def
      seg_tx_example_def unused_seg_tx_def CONFIG_BT_MESH_RX_SEG_MSG_COUNT_def CONFIG_BT_MESH_SEG_BUFS_def
      trans_env_example_def env_example_def list_all_length)

theorem seg_reassembly_witness:
  "\<exists>s. reassembly (trans_env_example 7) seg_tx_example sdu_example 6 5 {1} s \<and>
     (\<exists>t' rpl i s'. trans_seg (trans_env_example 7) (net_buf_simple_init_with_data (seg_octets seg_tx_example 0 @ seg_chunk False sdu_example 0))
         (seg_rx_example 6) \<lparr>to_pdu_type = BT_MESH_FRIEND_PDU_SINGLE, to_seq_auth = 0, to_seg_count = 0\<rparr> 0 (s :: trans_state) =
       trans_seg_complete (trans_env_example 7) (seg_octets seg_tx_example 0 @ seg_chunk False sdu_example 0) (seg_rx_example 6) t' 0 rpl i s' \<and>
       (\<exists>b'. seg_rx_assemble (seg_rxs s' ! i) (NET_BUF_SIMPLE_DEFINE (replicate 36 0)) False = Some b' \<and> nb_data b' = take 16 sdu_example))"
proof -
  let ?env = "trans_env_example 7 :: trans_state trans_env"
  let ?b = "\<lambda>k. net_buf_simple_init_with_data (seg_octets seg_tx_example k @ seg_chunk False sdu_example k)"
  let ?t = "\<lparr>to_pdu_type = BT_MESH_FRIEND_PDU_SINGLE, to_seq_auth = 0, to_seg_count = 0\<rparr>"
  have two: "0 < seg_last (st_ctl seg_tx_example) sdu_example" using seg_example_sends(2) by simp
  have "1 \<le> (1 :: nat)" "(5 :: u32) = 5 \<or> (5 :: u32) = 6" by simp_all
  note arr1 = seg_example_arrives[OF this trans_example_idle(2) refl]
  from reassembly_first[OF seg_example_sends(1) arr1 trans_example_idle(1) two, of ?t 0]
  obtain s where run: "reassembly ?env seg_tx_example sdu_example 6 5 {1} s" and
    s: "segs_used s = segs_used trans_example + 1" "bm_iv_index s = 6" "replay_list s = replay_list trans_example"
    using trans_example_idle(2) by auto
  have "0 \<le> (1 :: nat)" "(6 :: u32) = 5 \<or> (6 :: u32) = 6" by simp_all
  note arr0 = seg_example_arrives[OF this s(2,3)]
  have room: "segs_used s < CONFIG_BT_MESH_SEG_BUFS"
    using s(1) by (simp add: trans_example_def trans_boot_def net_boot_def net_state.defs CONFIG_BT_MESH_SEG_BUFS_def)
  have all: "insert 0 {1} = {..seg_last (st_ctl seg_tx_example) sdu_example}" using seg_example_sends(2) by auto
  have d: "nb_data (?b 0) = seg_octets seg_tx_example 0 @ seg_chunk False sdu_example 0"
    by (simp add: net_buf_simple_init_with_data_def nb_data_def)
  have len: "length sdu_example = 20" by (simp add: sdu_example_def)
  from seg_reassembly[OF run arr0 _ room, of ?t 0] obtain t' rpl i s' where
    e: "trans_seg ?env (?b 0) (seg_rx_example 6) ?t 0 s = trans_seg_complete ?env (nb_data (?b 0)) (seg_rx_example 6) t' 0 rpl i s'"
    and a: "\<forall>b aszmic. nb_invar b \<and> length sdu_example \<le> nb_size b \<longrightarrow>
        (\<exists>b'. seg_rx_assemble (seg_rxs s' ! i) b aszmic = Some b' \<and> nb_off b' = 0 \<and> take (length sdu_example) (nb_store b') = sdu_example \<and>
          nb_len b' = length sdu_example - (if st_ctl seg_tx_example then 0 else APP_MIC_LEN aszmic))"
    unfolding if_P[OF all] by auto
  have "nb_invar (NET_BUF_SIMPLE_DEFINE (replicate 36 0)) \<and> length sdu_example \<le> nb_size (NET_BUF_SIMPLE_DEFINE (replicate 36 0))"
    by (simp add: NET_BUF_SIMPLE_DEFINE_def nb_basic_defs len)
  with a[rule_format, of "NET_BUF_SIMPLE_DEFINE (replicate 36 0)" False] obtain b' where b': "seg_rx_assemble (seg_rxs s' ! i) (NET_BUF_SIMPLE_DEFINE (replicate 36 0)) False = Some b'"
    "nb_off b' = 0" "take 20 (nb_store b') = sdu_example" "nb_len b' = 16"
    unfolding len by (auto simp: seg_tx_example_def unused_seg_tx_def APP_MIC_LEN_def)
  have "nb_data b' = take 16 (take 20 (nb_store b'))" using b'(2,4) by (simp add: nb_data_def)
  then have "nb_data b' = take 16 sdu_example" unfolding b'(3) .
  with run e b'(1) d show ?thesis by metis
qed

text \<open>C21: decryption of a segmented message. Let the slot of a receiver have all pieces of an access message that was
  encrypted with the same key and context. \<^verbatim>\<open>sdu_try_decrypt\<close>, which puts the pieces together in a static buffer and
  decrypts them in place, then gives the payload of the sender.\<close>

theorem sdu_decrypt_segments:
  assumes ok: "tinycrypt_ok tc" "length key = 16" and b: "nb_invar b" "nb_len b < 256"
    "APP_MIC_LEN (ac_aszmic c) \<le> net_buf_simple_tailroom b"
    and enc: "bt_mesh_app_encrypt tc key c b = Some (Inr b')"
    and h: "rx_holds False (nb_data b') {..seg_last False (nb_data b')} rx"
    and sdu: "sdu = net_buf_simple_init_with_data (take (unat (sr_len rx) - APP_MIC_LEN (ac_aszmic c)) (replicate BT_MESH_RX_SDU_MAX 0))"
  shows "\<exists>out. sdu_try_decrypt tc c (NET_BUF_SIMPLE_DEFINE (replicate BT_MESH_RX_SDU_MAX 0)) sdu (Some rx) key = Some (Some out) \<and>
    nb_data out = nb_data b"
proof -
  let ?m = "APP_MIC_LEN (ac_aszmic c)" and ?d = "nb_data b" and ?n = "create_app_nonce c"
  let ?e = "ctr_crypt tc key ?n ?d" and ?mic = "app_mic tc key c ?d"
  have ld: "length ?d = nb_len b" by (rule length_nb_data[OF b(1)])
  have d': "nb_data b' = ?e @ ?mic"
    using app_encrypt_data[OF ok b(1) refl _ b(3)] enc ld b(2) by auto
  then have l': "length (nb_data b') = length ?d + ?m" by simp
  have r: "unat (sr_len rx) = length ?d + ?m" "length (nb_data b') \<le> BT_MESH_RX_SDU_MAX"
  proof -
    show "unat (sr_len rx) = length ?d + ?m" using h l' by (simp add: rx_holds_def)
    have "Suc (seg_last False (nb_data b')) * seg_len False \<le> 3 * 12"
      by (rule mult_le_mono) (use h in \<open>simp_all add: rx_holds_def CONFIG_BT_MESH_RX_SEG_MAX_def seg_len_def BT_MESH_APP_SEG_SDU_MAX_def\<close>)
    with seg_last_covers[of "nb_data b'" False] show "length (nb_data b') \<le> BT_MESH_RX_SDU_MAX"
      by (simp add: BT_MESH_RX_SDU_MAX_def CONFIG_BT_MESH_RX_SEG_MAX_def BT_MESH_APP_SEG_SDU_MAX_def)
  qed
  have max: "BT_MESH_RX_SDU_MAX = 36" by (simp add: BT_MESH_RX_SDU_MAX_def CONFIG_BT_MESH_RX_SEG_MAX_def BT_MESH_APP_SEG_SDU_MAX_def)
  let ?sb = "NET_BUF_SIMPLE_DEFINE (replicate BT_MESH_RX_SDU_MAX 0)"
  have sb: "nb_invar ?sb" "length (nb_data b') \<le> nb_size ?sb"
    using r(2) by (simp_all add: NET_BUF_SIMPLE_DEFINE_def nb_basic_defs max)
  from seg_rx_assemble_data[OF h sb, of "ac_aszmic c"] l' obtain a where
    a: "seg_rx_assemble rx ?sb (ac_aszmic c) = Some a" "nb_off a = 0" "take (length ?d + ?m) (nb_store a) = ?e @ ?mic"
      "nb_len a = length ?d" by (auto simp: d')
  have la: "length ?d + ?m \<le> length (nb_store a)" using arg_cong[OF a(3), of length] by (simp add: min_def split: if_splits)
  define out where "out = net_buf_simple_reset (sdu\<lparr>nb_store := take (nb_size sdu) (nb_store a)\<rparr>)"
  have sz: "nb_size sdu = length ?d" using r l' max by (simp add: sdu net_buf_simple_init_with_data_def nb_size_def)
  have out: "nb_invar out" "nb_len out = 0" "net_buf_simple_tailroom out = length ?d" "nb_off out = 0"
    using la ld b(2) sz by (simp_all add: out_def net_buf_simple_reset_def nb_basic_defs)
  have ad: "nb_data a = ?e"
    using arg_cong[OF a(3), of "take (length ?d)"] a(2,4) by (simp add: nb_data_def min_def)
  have "bt_mesh_app_decrypt tc key c a out = Some (Inr (nb_write (out\<lparr>nb_len := nb_len a\<rparr>) (nb_off out) ?d))"
    using app_decrypt_data[OF ok ad, where mic = ?mic and ctx = c and out = out] a ld b(2) out
    by (simp add: Let_def ctr_crypt_invol)
  moreover have "nb_data (nb_write (out\<lparr>nb_len := nb_len a\<rparr>) (nb_off out) ?d) = ?d"
  proof -
    have "nb_invar (out\<lparr>nb_len := nb_len a\<rparr>)" using out a(4) by (simp add: nb_basic_defs)
    from nb_write_data(2)[OF this, of 0 ?d] a(4) show ?thesis by simp
  qed
  ultimately show ?thesis using a(1) by (simp add: sdu_try_decrypt_def out_def)
qed

theorem sdu_decrypt_segments_witness:
  "\<exists>b' out. bt_mesh_app_encrypt tc_example (replicate 16 7)
       \<lparr>ac_dev_key = False, ac_aszmic = False, ac_src = 1, ac_dst = 2, ac_seq_num = 3, ac_iv_index = 4, ac_ad = None\<rparr>
       \<lparr>nb_store = replicate 24 9, nb_off = 0, nb_len = 16\<rparr> = Some (Inr b') \<and>
     sdu_try_decrypt tc_example
       \<lparr>ac_dev_key = False, ac_aszmic = False, ac_src = 1, ac_dst = 2, ac_seq_num = 3, ac_iv_index = 4, ac_ad = None\<rparr>
       (NET_BUF_SIMPLE_DEFINE (replicate BT_MESH_RX_SDU_MAX 0))
       (net_buf_simple_init_with_data (take (20 - APP_MIC_LEN False) (replicate BT_MESH_RX_SDU_MAX 0)))
       (Some (unused_seg_rx\<lparr>sr_seg := [Some (take 12 (nb_data b')), Some (drop 12 (nb_data b')), None], sr_seg_n := 1,
          sr_len := 20, sr_block := 3, sr_in_use := True\<rparr>)) (replicate 16 7) = Some (Some out) \<and>
     nb_data out = replicate 16 9"
proof -
  let ?c = "\<lparr>ac_dev_key = False, ac_aszmic = False, ac_src = 1, ac_dst = 2, ac_seq_num = 3, ac_iv_index = 4, ac_ad = None\<rparr>"
  let ?b = "\<lparr>nb_store = replicate 24 9, nb_off = 0, nb_len = 16\<rparr>"
  have k: "length (replicate 16 7 :: bytes) = 16" by simp
  have b: "nb_invar ?b" "nb_len ?b < 256" "APP_MIC_LEN (ac_aszmic ?c) \<le> net_buf_simple_tailroom ?b" "length (nb_data ?b) < 256"
    "nb_data ?b = replicate 16 9"
    by (simp_all add: nb_basic_defs APP_MIC_LEN_def)
  from app_encrypt_data[OF tc_example_ok k b(1) refl b(4,3)] obtain b' where
    b': "bt_mesh_app_encrypt tc_example (replicate 16 7) ?c ?b = Some (Inr b')"
      "nb_data b' = ctr_crypt tc_example (replicate 16 7) (create_app_nonce ?c) (nb_data ?b) @ app_mic tc_example (replicate 16 7) ?c (nb_data ?b)"
    by blast
  have len: "length (nb_data b') = 20" using b'(2) b(5) by (simp add: APP_MIC_LEN_def)
  let ?rx = "unused_seg_rx\<lparr>sr_seg := [Some (take 12 (nb_data b')), Some (drop 12 (nb_data b')), None], sr_seg_n := 1,
          sr_len := 20, sr_block := 3, sr_in_use := True\<rparr>"
  have last: "seg_last False (nb_data b') = 1" using len by (simp add: seg_last_def seg_len_def BT_MESH_APP_SEG_SDU_MAX_def)
  have blk: "bit (3 :: u32) j \<longleftrightarrow> j \<le> 1" if "j < 32" for j :: nat
  proof -
    have m: "(3 :: u32) = mask 2" by (simp add: mask_eq_exp_minus_1)
    show ?thesis unfolding m using that by (auto simp: bit_mask_iff possible_bit_def)
  qed
  have ch: "seg_chunk False (nb_data b') 0 = take 12 (nb_data b')" "seg_chunk False (nb_data b') 1 = drop 12 (nb_data b')"
    using len by (simp_all add: seg_chunk_def seg_len_def BT_MESH_APP_SEG_SDU_MAX_def)
  have h: "rx_holds False (nb_data b') {..seg_last False (nb_data b')} ?rx"
    using len blk ch by (auto simp: rx_holds_def last unused_seg_rx_def CONFIG_BT_MESH_RX_SEG_MAX_def le_Suc_eq)
  have sdu: "net_buf_simple_init_with_data (take (20 - APP_MIC_LEN False) (replicate BT_MESH_RX_SDU_MAX 0)) =
    net_buf_simple_init_with_data (take (unat (sr_len ?rx) - APP_MIC_LEN (ac_aszmic ?c)) (replicate BT_MESH_RX_SDU_MAX 0))"
    by simp
  from sdu_decrypt_segments[OF tc_example_ok k b(1-3) b'(1) h sdu] b'(1) b(5) show ?thesis by auto
qed

end
