(* ===== verification/Net_Frame.thy ===== *)
theory Net_Frame
  imports Net_Iv
begin

text \<open>
  What the network layer leaves alone: counting sequence numbers and the IV update procedure touch neither the buffers
  of the advertising bearer nor any state above the network layer, and \<^verbatim>\<open>bt_mesh_net_send\<close> either queues a buffer or
  gives it back.
\<close>

definition net_rest where
  "net_rest s = (net_state.more s, adv_used s, adv_mem s, adv_queue s, adv_current s, flags s BT_MESH_SUSPENDED)"

named_theorems net_rest_keep

lemma schedule_store_rest: "f \<noteq> BT_MESH_SUSPENDED \<Longrightarrow> net_rest (schedule_store f s) = net_rest s"
  by (simp add: net_rest_def schedule_store_def set_flag_def Let_def)

lemma stores_rest [net_rest_keep]:
  "net_rest (bt_mesh_store_iv d s) = net_rest s" "net_rest (bt_mesh_store_seq q s) = net_rest s"
  "net_rest (bt_mesh_rpl_clear s) = net_rest s" "net_rest (peer_call c s) = net_rest s"
  "net_rest (bt_mesh_beacon_ivu_initiator e s) = net_rest s"
  "f \<noteq> BT_MESH_SUSPENDED \<Longrightarrow> net_rest (set_flag_to f e s) = net_rest s"
  "f \<noteq> BT_MESH_SUSPENDED \<Longrightarrow> net_rest (set_flag f s) = net_rest s"
  by (simp_all add: bt_mesh_store_iv_def bt_mesh_store_seq_def bt_mesh_rpl_clear_def bt_mesh_clear_rpl_def Let_def
      schedule_store_rest)
     (simp_all add: net_rest_def peer_call_def bt_mesh_beacon_ivu_initiator_def set_flag_to_def set_flag_def Let_def)

lemma fields_rest [net_rest_keep]:
  "net_rest (s\<lparr>bm_iv_index := a\<rparr>) = net_rest s" "net_rest (s\<lparr>bm_seq := a\<rparr>) = net_rest s"
  "net_rest (s\<lparr>bm_ivu_duration := b\<rparr>) = net_rest s" "net_rest (s\<lparr>ivu_timer := t\<rparr>) = net_rest s"
  "net_rest (s\<lparr>replay_list := r\<rparr>) = net_rest s"
  by (simp_all add: net_rest_def)

lemma rpl_reset_rest [net_rest_keep]: "net_rest (bt_mesh_rpl_reset s) = net_rest s"
proof -
  have "net_rest (rpl_reset_loop n i s) = net_rest s" for n i and s :: "'a net_state_scheme"
    by (induction n arbitrary: i s) (simp_all add: bt_mesh_store_rpl_def schedule_store_rest fields_rest)
  then show ?thesis by (simp add: bt_mesh_rpl_reset_def)
qed

lemma beacon_update_rest: "net_rest (bt_mesh_beacon_update tc i s) = net_rest s"
  by (simp add: bt_mesh_beacon_update_def Let_def net_rest_def upd_sub_def split: sum.split)

lemma foreach_beacon_rest [net_rest_keep]:
  "net_rest (snd (bt_mesh_subnet_foreach (bt_mesh_beacon_update tc) s)) = net_rest s"
proof -
  have "net_rest (snd (fold (\<lambda>i (n, s). if sub_net_idx (subnets s ! i) = BT_MESH_KEY_UNUSED then (n, s)
      else (n + 1, bt_mesh_beacon_update tc i s)) l ns)) = net_rest (snd ns)" for l and ns :: "nat \<times> 'a net_state_scheme"
    by (induction l arbitrary: ns) (auto simp: beacon_update_rest split: prod.split)
  then show ?thesis by (simp add: bt_mesh_subnet_foreach_def)
qed

lemma iv_do_update_rest [net_rest_keep]: "net_rest (iv_do_update env iv u s) = net_rest s"
  unfolding iv_do_update_def Let_def by (simp add: net_rest_keep)

lemma iv_update_rest [net_rest_keep]: "net_rest (snd (bt_mesh_net_iv_update env iv u s)) = net_rest s"
  by (simp add: bt_mesh_net_iv_update_def Let_def net_rest_keep)

lemma next_seq_rest [net_rest_keep]: "net_rest (snd (bt_mesh_next_seq env s)) = net_rest s"
  by (simp add: bt_mesh_next_seq_def Let_def net_rest_keep)

section \<open>Sending to another node\<close>

lemma unicast_not_fixed: "BT_MESH_ADDR_IS_UNICAST a \<Longrightarrow> \<not> bt_mesh_fixed_group_match env a s"
  by (auto simp: BT_MESH_ADDR_IS_UNICAST_def bt_mesh_fixed_group_match_def)

lemma unref_rest: "net_rest s = net_rest s' \<Longrightarrow> net_rest (net_buf_unref s) = net_rest (net_buf_unref s')"
  by (simp add: net_rest_def net_buf_unref_def)

lemma adv_send_rest: "net_rest s = net_rest s' \<Longrightarrow> net_rest (bt_mesh_adv_send b cb s) = net_rest (bt_mesh_adv_send b cb s')"
  by (simp add: net_rest_def bt_mesh_adv_send_def)

text \<open>With a TTL of 1 nothing leaves the node, and the caller gets an error.\<close>

lemma net_send_ttl_1:
  assumes b: "nb_invar (ab_b buf)" "9 \<le> net_buf_simple_headroom (ab_b buf)"
    and dst: "BT_MESH_ADDR_IS_UNICAST (ctx_addr (tx_ctx tx))" "\<not> ne_elem_find env (ctx_addr (tx_ctx tx))"
    and ttl: "ctx_send_ttl (tx_ctx tx) = 1"
  obtains s' where "bt_mesh_net_send env tx buf cb s = Some (Some EINVAL, s')" "net_rest s' = net_rest (net_buf_unref s)"
proof -
  let ?tx = "tx\<lparr>tx_friend_cred := False\<rparr>" and ?s1 = "snd (bt_mesh_next_seq env s)"
  obtain cred where g: "net_tx_cred_get tx s = (cred, ?tx)" by (simp add: net_tx_cred_get_def Let_def)
  show ?thesis
  proof (cases "(if ctx_app_idx (tx_ctx tx) = BT_MESH_KEY_UNUSED then 8 else 4) \<le> net_buf_simple_tailroom (ab_b buf)")
    case True
    from net_header_encode_eq[OF b, of ?tx env "nc_nid cred" s] True obtain b1 where
      "net_header_encode env ?tx (nc_nid cred) (ab_b buf) s = Some (Inr b1, ?s1)" by auto
    then have "bt_mesh_net_send env tx buf cb s = Some (Some EINVAL, net_buf_unref ?s1)"
      using dst ttl by (simp add: bt_mesh_net_send_def g net_send_out_def Let_def unicast_not_fixed)
    then show ?thesis by (rule that) (rule unref_rest, simp add: net_rest_keep)
  next
    case False
    then have "net_header_encode env ?tx (nc_nid cred) (ab_b buf) s = Some (Inl EINVAL, s)"
      by (auto simp: net_header_encode_def Let_def split: if_splits)
    then have "bt_mesh_net_send env tx buf cb s = Some (Some EINVAL, net_buf_unref s)"
      by (simp add: bt_mesh_net_send_def g)
    then show ?thesis by (rule that) simp
  qed
qed

text \<open>Any other PDU for another node is sealed and queued for the advertising bearer.\<close>

lemma net_send_queues:
  assumes ok: "tinycrypt_ok (ne_tc env)" "cred_ok cred" "cred = fst (net_tx_cred_get tx s)"
    and b: "nb_invar (ab_b buf)" "9 \<le> net_buf_simple_headroom (ab_b buf)" "1 \<le> length (nb_data (ab_b buf))" "length (nb_data (ab_b buf)) < 240"
    and room: "(if ctx_app_idx (tx_ctx tx) = BT_MESH_KEY_UNUSED then 8 else 4) \<le> net_buf_simple_tailroom (ab_b buf)"
    and ttl: "ctx_send_ttl (tx_ctx tx) < 0x80" "ctx_send_ttl (tx_ctx tx) \<noteq> 1"
    and dst: "BT_MESH_ADDR_IS_UNICAST (ctx_addr (tx_ctx tx))" "\<not> ne_elem_find env (ctx_addr (tx_ctx tx))"
    and np: "\<not> ne_gatt_proxy env"
    and s1: "s1 = snd (bt_mesh_next_seq env s)"
    and d: "d = net_hdr (nc_nid cred) (bit (BT_MESH_NET_IVI_TX s1) 0) (ctx_app_idx (tx_ctx tx) = BT_MESH_KEY_UNUSED)
      (ctx_send_ttl (tx_ctx tx)) (bm_seq s) (tx_src tx) (ctx_addr (tx_ctx tx)) @ nb_data (ab_b buf)"
  obtains b' where "bt_mesh_net_send env tx buf cb s = Some (None, bt_mesh_adv_send (buf\<lparr>ab_b := b'\<rparr>) cb s1)"
    "net_sealed (ne_tc env) cred (BT_MESH_NET_IVI_TX s1) False d (nb_data b')"
proof -
  let ?tx = "tx\<lparr>tx_friend_cred := False\<rparr>"
  have g: "net_tx_cred_get tx s = (cred, ?tx)" by (simp add: ok(3) net_tx_cred_get_def Let_def)
  from net_header_encode_eq[OF b(1,2), of ?tx env "nc_nid cred" s] room obtain b1 where
    b1: "net_header_encode env ?tx (nc_nid cred) (ab_b buf) s = Some (Inr b1, s1)" "nb_invar b1" "nb_data b1 = d"
      "net_buf_simple_tailroom b1 = net_buf_simple_tailroom (ab_b buf)" by (auto simp: s1 d)
  have "NET_MIC_LEN d \<le> net_buf_simple_tailroom b1" using room by (simp add: d NET_MIC_LEN_hdr[OF ttl(1)] b1(4))
  from net_encrypt_seals[OF ok(1,2) b1(2,3) _ _ this, of "BT_MESH_NET_IVI_TX s1" False] b(3,4) obtain b2 where
    b2: "net_encrypt (ne_tc env) b1 cred (BT_MESH_NET_IVI_TX s1) False = Some (Inr b2)"
      "net_sealed (ne_tc env) cred (BT_MESH_NET_IVI_TX s1) False d (nb_data b2)" by (auto simp: d)
  have "bt_mesh_net_send env tx buf cb s = Some (None, bt_mesh_adv_send (buf\<lparr>ab_b := b2\<rparr>) cb s1)"
    using dst ttl np b1(1) b2(1)
    by (simp add: bt_mesh_net_send_def g net_send_out_def Let_def unicast_not_fixed)
  then show ?thesis by (rule that) (rule b2(2))
qed

end
