(* ===== verification/Transport_Tx.thy ===== *)
theory Transport_Tx
  imports Transport_Seg Net_Frame
begin

text \<open>
  The sending side of segmented messages: what \<^verbatim>\<open>send_seg\<close> stores in a slot, how far it may write, what an
  acknowledgement releases, and a message whose transmission does not end.
\<close>

section \<open>Taking a message apart\<close>

definition seg_pieces :: "bool \<Rightarrow> bytes \<Rightarrow> bytes list" where
  "seg_pieces ctl sdu = map (seg_chunk ctl sdu) [0..<(if sdu = [] then 0 else Suc (seg_last ctl sdu))]"

lemma seg_pieces_Nil [simp]: "seg_pieces ctl [] = []"
  by (simp add: seg_pieces_def)

lemma seg_last_drop:
  assumes "drop (seg_len ctl) sdu \<noteq> []"
  shows "seg_last ctl sdu = Suc (seg_last ctl (drop (seg_len ctl) sdu))"
proof -
  from assms have l: "seg_len ctl < length sdu" by simp
  then have "length sdu - 1 = (length sdu - seg_len ctl - 1) + seg_len ctl" by simp
  then have "(length sdu - 1) div seg_len ctl = ((length sdu - seg_len ctl - 1) + seg_len ctl) div seg_len ctl" by (simp only:)
  also have "\<dots> = Suc ((length sdu - seg_len ctl - 1) div seg_len ctl)" using seg_len_pos[of ctl] by (simp add: div_add_self2)
  finally show ?thesis by (simp add: seg_last_def)
qed

lemma seg_pieces_step:
  assumes "sdu \<noteq> []"
  shows "seg_pieces ctl sdu = take (seg_len ctl) sdu # seg_pieces ctl (drop (seg_len ctl) sdu)"
proof -
  have c: "seg_chunk ctl sdu (Suc k) = seg_chunk ctl (drop (seg_len ctl) sdu) k" for k by (simp add: seg_chunk_def add.commute)
  have 0: "seg_chunk ctl sdu 0 = take (seg_len ctl) sdu" by (simp add: seg_chunk_def)
  show ?thesis
  proof (cases "drop (seg_len ctl) sdu = []")
    case True
    then have "length sdu - 1 < seg_len ctl" using assms by (cases sdu) simp_all
    then have "seg_last ctl sdu = 0" by (simp add: seg_last_def)
    then show ?thesis using assms True 0 by (simp add: seg_pieces_def)
  next
    case False
    have "seg_pieces ctl sdu = map (seg_chunk ctl sdu) (0 # map Suc [0..<Suc (seg_last ctl (drop (seg_len ctl) sdu))])"
      using assms seg_last_drop[OF False] by (simp add: seg_pieces_def map_Suc_upt upt_conv_Cons del: upt_Suc)
    also have "\<dots> = take (seg_len ctl) sdu # seg_pieces ctl (drop (seg_len ctl) sdu)"
      using False by (simp only: seg_pieces_def if_False list.map 0 map_map comp_def c)
    finally show ?thesis .
  qed
qed

declare send_seg_loop.simps [simp del]

definition tx_fill :: "nat \<Rightarrow> nat \<Rightarrow> bytes list \<Rightarrow> 'a trans_state_scheme \<Rightarrow> 'a trans_state_scheme" where
  "tx_fill i n cs s =
     upd_tx i (\<lambda>tx. tx\<lparr>st_seg := mem_put n (map Some cs) (st_seg tx)\<rparr>) (s\<lparr>segs_used := segs_used s + length cs\<rparr>)"

lemma mem_put_Cons:
  assumes "n < length xs"
  shows "mem_put (Suc n) bs (xs[n := b]) = mem_put n (b # bs) xs"
  using assms by (simp add: mem_put_def take_Suc_conv_app_nth take_update_swap[symmetric] drop_update_cancel)

lemma send_seg_loop_eq:
  assumes "\<not> te_friend env" "i < length (seg_txs s)"
    "segs_used s + length (seg_pieces ctl data) \<le> CONFIG_BT_MESH_SEG_BUFS" "n \<le> length (st_seg (seg_txs s ! i))"
    "ctl = (ctl_op \<noteq> None)"
  shows "send_seg_loop env i net_tx ctl_op data n s =
    (if n + length (seg_pieces ctl data) \<le> length (st_seg (seg_txs s ! i))
     then Some (None, tx_fill i n (seg_pieces ctl data) s) else None)"
  using assms
proof (induction "length data" arbitrary: data n s rule: less_induct)
  case less
  show ?case
  proof (cases "data = []")
    case True
    then show ?thesis using less.prems(2,4) by (subst send_seg_loop.simps) (simp add: tx_fill_def upd_tx_def mem_put_def)
  next
    case False
    let ?d = "drop (seg_len ctl) data"
    have p: "seg_pieces ctl data = take (seg_len ctl) data # seg_pieces ctl ?d" by (rule seg_pieces_step[OF False])
    have t: "take (min (length data) (seg_len ctl)) data = take (seg_len ctl) data"
      "drop (min (length data) (seg_len ctl)) data = ?d" by (simp_all add: min_def)
    have a: "segs_alloc s = Some (s\<lparr>segs_used := segs_used s + 1\<rparr>)" using less.prems(3) p by (simp add: segs_alloc_def)
    show ?thesis
    proof (cases "n < length (st_seg (seg_txs s ! i))")
      case True
      let ?s = "upd_tx i (\<lambda>tx. tx\<lparr>st_seg := (st_seg tx)[n := Some (take (seg_len ctl) data)]\<rparr>) (s\<lparr>segs_used := segs_used s + 1\<rparr>)"
      have l: "length ?d < length data" using False seg_len_pos[of ctl] by (cases data) auto
      have "send_seg_loop env i net_tx ctl_op data n s = send_seg_loop env i net_tx ctl_op ?d (Suc n) ?s"
        using False True less.prems(1) a t less.prems(5)[symmetric] by (subst send_seg_loop.simps) (simp add: Let_def upd_tx_def del: not_None_eq)
      also have "\<dots> = (if Suc n + length (seg_pieces ctl ?d) \<le> length (st_seg (seg_txs ?s ! i))
          then Some (None, tx_fill i (Suc n) (seg_pieces ctl ?d) ?s) else None)"
        by (rule less.hyps[OF l less.prems(1)]) (use less.prems True p in \<open>simp_all add: upd_tx_def\<close>)
      also have "tx_fill i (Suc n) (seg_pieces ctl ?d) ?s = tx_fill i n (seg_pieces ctl data) s"
        using True less.prems(2) by (simp add: p tx_fill_def upd_tx_def mem_put_Cons)
      finally show ?thesis using less.prems(2) p by (simp add: upd_tx_def)
    next
      case False': False
      then show ?thesis using False a p less.prems(2) less.prems(5)[symmetric] by (subst send_seg_loop.simps) (simp add: Let_def del: not_None_eq)
    qed
  qed
qed

lemma length_seg_pieces: "sdu \<noteq> [] \<Longrightarrow> length (seg_pieces ctl sdu) = Suc (seg_last ctl sdu)"
  by (simp add: seg_pieces_def)

lemma nth_seg_pieces: "sdu \<noteq> [] \<Longrightarrow> k \<le> seg_last ctl sdu \<Longrightarrow> seg_pieces ctl sdu ! k = seg_chunk ctl sdu k"
  by (simp add: seg_pieces_def nth_append less_Suc_eq_le)

lemma length_seg_chunk_le: "length (seg_chunk ctl sdu k) \<le> 12"
  by (simp add: length_seg_chunk seg_len_def BT_MESH_APP_SEG_SDU_MAX_def BT_MESH_CTL_SEG_SDU_MAX_def min_le_iff_disj)

text \<open>C22: segmentation. \<^verbatim>\<open>send_seg\<close> without a Friend queue takes a message apart into pieces of 12 octets (8 for
  control messages); the slot then has all of them, counts them as not acknowledged, and the PDU that
  \<^verbatim>\<open>seg_tx_buf_build\<close> makes of segment \<open>k\<close> is its header followed by piece \<open>k\<close>. This is so as long as there are no more
  than \<^verbatim>\<open>CONFIG_BT_MESH_TX_SEG_MAX\<close> pieces: a longer message is written past the end of the array of segments.\<close>

theorem send_seg_segments:
  assumes nf: "\<not> te_friend env" and i: "i < length (seg_txs s)" "length (st_seg (seg_txs s ! i)) = CONFIG_BT_MESH_TX_SEG_MAX"
    and sdu: "sdu \<noteq> []" "length sdu < 1024" and room: "segs_used s + seg_last ctl sdu < CONFIG_BT_MESH_SEG_BUFS"
    and ctl: "ctl = (ctl_op \<noteq> None)"
    and s0: "s0 = upd_tx i (send_seg_init net_tx (length sdu) cb ctl_op blocked s) s"
  shows "if seg_last ctl sdu < CONFIG_BT_MESH_TX_SEG_MAX
    then \<exists>s'. send_seg_loop env i net_tx ctl_op sdu 0 s0 = Some (None, s') \<and>
      segs_used s' = segs_used s + seg_last ctl sdu + 1 \<and>
      unat (st_nack_count (seg_txs s' ! i)) = seg_last ctl sdu + 1 \<and>
      st_seg_n (seg_txs s' ! i) = of_nat (seg_last ctl sdu) \<and>
      st_seq_auth (seg_txs s' ! i) = SEQ_AUTH (BT_MESH_NET_IVI_TX s) (bm_seq s) \<and>
      (\<forall>k buf. k \<le> seg_last ctl sdu \<and> nb_invar buf \<and> 16 \<le> net_buf_simple_tailroom buf \<longrightarrow>
        (\<exists>b. seg_tx_buf_build (seg_txs s' ! i) k buf = Some b \<and> nb_invar b \<and>
          nb_data b = nb_data buf @ seg_octets (seg_txs s' ! i) k @ seg_chunk ctl sdu k))
    else send_seg_loop env i net_tx ctl_op sdu 0 s0 = None"
proof -
  let ?tx = "send_seg_init net_tx (length sdu) cb ctl_op blocked s (seg_txs s ! i)"
  have s0': "seg_txs s0 ! i = ?tx" "i < length (seg_txs s0)" "segs_used s0 = segs_used s"
    using i(1) by (simp_all add: s0 upd_tx_def)
  have tx: "st_seg ?tx = st_seg (seg_txs s ! i)" "st_seg_n ?tx = of_nat (seg_last ctl sdu)" "st_ctl ?tx = ctl"
    "st_len ?tx = of_nat (length sdu)" "st_nack_count ?tx = of_nat (seg_last ctl sdu) + 1"
    "st_seq_auth ?tx = SEQ_AUTH (BT_MESH_NET_IVI_TX s) (bm_seq s)"
    using ctl by (simp_all add: send_seg_init_def Let_def seg_last_def del: not_None_eq)
  note eq = send_seg_loop_eq[OF nf s0'(2) _ _ ctl, of sdu 0 net_tx]
  have e: "send_seg_loop env i net_tx ctl_op sdu 0 s0 =
    (if seg_last ctl sdu < CONFIG_BT_MESH_TX_SEG_MAX then Some (None, tx_fill i 0 (seg_pieces ctl sdu) s0) else None)"
    using eq room s0' tx(1) i(2) by (simp add: length_seg_pieces[OF sdu(1)] Suc_le_eq)
  show ?thesis
  proof (cases "seg_last ctl sdu < CONFIG_BT_MESH_TX_SEG_MAX")
    case True
    then have lt: "seg_last ctl sdu < 6" by (simp add: CONFIG_BT_MESH_TX_SEG_MAX_def)
    define s' where "s' = tx_fill i 0 (seg_pieces ctl sdu) s0"
    have st: "seg_txs s' ! i = ?tx\<lparr>st_seg := map Some (seg_pieces ctl sdu) @ drop (Suc (seg_last ctl sdu)) (st_seg (seg_txs s ! i))\<rparr>"
      using s0' tx(1) by (simp add: s'_def tx_fill_def upd_tx_def mem_put_def length_seg_pieces[OF sdu(1)])
    have "\<exists>b. seg_tx_buf_build (seg_txs s' ! i) k buf = Some b \<and> nb_invar b \<and>
          nb_data b = nb_data buf @ seg_octets (seg_txs s' ! i) k @ seg_chunk ctl sdu k"
      if k: "k \<le> seg_last ctl sdu" and b: "nb_invar buf" "16 \<le> net_buf_simple_tailroom buf" for k buf
    proof -
      have len: "unat (of_nat (length sdu) :: u16) = length sdu" using sdu(2) by (simp add: unat_of_nat)
      have g: "st_seg (seg_txs s' ! i) ! k = Some (seg_chunk ctl sdu k)" "k < length (st_seg (seg_txs s' ! i))"
        using k sdu(1) by (simp_all add: st nth_append length_seg_pieces nth_seg_pieces less_Suc_eq_le)
      have n: "length (seg_chunk ctl sdu k) = min (seg_len (st_ctl (seg_txs s' ! i)))
          (unat (st_len (seg_txs s' ! i)) - seg_len (st_ctl (seg_txs s' ! i)) * k)"
        using tx(3,4) len by (simp add: st length_seg_chunk mult.commute)
      have "4 + length (seg_chunk ctl sdu k) \<le> net_buf_simple_tailroom buf" using b(2) length_seg_chunk_le[of ctl sdu k] by linarith
      from seg_tx_buf_build_data[OF b(1) g(2,1) n _ this] show ?thesis by auto
    qed
    moreover have "segs_used s' = segs_used s + seg_last ctl sdu + 1"
      by (simp add: s'_def tx_fill_def upd_tx_def s0'(3) length_seg_pieces[OF sdu(1)])
    moreover have "unat (st_nack_count (seg_txs s' ! i)) = seg_last ctl sdu + 1"
    proof -
      have "st_nack_count (seg_txs s' ! i) = of_nat (seg_last ctl sdu + 1)" using tx(5) by (simp add: st)
      then show ?thesis using lt by (simp only: unat_of_nat) simp
    qed
    ultimately show ?thesis unfolding if_P[OF True] e using tx(2,6) st s'_def by auto
  next
    case False
    then show ?thesis using e by simp
  qed
qed

lemma send_seg_overflow:
  assumes nf: "\<not> te_friend env" and slot: "find_idx (\<lambda>t. st_nack_count t = 0) (seg_txs s) = Some i"
    and seg: "length (st_seg (seg_txs s ! i)) = CONFIG_BT_MESH_TX_SEG_MAX"
    and len: "BT_MESH_TX_SDU_MAX < length sdu" "length sdu \<le> BT_MESH_TX_SDU_MAX + 12"
    and room: "segs_used s + 7 \<le> CONFIG_BT_MESH_SEG_BUFS"
  shows "send_seg env tx sdu cb None s = None"
proof -
  from find_idx_SomeD[OF slot] have i: "i < length (seg_txs s)" by blast
  obtain blocked where b: "send_seg_slot (tx_src tx) (ctx_addr (tx_ctx tx)) (seg_txs s) = (Some i, blocked)"
    using slot by (simp add: send_seg_slot_def)
  define s0 where "s0 = upd_tx i (send_seg_init tx (length sdu) cb None blocked s) s"
  have l: "72 < length sdu" "length sdu \<le> 84"
    using len by (simp_all add: BT_MESH_TX_SDU_MAX_def CONFIG_BT_MESH_TX_SEG_MAX_def BT_MESH_APP_SEG_SDU_MAX_def)
  have last: "seg_last False sdu = 6"
  proof -
    have "(length sdu - 1) div 12 = 6" using l by (intro div_nat_eqI) simp_all
    then show ?thesis by (simp add: seg_last_def seg_len_def BT_MESH_APP_SEG_SDU_MAX_def)
  qed
  have ne: "sdu \<noteq> []" using l by auto
  have p: "length (seg_pieces False sdu) = 7" using length_seg_pieces[OF ne] last by simp
  have "send_seg_loop env i tx None sdu 0 s0 =
    (if 0 + length (seg_pieces False sdu) \<le> length (st_seg (seg_txs s0 ! i)) then Some (None, tx_fill i 0 (seg_pieces False sdu) s0) else None)"
    by (rule send_seg_loop_eq[OF nf]) (use i room p in \<open>simp_all add: s0_def upd_tx_def\<close>)
  moreover have "length (st_seg (seg_txs s0 ! i)) = 6"
    using i seg by (simp add: s0_def upd_tx_def send_seg_init_def Let_def CONFIG_BT_MESH_TX_SEG_MAX_def)
  ultimately have "send_seg_loop env i tx None sdu 0 s0 = None" using p by simp
  then show ?thesis using b nf by (simp add: send_seg_def Let_def s0_def)
qed

lemma trans_encrypt_length:
  assumes "tinycrypt_ok (te_tc env)" "length key = 16" "nb_invar msg" "nb_len msg < 256"
    "APP_MIC_LEN (tx_aszmic tx) \<le> net_buf_simple_tailroom msg"
  obtains b' where "trans_encrypt env tx key msg s = Some (Inr b')"
    "length (nb_data b') = nb_len msg + APP_MIC_LEN (tx_aszmic tx)"
proof -
  define c where "c = \<lparr>ac_dev_key = BT_MESH_IS_DEV_KEY (ctx_app_idx (tx_ctx tx)), ac_aszmic = tx_aszmic tx, ac_src = tx_src tx,
         ac_dst = ctx_addr (tx_ctx tx), ac_seq_num = bm_seq s, ac_iv_index = BT_MESH_NET_IVI_TX s,
         ac_ad = (if BT_MESH_ADDR_IS_VIRTUAL (ctx_addr (tx_ctx tx)) then bt_mesh_va_label_get (ctx_addr (tx_ctx tx)) s else None)\<rparr>"
  have c: "ac_aszmic c = tx_aszmic tx" by (simp add: c_def)
  have l: "length (nb_data msg) < 256" using length_nb_data[OF assms(3)] assms(4) by simp
  have t: "trans_encrypt env tx key msg s = bt_mesh_app_encrypt (te_tc env) key c msg"
    by (simp add: trans_encrypt_def Let_def c_def)
  from app_encrypt_data[OF assms(1-3) refl l, of c] assms(5) c obtain b' where
    "bt_mesh_app_encrypt (te_tc env) key c msg = Some (Inr b')"
    "nb_data b' = ctr_crypt (te_tc env) key (create_app_nonce c) (nb_data msg) @ app_mic (te_tc env) key c (nb_data msg)" by auto
  then show ?thesis using that[of b'] t c length_nb_data[OF assms(3)] by simp
qed

text \<open>C25: the length check of \<^verbatim>\<open>bt_mesh_trans_send\<close> does not protect the array of segments. A message is compared
  with \<^verbatim>\<open>BT_MESH_TX_SDU_MAX\<close> before the MIC is added: one that passes the check but is longer than that with its MIC
  needs a seventh segment, which \<^verbatim>\<open>send_seg\<close> writes behind the six pointers of the slot.\<close>

theorem trans_send_overflow:
  assumes ok: "tinycrypt_ok (te_tc env)" and nf: "\<not> te_friend env" and msg: "nb_invar msg"
    and len: "nb_len msg \<le> BT_MESH_TX_SDU_MAX" and tail: "4 \<le> net_buf_simple_tailroom msg"
    and mic: "BT_MESH_TX_SDU_MAX < nb_len msg + APP_MIC_LEN (8 \<le> net_buf_simple_tailroom msg)"
    and ttl: "trans_send_ttl (ctx_send_ttl (tx_ctx tx)) s = Some ttl"
    and dst: "BT_MESH_ADDR_IS_UNICAST (ctx_addr (tx_ctx tx))" "ctx_addr (tx_ctx tx) \<noteq> BT_MESH_ADDR_UNASSIGNED"
    and key: "bt_mesh_keys_resolve (ne_elem_find (te_net env)) (te_cdb_dev_key env)
      ((tx_ctx tx)\<lparr>ctx_send_ttl := ttl, ctx_send_rel := True\<rparr>) s = Inr (sub, key, aid)" "length key = 16"
    and slot: "find_idx (\<lambda>t. st_nack_count t = 0) (seg_txs s) = Some i"
    and seg: "length (st_seg (seg_txs s ! i)) = CONFIG_BT_MESH_TX_SEG_MAX" and room: "segs_used s + 7 \<le> CONFIG_BT_MESH_SEG_BUFS"
  shows "bt_mesh_trans_send env tx msg cb s = None"
proof -
  have l: "64 < nb_len msg" "nb_len msg \<le> 72"
    using len mic by (auto simp: BT_MESH_TX_SDU_MAX_def CONFIG_BT_MESH_TX_SEG_MAX_def BT_MESH_APP_SEG_SDU_MAX_def APP_MIC_LEN_def split: if_splits)
  let ?tx = "tx\<lparr>tx_ctx := (tx_ctx tx)\<lparr>ctx_send_ttl := ttl, ctx_send_rel := True\<rparr>, tx_sub := sub,
      tx_xmit := bt_mesh_net_transmit_get s, tx_aid := aid, tx_aszmic := 8 \<le> net_buf_simple_tailroom msg\<rparr>"
  obtain b' where b': "trans_encrypt env ?tx key msg s = Some (Inr b')"
    "length (nb_data b') = nb_len msg + APP_MIC_LEN (8 \<le> net_buf_simple_tailroom msg)"
    by (rule trans_encrypt_length[OF ok key(2) msg, of ?tx s]) (use l tail in \<open>simp_all add: APP_MIC_LEN_def\<close>)
  have "send_seg env ?tx (nb_data b') cb None s = None"
    by (rule send_seg_overflow[OF nf slot seg])
       (use b'(2) mic len room in \<open>simp_all add: APP_MIC_LEN_def split: if_splits\<close>)
  then show ?thesis using l tail ttl dst key(1) b'(1) len
    by (simp add: bt_mesh_trans_send_def Let_def BT_MESH_SDU_UNSEG_MAX_def not_less)
qed

section \<open>Transmission\<close>

lemma net_rest_trans:
  assumes "net_rest s = net_rest s'"
  shows "seg_txs s = seg_txs s'" "seg_rxs s = seg_rxs s'" "segs_used s = segs_used s'" "virtual_addrs s = virtual_addrs s'"
    "net_rest (upd_tx i f s) = net_rest (upd_tx i f s')" "adv_mem s = adv_mem s'"
  using assms by (cases s; cases s'; simp add: net_rest_def upd_tx_def)+

text \<open>What \<^verbatim>\<open>send_seg\<close> makes of a slot: the blocks are as long as \<^verbatim>\<open>seg_tx_buf_build\<close> expects.\<close>

definition tx_slot_ok :: "seg_tx \<Rightarrow> bool" where
  "tx_slot_ok tx \<longleftrightarrow>
     length (st_seg tx) = CONFIG_BT_MESH_TX_SEG_MAX \<and> unat (st_seg_n tx) < CONFIG_BT_MESH_TX_SEG_MAX \<and>
     (\<forall>k < CONFIG_BT_MESH_TX_SEG_MAX. \<forall>blk. st_seg tx ! k = Some blk \<longrightarrow>
        k \<le> unat (st_seg_n tx) \<and> length blk = min (seg_len (st_ctl tx)) (unat (st_len tx) - seg_len (st_ctl tx) * k))"

text \<open>The buffer of one segment.\<close>

lemma seg_buf_built:
  assumes ok: "tx_slot_ok tx" and k: "k < CONFIG_BT_MESH_TX_SEG_MAX" "st_seg tx ! k = Some blk"
    and mem: "length m = BT_MESH_ADV_DATA_SIZE"
  obtains b0 b where "net_buf_simple_reserve (NET_BUF_SIMPLE_DEFINE m) BT_MESH_NET_HDR_LEN = Some b0"
    "seg_tx_buf_build tx k b0 = Some b" "nb_invar b" "nb_data b = seg_octets tx k @ blk"
    "net_buf_simple_headroom b = 9" "net_buf_simple_tailroom b = 16 - length blk"
proof -
  let ?b0 = "\<lparr>nb_store = m, nb_off = 9, nb_len = 0\<rparr>"
  have l: "length m = 29" using mem by (simp add: BT_MESH_ADV_DATA_SIZE_def)
  have r: "net_buf_simple_reserve (NET_BUF_SIMPLE_DEFINE m) BT_MESH_NET_HDR_LEN = Some ?b0"
    by (simp add: net_buf_simple_reserve_def NET_BUF_SIMPLE_DEFINE_def BT_MESH_NET_HDR_LEN_def)
  have b0: "nb_invar ?b0" "nb_data ?b0 = []" "net_buf_simple_tailroom ?b0 = 20"
    using l by (simp_all add: nb_basic_defs)
  have n: "length blk = min (seg_len (st_ctl tx)) (unat (st_len tx) - seg_len (st_ctl tx) * k)" "k < length (st_seg tx)"
    using ok k by (auto simp: tx_slot_ok_def)
  have "length blk \<le> 12" using n(1) by (simp add: seg_len_def BT_MESH_APP_SEG_SDU_MAX_def BT_MESH_CTL_SEG_SDU_MAX_def min_def split: if_splits)
  with seg_tx_buf_build_data[OF b0(1) n(2) k(2) n(1)] b0 obtain b where
    b: "seg_tx_buf_build tx k ?b0 = Some b" "nb_invar b" "nb_data b = seg_octets tx k @ blk"
      "net_buf_simple_headroom b = 9" "net_buf_simple_tailroom b + 4 + length blk = 20"
    by (auto simp: net_buf_simple_headroom_def)
  show ?thesis by (rule that[OF r b(1-4)]) (use b(5) in simp)
qed

text \<open>Segments that are not there are skipped.\<close>

lemma send_loop_skip:
  assumes "i < length (seg_txs s)" "length (st_seg (seg_txs s ! i)) = CONFIG_BT_MESH_TX_SEG_MAX"
    "unat (st_seg_o (seg_txs s ! i)) + n < CONFIG_BT_MESH_TX_SEG_MAX"
    "unat (st_seg_o (seg_txs s ! i)) + n \<le> unat (st_seg_n (seg_txs s ! i)) + 1"
    "\<forall>j < n. st_seg (seg_txs s ! i) ! (unat (st_seg_o (seg_txs s ! i)) + j) = None"
  shows "seg_tx_send_loop env i net_tx s =
    seg_tx_send_loop env i net_tx (upd_tx i (\<lambda>tx. tx\<lparr>st_seg_o := st_seg_o tx + of_nat n\<rparr>) s)"
  using assms
proof (induction n arbitrary: s)
  case 0
  then show ?case by (simp add: upd_tx_def)
next
  case (Suc n)
  let ?tx = "seg_txs s ! i" and ?s = "upd_tx i (\<lambda>tx. tx\<lparr>st_seg_o := st_seg_o tx + 1\<rparr>) s"
  have c: "CONFIG_BT_MESH_TX_SEG_MAX = 6" by (simp add: CONFIG_BT_MESH_TX_SEG_MAX_def)
  have o: "unat (st_seg_o ?tx + 1) = unat (st_seg_o ?tx) + 1" using Suc.prems(3) c by (simp add: unat_word_ariths)
  have le: "\<not> st_seg_o ?tx > st_seg_n ?tx" using Suc.prems(4) by (simp add: word_less_nat_alt)
  have 1: "seg_tx_send_loop env i net_tx s = seg_tx_send_loop env i net_tx ?s"
    using le Suc.prems(2,3,5)[unfolded c] by (subst seg_tx_send_loop.simps) (auto simp: Let_def)
  have e: "seg_txs ?s ! i = ?tx\<lparr>st_seg_o := st_seg_o ?tx + 1\<rparr>" "i < length (seg_txs ?s)" using Suc.prems(1) by (simp_all add: upd_tx_def)
  have sk: "\<forall>j < n. st_seg (seg_txs ?s ! i) ! (unat (st_seg_o (seg_txs ?s ! i)) + j) = None"
  proof (intro allI impI)
    fix j assume "j < n"
    then show "st_seg (seg_txs ?s ! i) ! (unat (st_seg_o (seg_txs ?s ! i)) + j) = None"
      using Suc.prems(5)[rule_format, of "Suc j"] e(1) o by simp
  qed
  have "seg_tx_send_loop env i net_tx ?s =
    seg_tx_send_loop env i net_tx (upd_tx i (\<lambda>tx. tx\<lparr>st_seg_o := st_seg_o tx + of_nat n\<rparr>) ?s)"
    by (rule Suc.IH[OF e(2)]) (use Suc.prems(2-4) e(1) o sk in simp_all)
  also have "upd_tx i (\<lambda>tx. tx\<lparr>st_seg_o := st_seg_o tx + of_nat n\<rparr>) ?s = upd_tx i (\<lambda>tx. tx\<lparr>st_seg_o := st_seg_o tx + of_nat (Suc n)\<rparr>) s"
    using Suc.prems(1) by (simp add: upd_tx_def add.assoc)
  finally show ?case using 1 by simp
qed

text \<open>A slot whose message has a TTL of 1 and a destination on another node.\<close>

definition tx_ttl_1 :: "'a trans_state_scheme trans_env \<Rightarrow> nat \<Rightarrow> 'a trans_state_scheme \<Rightarrow> bool" where
  "tx_ttl_1 env i s \<longleftrightarrow>
     (let tx = seg_txs s ! i in
      i < length (seg_txs s) \<and> tx_slot_ok tx \<and> st_nack_count tx \<noteq> 0 \<and> st_attempts tx \<noteq> 0 \<and> st_sub tx \<noteq> None \<and>
      st_ttl tx = 1 \<and> st_seg_pending tx = 0 \<and> BT_MESH_ADDR_IS_UNICAST (st_dst tx) \<and> \<not> ne_elem_find (te_net env) (st_dst tx) \<and>
      (\<exists>k. unat (st_seg_o tx) \<le> k \<and> k \<le> unat (st_seg_n tx) \<and> st_seg tx ! k \<noteq> None) \<and>
      length (adv_mem s) = BT_MESH_ADV_DATA_SIZE)"

lemma send_loop_ttl_1:
  assumes t: "tx_ttl_1 env i s" and net: "ctx_send_ttl (tx_ctx net_tx) = 1" "ctx_addr (tx_ctx net_tx) = st_dst (seg_txs s ! i)"
  obtains o' s' where "seg_tx_send_loop env i net_tx s = Some (False, s')"
    "net_rest s' = net_rest (upd_tx i (\<lambda>tx. tx\<lparr>st_seg_o := o'\<rparr>) s)"
    "unat o' \<le> unat (st_seg_n (seg_txs s ! i))" "st_seg (seg_txs s ! i) ! unat o' \<noteq> None"
proof -
  let ?tx = "seg_txs s ! i"
  from t have i: "i < length (seg_txs s)" and ok: "tx_slot_ok ?tx" and p: "st_seg_pending ?tx = 0"
    and dst: "BT_MESH_ADDR_IS_UNICAST (st_dst ?tx)" "\<not> ne_elem_find (te_net env) (st_dst ?tx)"
    and mem: "length (adv_mem s) = BT_MESH_ADV_DATA_SIZE"
    and ex: "\<exists>k. unat (st_seg_o ?tx) \<le> k \<and> k \<le> unat (st_seg_n ?tx) \<and> st_seg ?tx ! k \<noteq> None"
    by (auto simp: tx_ttl_1_def Let_def)
  define k where "k = (LEAST k. unat (st_seg_o ?tx) \<le> k \<and> k \<le> unat (st_seg_n ?tx) \<and> st_seg ?tx ! k \<noteq> None)"
  from LeastI_ex[OF ex] have k: "unat (st_seg_o ?tx) \<le> k" "k \<le> unat (st_seg_n ?tx)" "st_seg ?tx ! k \<noteq> None"
    by (simp_all add: k_def)
  have skip: "st_seg ?tx ! j = None" if "unat (st_seg_o ?tx) \<le> j" "j < k" for j
    using not_less_Least[of j "\<lambda>k. unat (st_seg_o ?tx) \<le> k \<and> k \<le> unat (st_seg_n ?tx) \<and> st_seg ?tx ! k \<noteq> None"] that k(2)
    by (auto simp: k_def)
  obtain blk where blk: "st_seg ?tx ! k = Some blk" using k(3) by auto
  have n6: "unat (st_seg_n ?tx) < 6" "length (st_seg ?tx) = 6" using ok by (auto simp: tx_slot_ok_def CONFIG_BT_MESH_TX_SEG_MAX_def)
  let ?o = "st_seg_o ?tx + of_nat (k - unat (st_seg_o ?tx))"
  have uo: "unat ?o = k" using k(1,2) n6(1) by (simp add: unat_word_ariths unat_of_nat)
  let ?s1 = "upd_tx i (\<lambda>tx. tx\<lparr>st_seg_o := ?o\<rparr>) s"
  have "seg_tx_send_loop env i net_tx s =
      seg_tx_send_loop env i net_tx (upd_tx i (\<lambda>tx. tx\<lparr>st_seg_o := st_seg_o tx + of_nat (k - unat (st_seg_o ?tx))\<rparr>) s)"
    by (rule send_loop_skip[OF i]) (use k n6 skip in \<open>auto simp: CONFIG_BT_MESH_TX_SEG_MAX_def\<close>)
  also have "upd_tx i (\<lambda>tx. tx\<lparr>st_seg_o := st_seg_o tx + of_nat (k - unat (st_seg_o ?tx))\<rparr>) s = ?s1" by (simp add: upd_tx_def)
  finally have e: "seg_tx_send_loop env i net_tx s = seg_tx_send_loop env i net_tx ?s1" .
  have tx1: "seg_txs ?s1 ! i = ?tx\<lparr>st_seg_o := ?o\<rparr>" "adv_mem ?s1 = adv_mem s" using i by (simp_all add: upd_tx_def)
  define s1 where "s1 = ?s1"
  define tx where "tx = ?tx\<lparr>st_seg_o := ?o\<rparr>"
  have s1: "seg_txs s1 ! i = tx" "adv_mem s1 = adv_mem s" "i < length (seg_txs s1)" using tx1 i by (simp_all add: s1_def tx_def upd_tx_def)
  have txo: "unat (st_seg_o tx) = k" "\<not> st_seg_o tx > st_seg_n tx" "length (st_seg tx) = 6" "st_seg tx ! k = Some blk"
    "tx_slot_ok tx" "st_seg_pending tx = 0"
    using uo k(2) n6(2) blk ok p by (simp_all add: tx_def word_less_nat_alt tx_slot_ok_def)
  show ?thesis
  proof (cases "bt_mesh_adv_create BT_MESH_ADV_DATA (st_xmit tx) s1")
    case None
    have "seg_tx_send_loop env i net_tx s1 = Some (False, s1)"
      using None txo s1(1) k(2) n6 by (subst seg_tx_send_loop.simps) (simp add: Let_def)
    then show ?thesis using that[of s1 ?o] e uo k blk by (simp add: s1_def)
  next
    case (Some p2)
    obtain buf s2 where p2: "p2 = (buf, s2)" by (cases p2)
    from Some have buf: "ab_b buf = NET_BUF_SIMPLE_DEFINE (adv_mem s)" and s2: "s2 = s1\<lparr>adv_used := adv_used s1 + 1\<rparr>"
      using s1(2) by (auto simp: p2 bt_mesh_adv_create_def split: if_splits)
    obtain b0 b where b: "net_buf_simple_reserve (NET_BUF_SIMPLE_DEFINE (adv_mem s)) BT_MESH_NET_HDR_LEN = Some b0"
      "seg_tx_buf_build tx k b0 = Some b" "nb_invar b" "net_buf_simple_headroom b = 9"
      by (rule seg_buf_built[OF txo(5) _ txo(4) mem]) (use k(2) n6 in \<open>simp add: CONFIG_BT_MESH_TX_SEG_MAX_def\<close>)
    define s3 where "s3 = upd_tx i (\<lambda>tx. tx\<lparr>st_seg_pending := st_seg_pending tx + 1\<rparr>) s2"
    obtain s4 where s4: "bt_mesh_net_send (seg_env env) net_tx (buf\<lparr>ab_b := b\<rparr>) (Some (CB_seg i)) s3 = Some (Some EINVAL, s4)"
      "net_rest s4 = net_rest (net_buf_unref s3)"
      by (rule net_send_ttl_1[of "buf\<lparr>ab_b := b\<rparr>" net_tx "seg_env env" "Some (CB_seg i)" s3])
         (use b net dst in \<open>simp_all add: seg_env_def\<close>)
    let ?s5 = "upd_tx i (\<lambda>tx. tx\<lparr>st_seg_pending := st_seg_pending tx - 1\<rparr>) s4"
    have "seg_tx_send_loop env i net_tx s1 = Some (False, ?s5)"
      using Some[unfolded p2] txo s1(1) k(2) n6 b(1,2) buf s4(1)
      by (subst seg_tx_send_loop.simps) (simp add: Let_def s3_def)
    moreover have "net_rest ?s5 = net_rest s1"
    proof -
      have "net_rest ?s5 = net_rest (upd_tx i (\<lambda>tx. tx\<lparr>st_seg_pending := st_seg_pending tx - 1\<rparr>) (net_buf_unref s3))"
        by (rule net_rest_trans(5)[OF s4(2)])
      also have "upd_tx i (\<lambda>tx. tx\<lparr>st_seg_pending := st_seg_pending tx - 1\<rparr>) (net_buf_unref s3) = s1"
        using s1(3) by (simp add: s3_def s2 upd_tx_def net_buf_unref_def)
      finally show ?thesis .
    qed
    ultimately show ?thesis using that[of ?s5 ?o] e uo k blk by (simp add: s1_def)
  qed
qed

text \<open>C26: a segmented message with a TTL of 1 to another node never ends. \<^verbatim>\<open>bt_mesh_net_send\<close> refuses its segments,
  \<^verbatim>\<open>seg_tx_send_unacked\<close> then leaves the number of attempts as it is, and every expiry of the retransmit timer
  starts the timer again: the slot and its segments stay allocated, an IV update stays deferred, and the sender
  is never told.\<close>

theorem seg_ttl_1_never_ends:
  assumes "tx_ttl_1 env i s"
  shows "\<exists>s'. seg_retransmit env i s = Some s' \<and> tx_ttl_1 env i s' \<and>
    st_retransmit (seg_txs s' ! i) = Some 450 \<and> st_attempts (seg_txs s' ! i) = st_attempts (seg_txs s ! i) \<and>
    st_cb (seg_txs s' ! i) = st_cb (seg_txs s ! i) \<and> segs_used s' = segs_used s"
proof -
  let ?tx = "seg_txs s ! i"
  from assms have i: "i < length (seg_txs s)" and nz: "st_nack_count ?tx \<noteq> 0" "st_attempts ?tx \<noteq> 0"
    and ttl: "st_ttl ?tx = 1" and uni: "BT_MESH_ADDR_IS_UNICAST (st_dst ?tx)" and p: "st_seg_pending ?tx = 0"
    by (auto simp: tx_ttl_1_def Let_def)
  from assms obtain sub where sub: "st_sub ?tx = Some sub" by (auto simp: tx_ttl_1_def Let_def)
  define s1 where "s1 = upd_tx i (\<lambda>tx. tx\<lparr>st_retransmit := None\<rparr>) s"
  define s2 where "s2 = upd_tx i (\<lambda>tx. tx\<lparr>st_sending := True\<rparr>) s1"
  have tx2: "seg_txs s2 ! i = ?tx\<lparr>st_retransmit := None, st_sending := True\<rparr>" "seg_txs s1 ! i = ?tx\<lparr>st_retransmit := None\<rparr>"
    "i < length (seg_txs s2)" "segs_used s2 = segs_used s" "adv_mem s2 = adv_mem s"
    using i by (simp_all add: s1_def s2_def upd_tx_def)
  have t2: "tx_ttl_1 env i s2" using assms tx2 by (simp add: tx_ttl_1_def Let_def tx_slot_ok_def)
  let ?net = "seg_net_tx sub (seg_txs s1 ! i) s1"
  have net: "ctx_send_ttl (tx_ctx ?net) = 1" "ctx_addr (tx_ctx ?net) = st_dst (seg_txs s2 ! i)"
    using ttl tx2 by (simp_all add: seg_net_tx_def)
  obtain o' s3 where s3: "seg_tx_send_loop env i ?net s2 = Some (False, s3)"
    "net_rest s3 = net_rest (upd_tx i (\<lambda>tx. tx\<lparr>st_seg_o := o'\<rparr>) s2)"
    "unat o' \<le> unat (st_seg_n (seg_txs s2 ! i))" "st_seg (seg_txs s2 ! i) ! unat o' \<noteq> None"
    by (rule send_loop_ttl_1[OF t2 net])
  have tx3: "seg_txs s3 ! i = ?tx\<lparr>st_retransmit := None, st_sending := True, st_seg_o := o'\<rparr>" "i < length (seg_txs s3)"
    "segs_used s3 = segs_used s" "adv_mem s3 = adv_mem s"
    using net_rest_trans[OF s3(2)] tx2 by (simp_all add: upd_tx_def)
  define s4 where "s4 = upd_tx i (\<lambda>tx. tx\<lparr>st_sending := False\<rparr>) (upd_tx i (\<lambda>tx. tx\<lparr>st_retransmit := Some (SEG_RETRANSMIT_TIMEOUT tx)\<rparr>) s3)"
  have r: "seg_retransmit env i s = Some s4"
    using s3(1) nz sub tx2(2) tx3(1) p
    by (simp add: seg_retransmit_def seg_tx_send_unacked_def Let_def s1_def[symmetric] s2_def[symmetric] s4_def)
  have tx4: "seg_txs s4 ! i = ?tx\<lparr>st_retransmit := Some 450, st_sending := False, st_seg_o := o'\<rparr>" "i < length (seg_txs s4)"
    "segs_used s4 = segs_used s" "adv_mem s4 = adv_mem s"
    using tx3 uni ttl by (simp_all add: s4_def upd_tx_def SEG_RETRANSMIT_TIMEOUT_def)
  have "tx_ttl_1 env i s4" using assms tx4 s3(3,4) tx2(1) by (auto simp: tx_ttl_1_def Let_def tx_slot_ok_def)
  with r tx4 show ?thesis by simp
qed

section \<open>Acknowledgements\<close>

definition tx_unacked :: "seg_tx \<Rightarrow> nat" where
  "tx_unacked tx = length (filter (\<lambda>seg. seg \<noteq> None) (st_seg tx))"

lemma tx_unacked_clear:
  assumes "k < length (st_seg tx)" "st_seg tx ! k \<noteq> None"
  shows "tx_unacked (tx\<lparr>st_seg := (st_seg tx)[k := None]\<rparr>) + 1 = tx_unacked tx"
proof -
  have x: "st_seg tx = take k (st_seg tx) @ st_seg tx ! k # drop (Suc k) (st_seg tx)" using assms(1) by (rule id_take_nth_drop)
  have "(st_seg tx)[k := None] = take k (st_seg tx) @ None # drop (Suc k) (st_seg tx)" using assms(1) by (rule upd_conv_take_nth_drop)
  then have "tx_unacked (tx\<lparr>st_seg := (st_seg tx)[k := None]\<rparr>) = length (filter (\<lambda>s. s \<noteq> None) (take k (st_seg tx) @ None # drop (Suc k) (st_seg tx)))"
    by (simp add: tx_unacked_def)
  moreover have "tx_unacked tx = length (filter (\<lambda>s. s \<noteq> None) (take k (st_seg tx) @ st_seg tx ! k # drop (Suc k) (st_seg tx)))"
    unfolding tx_unacked_def using x by (rule arg_cong)
  ultimately show ?thesis using assms(2) by simp
qed

text \<open>The slot counts its segments, and each of them has a block of the slab.\<close>

definition tx_counted :: "nat \<Rightarrow> 'a trans_state_scheme \<Rightarrow> bool" where
  "tx_counted i s \<longleftrightarrow>
     i < length (seg_txs s) \<and> length (st_seg (seg_txs s ! i)) = CONFIG_BT_MESH_TX_SEG_MAX \<and>
     unat (st_nack_count (seg_txs s ! i)) = tx_unacked (seg_txs s ! i) \<and> tx_unacked (seg_txs s ! i) \<le> segs_used s"

lemma seg_tx_done_counted:
  assumes c: "tx_counted i s" and k: "k < CONFIG_BT_MESH_TX_SEG_MAX" "st_seg (seg_txs s ! i) ! k \<noteq> None"
  defines "s' \<equiv> seg_tx_done i k s"
  shows "tx_counted i s'" "segs_used s' + 1 = segs_used s" "tx_unacked (seg_txs s' ! i) + 1 = tx_unacked (seg_txs s ! i)"
    "seg_txs s' ! i = (seg_txs s ! i)\<lparr>st_seg := (st_seg (seg_txs s ! i))[k := None], st_nack_count := st_nack_count (seg_txs s ! i) - 1\<rparr>"
    "j \<noteq> i \<Longrightarrow> seg_txs s' ! j = seg_txs s ! j"
proof -
  let ?tx = "seg_txs s ! i"
  from c have i: "i < length (seg_txs s)" "length (st_seg ?tx) = CONFIG_BT_MESH_TX_SEG_MAX"
    "unat (st_nack_count ?tx) = tx_unacked ?tx" "tx_unacked ?tx \<le> segs_used s" by (auto simp: tx_counted_def)
  show tx: "seg_txs s' ! i = ?tx\<lparr>st_seg := (st_seg ?tx)[k := None], st_nack_count := st_nack_count ?tx - 1\<rparr>"
    using i(1) by (simp add: s'_def seg_tx_done_def upd_tx_def segs_free_def)
  have u: "tx_unacked (?tx\<lparr>st_seg := (st_seg ?tx)[k := None]\<rparr>) + 1 = tx_unacked ?tx"
    by (rule tx_unacked_clear) (use k i(2) in simp_all)
  then show u': "tx_unacked (seg_txs s' ! i) + 1 = tx_unacked ?tx" unfolding tx by (simp add: tx_unacked_def)
  have su: "segs_used s' = segs_used s - 1" by (simp add: s'_def seg_tx_done_def upd_tx_def segs_free_def)
  then show "segs_used s' + 1 = segs_used s" using u i(4) by simp
  have "st_nack_count ?tx \<noteq> 0" using i(3) u by (metis Suc_eq_plus1 nat.distinct(1) unat_eq_zero)
  then have "unat (st_nack_count ?tx - 1) + 1 = tx_unacked ?tx" using i(3) u by (simp add: unat_minus_one)
  then have "unat (st_nack_count (seg_txs s' ! i)) = tx_unacked (seg_txs s' ! i)" using u' tx by simp
  then show "tx_counted i s'" using i u' su tx
    by (simp add: tx_counted_def) (simp add: s'_def seg_tx_done_def upd_tx_def segs_free_def)
  show "j \<noteq> i \<Longrightarrow> seg_txs s' ! j = seg_txs s ! j" by (simp add: s'_def seg_tx_done_def upd_tx_def segs_free_def)
qed

text \<open>C23: acknowledgements. The loop of \<^verbatim>\<open>trans_ack\<close> releases the segments whose bits are set and no others; the count
  of segments that are not acknowledged stays the number of segments the slot has, each released segment gives
  one block back to the slab, and the other slots are left alone.\<close>

theorem trans_ack_releases:
  assumes "tx_counted i s" "\<forall>k. bit ack k \<longrightarrow> k < CONFIG_BT_MESH_TX_SEG_MAX"
  shows "\<exists>s'. trans_ack_loop ack i s = Some s' \<and> tx_counted i s' \<and>
    (\<forall>k < CONFIG_BT_MESH_TX_SEG_MAX. st_seg (seg_txs s' ! i) ! k = (if bit ack k then None else st_seg (seg_txs s ! i) ! k)) \<and>
    segs_used s' + tx_unacked (seg_txs s ! i) = segs_used s + tx_unacked (seg_txs s' ! i) \<and>
    (\<forall>j. j \<noteq> i \<longrightarrow> seg_txs s' ! j = seg_txs s ! j)"
  using assms
proof (induction ack i s rule: trans_ack_loop.induct)
  case (1 ack i s)
  show ?case
  proof (cases "ack = 0")
    case True
    then show ?thesis using "1.prems" by (subst trans_ack_loop.simps) (simp add: find_lsb_set_0)
  next
    case False
    then obtain k where k: "find_lsb_set ack = Suc k" by (metis find_lsb_set_0 nat.exhaust)
    note b = find_lsb_set_bit[OF k]
    have k6: "k < CONFIG_BT_MESH_TX_SEG_MAX" using "1.prems"(2) b(1) by blast
    let ?s = "if st_seg (seg_txs s ! i) ! k = None then s else seg_tx_done i k s"
    let ?ack = "ack AND NOT (push_bit k 1)"
    have len: "length (st_seg (seg_txs s ! i)) = CONFIG_BT_MESH_TX_SEG_MAX" "i < length (seg_txs s)"
      using "1.prems"(1) by (auto simp: tx_counted_def)
    have e: "trans_ack_loop ack i s = trans_ack_loop ?ack i ?s"
      using k k6 len by (subst trans_ack_loop.simps) (simp add: Let_def)
    have ab: "bit ?ack j \<longleftrightarrow> bit ack j \<and> j \<noteq> k" for j
      by (auto simp: bit_and_iff bit_not_iff bit_exp_iff possible_bit_def dest: bit_imp_le_length)
    have c: "tx_counted i ?s" "segs_used ?s + tx_unacked (seg_txs s ! i) = segs_used s + tx_unacked (seg_txs ?s ! i)"
      "j < CONFIG_BT_MESH_TX_SEG_MAX \<Longrightarrow> st_seg (seg_txs ?s ! i) ! j = (if j = k then None else st_seg (seg_txs s ! i) ! j)"
      "j \<noteq> i \<Longrightarrow> seg_txs ?s ! j = seg_txs s ! j" for j
      using seg_tx_done_counted[OF "1.prems"(1) k6] "1.prems"(1) len k6 by auto
    have "\<exists>s'. trans_ack_loop ?ack i ?s = Some s' \<and> tx_counted i s' \<and>
      (\<forall>j < CONFIG_BT_MESH_TX_SEG_MAX. st_seg (seg_txs s' ! i) ! j = (if bit ?ack j then None else st_seg (seg_txs ?s ! i) ! j)) \<and>
      segs_used s' + tx_unacked (seg_txs ?s ! i) = segs_used ?s + tx_unacked (seg_txs s' ! i) \<and>
      (\<forall>j. j \<noteq> i \<longrightarrow> seg_txs s' ! j = seg_txs ?s ! j)"
      by (rule "1.IH"[of "find_lsb_set ack" k]) (use k k6 len c(1) "1.prems"(2) ab in auto)
    then obtain s' where s': "trans_ack_loop ?ack i ?s = Some s'" "tx_counted i s'"
      "\<forall>j < CONFIG_BT_MESH_TX_SEG_MAX. st_seg (seg_txs s' ! i) ! j = (if bit ?ack j then None else st_seg (seg_txs ?s ! i) ! j)"
      "segs_used s' + tx_unacked (seg_txs ?s ! i) = segs_used ?s + tx_unacked (seg_txs s' ! i)"
      "\<forall>j. j \<noteq> i \<longrightarrow> seg_txs s' ! j = seg_txs ?s ! j" by blast
    have "\<forall>j < CONFIG_BT_MESH_TX_SEG_MAX. st_seg (seg_txs s' ! i) ! j = (if bit ack j then None else st_seg (seg_txs s ! i) ! j)"
      using s'(3) c(3) ab b(1) by auto
    moreover have "segs_used s' + tx_unacked (seg_txs s ! i) = segs_used s + tx_unacked (seg_txs s' ! i)" using s'(4) c(2) by linarith
    ultimately show ?thesis using e s'(1,2,5) c(4) by auto
  qed
qed

section \<open>Witnesses\<close>

lemmas trans_example_defs = trans_example_def trans_boot_def net_boot_def net_state.defs unused_seg_tx_def
  CONFIG_BT_MESH_TX_SEG_MSG_COUNT_def CONFIG_BT_MESH_TX_SEG_MAX_def CONFIG_BT_MESH_SEG_BUFS_def

definition seg_slot_example :: "u8 \<Rightarrow> seg_tx" where
  "seg_slot_example ttl = unused_seg_tx\<lparr>st_sub := Some 0, st_seg := [Some (replicate 12 1), Some (replicate 8 2), None, None, None, None],
     st_dst := 9, st_len := 20, st_seg_n := 1, st_nack_count := 2, st_attempts := 4, st_ttl := ttl\<rparr>"

definition tx_state_example :: "u8 \<Rightarrow> u8 \<Rightarrow> trans_state" where
  "tx_state_example ttl pending = trans_example\<lparr>segs_used := 2,
     seg_txs := [(seg_slot_example ttl)\<lparr>st_seg_pending := pending\<rparr>, unused_seg_tx, unused_seg_tx]\<rparr>"

theorem send_seg_segments_witness:
  "\<exists>s'. send_seg_loop (trans_env_example 7) 0 tx_example None sdu_example 0
       (upd_tx 0 (send_seg_init tx_example 20 None None False trans_example) trans_example) = Some (None, s') \<and>
     segs_used s' = 2 \<and> st_seq_auth (seg_txs s' ! 0) = SEQ_AUTH 6 0 \<and>
     (\<exists>b. seg_tx_buf_build (seg_txs s' ! 0) 1 (NET_BUF_SIMPLE_DEFINE (replicate 16 0)) = Some b \<and>
        nb_data b = seg_octets (seg_txs s' ! 0) 1 @ replicate 8 2)"
proof -
  have nf: "\<not> te_friend (trans_env_example 7)" by (simp add: trans_env_example_def env_example_def)
  have i: "0 < length (seg_txs trans_example)" "length (st_seg (seg_txs trans_example ! 0)) = CONFIG_BT_MESH_TX_SEG_MAX"
    by (simp_all add: trans_example_defs)
  have sdu: "sdu_example \<noteq> []" "length sdu_example < 1024" "length sdu_example = 20" by (simp_all add: sdu_example_def)
  have last: "seg_last False sdu_example = 1" using seg_example_sends(2) by (simp add: seg_tx_example_def unused_seg_tx_def)
  have room: "segs_used trans_example + seg_last False sdu_example < CONFIG_BT_MESH_SEG_BUFS"
    unfolding last by (simp add: trans_example_defs)
  have c: "False = ((None :: u8 option) \<noteq> None)" by simp
  have six: "seg_last False sdu_example < CONFIG_BT_MESH_TX_SEG_MAX" unfolding last by (simp add: CONFIG_BT_MESH_TX_SEG_MAX_def)
  have iv: "BT_MESH_NET_IVI_TX trans_example = 6" "bm_seq trans_example = 0" "segs_used trans_example = 0"
    by (simp_all add: trans_example_defs BT_MESH_NET_IVI_TX_def)
  let ?b = "NET_BUF_SIMPLE_DEFINE (replicate 16 0)"
  have b: "nb_invar ?b" "16 \<le> net_buf_simple_tailroom ?b" "nb_data ?b = []" by (simp_all add: NET_BUF_SIMPLE_DEFINE_def nb_basic_defs)
  have ch: "seg_chunk False sdu_example 1 = replicate 8 2"
    by (simp add: seg_chunk_def sdu_example_def seg_len_def BT_MESH_APP_SEG_SDU_MAX_def)
  note u = send_seg_segments[OF nf i sdu(1,2) room c refl, of tx_example None False, unfolded if_P[OF six]]
  from u obtain s' where
    e: "send_seg_loop (trans_env_example 7) 0 tx_example None sdu_example 0
       (upd_tx 0 (send_seg_init tx_example 20 None None False trans_example) trans_example) = Some (None, s')"
    and s': "segs_used s' = 2" "st_seq_auth (seg_txs s' ! 0) = SEQ_AUTH 6 0"
    and k: "\<forall>k buf. k \<le> seg_last False sdu_example \<and> nb_invar buf \<and> 16 \<le> net_buf_simple_tailroom buf \<longrightarrow>
        (\<exists>b. seg_tx_buf_build (seg_txs s' ! 0) k buf = Some b \<and> nb_invar b \<and>
          nb_data b = nb_data buf @ seg_octets (seg_txs s' ! 0) k @ seg_chunk False sdu_example k)"
    unfolding sdu(3) iv last by auto
  from k[rule_format, of 1 ?b] b last ch have
    "\<exists>b. seg_tx_buf_build (seg_txs s' ! 0) 1 ?b = Some b \<and> nb_data b = seg_octets (seg_txs s' ! 0) 1 @ replicate 8 2" by auto
  with e s' show ?thesis by blast
qed

theorem trans_send_overflow_witness:
  "bt_mesh_trans_send (trans_env_example 7)
     (tx_example\<lparr>tx_ctx := empty_ctx\<lparr>ctx_app_idx := BT_MESH_KEY_DEV_LOCAL, ctx_addr := 9, ctx_send_ttl := 3\<rparr>\<rparr>)
     \<lparr>nb_store = replicate 76 0, nb_off = 0, nb_len = 72\<rparr> None trans_example = None"
proof -
  let ?tx = "tx_example\<lparr>tx_ctx := empty_ctx\<lparr>ctx_app_idx := BT_MESH_KEY_DEV_LOCAL, ctx_addr := 9, ctx_send_ttl := 3\<rparr>\<rparr>"
  let ?m = "\<lparr>nb_store = replicate 76 0, nb_off = 0, nb_len = 72\<rparr>"
  have m: "nb_invar ?m" "nb_len ?m \<le> BT_MESH_TX_SDU_MAX" "net_buf_simple_tailroom ?m = 4"
    by (simp_all add: nb_basic_defs BT_MESH_TX_SDU_MAX_def CONFIG_BT_MESH_TX_SEG_MAX_def BT_MESH_APP_SEG_SDU_MAX_def)
  have mic: "BT_MESH_TX_SDU_MAX < nb_len ?m + APP_MIC_LEN (8 \<le> net_buf_simple_tailroom ?m)"
    unfolding m(3) by (simp add: APP_MIC_LEN_def BT_MESH_TX_SDU_MAX_def CONFIG_BT_MESH_TX_SEG_MAX_def BT_MESH_APP_SEG_SDU_MAX_def)
  have env: "tinycrypt_ok (te_tc (trans_env_example 7))" "\<not> te_friend (trans_env_example 7)"
    using tc_example_ok by (simp_all add: trans_env_example_def env_example_def)
  have ttl: "trans_send_ttl (ctx_send_ttl (tx_ctx ?tx)) trans_example = Some 3"
    by (simp add: trans_send_ttl_def BT_MESH_TTL_DEFAULT_def BT_MESH_TTL_MAX_def)
  have dst: "BT_MESH_ADDR_IS_UNICAST (ctx_addr (tx_ctx ?tx))" "ctx_addr (tx_ctx ?tx) \<noteq> BT_MESH_ADDR_UNASSIGNED"
    by (simp_all add: BT_MESH_ADDR_IS_UNICAST_def BT_MESH_ADDR_UNASSIGNED_def)
  have key: "bt_mesh_keys_resolve (ne_elem_find (te_net (trans_env_example 7))) (te_cdb_dev_key (trans_env_example 7))
      ((tx_ctx ?tx)\<lparr>ctx_send_ttl := 3, ctx_send_rel := True\<rparr>) trans_example = Inr (0, replicate 16 0, 0)"
    by (simp add: bt_mesh_keys_resolve_def BT_MESH_IS_DEV_KEY_def mesh_key_defs bt_mesh_subnet_get_def trans_example_defs
        example_sub_def empty_ctx_def)
  have slot: "find_idx (\<lambda>t. st_nack_count t = 0) (seg_txs trans_example) = Some 0"
    "length (st_seg (seg_txs trans_example ! 0)) = CONFIG_BT_MESH_TX_SEG_MAX" "segs_used trans_example + 7 \<le> CONFIG_BT_MESH_SEG_BUFS"
    by (simp_all add: trans_example_defs numeral_3_eq_3)
  show ?thesis
    by (rule trans_send_overflow[OF env m(1,2) _ mic ttl dst key _ slot]) (simp_all add: m(3))
qed

theorem seg_ttl_1_never_ends_witness:
  "\<exists>s'. seg_retransmit (trans_env_example 7) 0 (tx_state_example 1 0) = Some s' \<and>
     tx_ttl_1 (trans_env_example 7) 0 s' \<and> st_retransmit (seg_txs s' ! 0) = Some 450 \<and> st_attempts (seg_txs s' ! 0) = 4"
proof -
  have tx: "seg_txs (tx_state_example 1 0) ! 0 = seg_slot_example 1" by (simp add: tx_state_example_def seg_slot_example_def unused_seg_tx_def)
  have ok: "tx_slot_ok (seg_slot_example 1)"
    unfolding tx_slot_ok_def
  proof (intro conjI allI impI)
    fix k blk
    assume "k < CONFIG_BT_MESH_TX_SEG_MAX" and b: "st_seg (seg_slot_example 1) ! k = Some blk"
    then consider "k = 0" | "k = 1" | "k = 2" | "k = 3" | "k = 4" | "k = 5" unfolding CONFIG_BT_MESH_TX_SEG_MAX_def by linarith
    then show "k \<le> unat (st_seg_n (seg_slot_example 1))"
      "length blk = min (seg_len (st_ctl (seg_slot_example 1))) (unat (st_len (seg_slot_example 1)) - seg_len (st_ctl (seg_slot_example 1)) * k)"
      using b by (cases; auto simp: seg_slot_example_def unused_seg_tx_def seg_len_def BT_MESH_APP_SEG_SDU_MAX_def)+
  qed (simp_all add: seg_slot_example_def unused_seg_tx_def CONFIG_BT_MESH_TX_SEG_MAX_def)
  have "tx_ttl_1 (trans_env_example 7) 0 (tx_state_example 1 0)"
    unfolding tx_ttl_1_def Let_def tx
    by (intro conjI exI[of _ 0])
       (rule ok | simp add: seg_slot_example_def unused_seg_tx_def tx_state_example_def trans_example_defs BT_MESH_ADV_DATA_SIZE_def
         trans_env_example_def env_example_def BT_MESH_ADDR_IS_UNICAST_def)+
  from seg_ttl_1_never_ends[OF this] show ?thesis unfolding tx by (auto simp: seg_slot_example_def)
qed

theorem trans_ack_releases_witness:
  "\<exists>s'. trans_ack_loop 1 0 (tx_state_example 5 0) = Some s' \<and> st_seg (seg_txs s' ! 0) ! 0 = None \<and>
     st_seg (seg_txs s' ! 0) ! 1 = Some (replicate 8 2) \<and> tx_counted 0 s'"
proof -
  have c: "tx_counted 0 (tx_state_example 5 0)"
    by (simp add: tx_counted_def tx_state_example_def seg_slot_example_def unused_seg_tx_def tx_unacked_def CONFIG_BT_MESH_TX_SEG_MAX_def)
  have b: "\<forall>k. bit (1 :: u32) k \<longrightarrow> k < CONFIG_BT_MESH_TX_SEG_MAX" by (simp add: bit_1_iff CONFIG_BT_MESH_TX_SEG_MAX_def)
  from trans_ack_releases[OF c b] show ?thesis
    by (auto simp: CONFIG_BT_MESH_TX_SEG_MAX_def bit_1_iff tx_state_example_def seg_slot_example_def)
qed

end
