(* ===== verification/Transport_Iv.thy ===== *)
theory Transport_Iv
  imports Transport_Tx
begin

text \<open>
  The end of an IV update with the segmented transmissions of transport.c: the timer ends the update phase after four
  expiries, unless a transmission is in progress; then \<^verbatim>\<open>seg_tx_reset\<close> ends it with the last transmission.
\<close>

section \<open>The update phase\<close>

text \<open>
  From the state in which the phase starts, while it lasts and with \<open>n\<close> expiries of the timer: the timer, beacons with
  any IV index and flag, transmissions that end (\<^verbatim>\<open>seg_tx_reset\<close>), and everything else, which leaves the phase, the
  IV index, the hours, the timer and a postponed end alone.
\<close>

inductive ivu_phase ::
    "'a trans_state_scheme trans_env \<Rightarrow> 'a trans_state_scheme \<Rightarrow> nat \<Rightarrow> 'a trans_state_scheme \<Rightarrow> bool"
  for env s where
  start: "ivu_phase env s 0 s"
| tick: "ivu_phase env s n t \<Longrightarrow> flags t BT_MESH_IVU_IN_PROGRESS \<Longrightarrow> ivu_timer t \<noteq> None \<Longrightarrow>
    ivu_phase env s (Suc n) (ivu_refresh (seg_env env) t)"
| beacon: "ivu_phase env s n t \<Longrightarrow> flags t BT_MESH_IVU_IN_PROGRESS \<Longrightarrow>
    ivu_phase env s n (snd (bt_mesh_net_iv_update (seg_env env) iv u t))"
| reset: "ivu_phase env s n t \<Longrightarrow> flags t BT_MESH_IVU_IN_PROGRESS \<Longrightarrow> seg_tx_reset env i t = Some t' \<Longrightarrow>
    ivu_phase env s n t'"
| other: "ivu_phase env s n t \<Longrightarrow> flags t BT_MESH_IVU_IN_PROGRESS \<Longrightarrow> flags t' BT_MESH_IVU_IN_PROGRESS \<Longrightarrow>
    bm_iv_index t' = bm_iv_index t \<Longrightarrow> bm_ivu_duration t' = bm_ivu_duration t \<Longrightarrow> ivu_timer t' = ivu_timer t \<Longrightarrow>
    flags t' BT_MESH_IVU_PENDING = flags t BT_MESH_IVU_PENDING \<Longrightarrow> ivu_phase env s n t'"

text \<open>Before the fourth expiry; with the end postponed; in normal operation again.\<close>

definition ivu_waits :: "u32 \<Rightarrow> nat \<Rightarrow> 'a net_state_scheme \<Rightarrow> bool" where
  "ivu_waits iv n t \<longleftrightarrow> flags t BT_MESH_IVU_IN_PROGRESS \<and> bm_iv_index t = iv \<and> unat (bm_ivu_duration t) = 24 * n \<and>
     ivu_timer t = Some BT_MESH_IVU_TIMEOUT"

definition ivu_postponed :: "u32 \<Rightarrow> 'a net_state_scheme \<Rightarrow> bool" where
  "ivu_postponed iv t \<longleftrightarrow> flags t BT_MESH_IVU_IN_PROGRESS \<and> bm_iv_index t = iv \<and> unat (bm_ivu_duration t) = 96 \<and>
     ivu_timer t = None \<and> flags t BT_MESH_IVU_PENDING"

definition ivu_ended :: "u32 \<Rightarrow> 'a net_state_scheme \<Rightarrow> bool" where
  "ivu_ended iv t \<longleftrightarrow> \<not> flags t BT_MESH_IVU_IN_PROGRESS \<and> bm_iv_index t = iv \<and> bm_seq t = 0 \<and> bm_ivu_duration t = 0"

lemma ivu_ended_abs:
  "iv_abs t = (iv_abs s)\<lparr>im_update := False, im_seq := 0, im_hours := 0\<rparr> \<Longrightarrow> ivu_ended (bm_iv_index s) t"
  by (auto simp: ivu_ended_def iv_abs_def word_unat_eq_iff)

lemma seg_env_busy: "ne_tx_in_progress (seg_env env) s = bt_mesh_tx_in_progress s"
  by (simp add: seg_env_def)

lemma due_busy: "bt_mesh_tx_in_progress (ivu_due s) = bt_mesh_tx_in_progress s"
  by (simp add: ivu_due_def bt_mesh_beacon_ivu_initiator_def set_flag_to_def bt_mesh_tx_in_progress_def Let_def)

section \<open>The timer\<close>

lemma tick_waits:
  assumes "ivu_waits iv n t" "n < 3"
  shows "ivu_waits iv (Suc n) (ivu_refresh env t)"
proof -
  have "unat (bm_ivu_duration t + 24) = 24 * n + 24"
    using assms by (subst unat_add_lem [THEN iffD1]) (simp_all add: ivu_waits_def)
  then have h: "unat (bm_ivu_duration t + BT_MESH_IVU_HOURS) = 24 * n + 24" by (simp add: BT_MESH_IVU_HOURS_def BT_MESH_IVU_MIN_HOURS_def)
  then have "bm_ivu_duration t + BT_MESH_IVU_HOURS < BT_MESH_IVU_MIN_HOURS"
    using assms(2) by (simp add: word_less_nat_alt BT_MESH_IVU_MIN_HOURS_def)
  note w = ivu_refresh_wait [OF this, of env]
  show ?thesis using assms(1) w h by (auto simp: ivu_waits_def iv_abs_def word_unat_eq_iff)
qed

lemma tick_due:
  assumes "ivu_waits iv 3 t"
  shows "if bt_mesh_tx_in_progress t then ivu_postponed iv (ivu_refresh (seg_env env) t)
    else ivu_ended iv (ivu_refresh (seg_env env) t)"
proof -
  have "unat (bm_ivu_duration t + 24) = 96"
    using assms by (subst unat_add_lem [THEN iffD1]) (simp_all add: ivu_waits_def)
  then have h: "unat (bm_ivu_duration t + BT_MESH_IVU_HOURS) = 96" by (simp add: BT_MESH_IVU_HOURS_def BT_MESH_IVU_MIN_HOURS_def)
  have f: "flags t BT_MESH_IVU_IN_PROGRESS" "iv = bm_iv_index t" using assms by (simp_all add: ivu_waits_def)
  have d: "96 \<le> unat (bm_ivu_duration t + BT_MESH_IVU_HOURS)" using h by simp
  note e = ivu_refresh_end [OF d f(1), of "seg_env env"]
  show ?thesis
  proof (cases "bt_mesh_tx_in_progress t")
    case True
    have u: "flags (ivu_due t) BT_MESH_IVU_IN_PROGRESS" "unat (bm_ivu_duration (ivu_due t)) = 96"
      "bm_iv_index (ivu_due t) = bm_iv_index t" "ivu_timer (ivu_due t) = None"
      using f h by (simp_all add: ivu_due_def bt_mesh_beacon_ivu_initiator_def set_flag_to_def Let_def)
    have "ivu_refresh (seg_env env) t = set_flag BT_MESH_IVU_PENDING (ivu_due t)"
      using iv_update_pending [OF u(1), of "seg_env env"] u True ivu_refresh_due(1) [OF d f(1), of "seg_env env"]
      by (simp add: seg_env_busy due_busy)
    then show ?thesis using True u f by (simp add: ivu_postponed_def set_flag_def)
  next
    case False
    then show ?thesis using e f(2) by (simp add: seg_env_busy due_busy ivu_ended_abs)
  qed
qed

section \<open>Beacons and transmissions that end\<close>

lemma iv_update_waits:
  assumes "ivu_waits i n t" "n < 4"
  shows "snd (bt_mesh_net_iv_update env iv u t) = t"
  using assms by (simp add: ivu_waits_def bt_mesh_net_iv_update_def Let_def BT_MESH_IVU_MIN_HOURS_def word_less_nat_alt)

lemma iv_update_postponed:
  assumes t: "flags t BT_MESH_IVU_IN_PROGRESS" "bm_iv_index t = i" "unat (bm_ivu_duration t) = 96" "ivu_timer t = None"
    and p: "flags t BT_MESH_IVU_PENDING \<or> (iv = i \<and> \<not> u)"
    and t'_def: "t' = snd (bt_mesh_net_iv_update (seg_env env) iv u t)"
  shows "if iv = i \<and> \<not> u \<and> \<not> bt_mesh_tx_in_progress t then ivu_ended i t' else ivu_postponed i t'"
proof -
  consider "iv \<noteq> i \<or> u" | "iv = i" "\<not> u" "bt_mesh_tx_in_progress t" | "iv = i" "\<not> u" "\<not> bt_mesh_tx_in_progress t" by blast
  then show ?thesis
  proof cases
    case 1
    then have "t' = t" unfolding t'_def using t by (auto simp: bt_mesh_net_iv_update_def Let_def)
    then show ?thesis using 1 t p by (auto simp: ivu_postponed_def)
  next
    case 2
    then have "t' = set_flag BT_MESH_IVU_PENDING t"
      unfolding t'_def using t iv_update_pending [OF t(1), of "seg_env env"] by (simp add: seg_env_busy)
    then show ?thesis using 2 t by (simp add: ivu_postponed_def set_flag_def)
  next
    case 3
    then have "iv_abs t' = (iv_abs t)\<lparr>im_update := False, im_seq := 0, im_hours := 0\<rparr>"
      using t unfolding t'_def iv_update_refines by (simp add: seg_env_busy iv_spec_def) (simp add: iv_abs_def)
    then show ?thesis using 3 t(2) ivu_ended_abs [of t' t] by simp
  qed
qed

definition net_part where
  "net_part s = (iv_abs s, ivu_timer s, flags s)"

lemma upd_tx_part: "net_part (upd_tx i f s) = net_part s"
  by (simp add: net_part_def upd_tx_def iv_abs_def)

lemma reset_loop_part: "seg_tx_reset_loop n i k s = Some s' \<Longrightarrow> net_part s' = net_part s"
proof (induction n arbitrary: k s)
  case (Suc n)
  have "net_part (seg_tx_done i k s) = net_part s"
    by (simp add: seg_tx_done_def segs_free_def net_part_def upd_tx_def iv_abs_def Let_def)
  then show ?case using Suc.IH Suc.prems by (auto simp: Let_def split: if_splits)
qed simp

lemma iv_update_txs: "seg_txs (snd (bt_mesh_net_iv_update e iv b w)) = seg_txs w"
  by (rule net_rest_trans(1) [OF iv_update_rest])

text \<open>What \<^verbatim>\<open>seg_tx_reset\<close> does to the phase: it retries a postponed end, and nothing else.\<close>

lemma tx_reset_phase:
  assumes "seg_tx_reset env i t = Some t'"
  obtains u where "net_part u = net_part t" "bt_mesh_tx_in_progress t' = bt_mesh_tx_in_progress u"
    "t' = (if flags t BT_MESH_IVU_PENDING
           then snd (bt_mesh_net_iv_update (seg_env env) (bm_iv_index u) False (set_flag_to BT_MESH_IVU_PENDING False u))
           else u)"
proof -
  obtain v where v: "seg_tx_reset_loop (unat (st_seg_n (seg_txs (upd_tx i (\<lambda>tx. tx\<lparr>st_retransmit := None, st_cb := None, st_seq_auth := 0, st_sub := None, st_src := BT_MESH_ADDR_UNASSIGNED,
                 st_dst := BT_MESH_ADDR_UNASSIGNED, st_blocked := False\<rparr>) t) ! i)) + 1) i 0
        (upd_tx i (\<lambda>tx. tx\<lparr>st_retransmit := None, st_cb := None, st_seq_auth := 0, st_sub := None, st_src := BT_MESH_ADDR_UNASSIGNED,
                 st_dst := BT_MESH_ADDR_UNASSIGNED, st_blocked := False\<rparr>) t) = Some v"
    and t': "t' = (let s = upd_tx i (\<lambda>tx. tx\<lparr>st_nack_count := 0\<rparr>) v in if flags s BT_MESH_IVU_PENDING
             then snd (bt_mesh_net_iv_update (seg_env env) (bm_iv_index s) False (set_flag_to BT_MESH_IVU_PENDING False s))
             else s)"
    using assms unfolding seg_tx_reset_def Let_def by (auto simp: bind_eq_Some_conv)
  let ?u = "upd_tx i (\<lambda>tx. tx\<lparr>st_nack_count := 0\<rparr>) v"
  have p: "net_part ?u = net_part t" using reset_loop_part [OF v] by (simp add: upd_tx_part)
  then have f: "flags ?u = flags t" by (simp add: net_part_def)
  let ?w = "set_flag_to BT_MESH_IVU_PENDING False ?u"
  have "bt_mesh_tx_in_progress (snd (bt_mesh_net_iv_update e iv b ?w)) = bt_mesh_tx_in_progress ?u" for e iv b
    by (simp add: bt_mesh_tx_in_progress_def iv_update_txs) (simp add: set_flag_to_def)
  then show ?thesis using that [OF p] t' f by (simp add: Let_def)
qed

lemma tx_reset_waits:
  assumes "ivu_waits iv n t" "n < 4" "seg_tx_reset env i t = Some t'"
  shows "ivu_waits iv n t'"
proof -
  obtain u where u: "net_part u = net_part t" and t': "t' = (if flags t BT_MESH_IVU_PENDING
      then snd (bt_mesh_net_iv_update (seg_env env) (bm_iv_index u) False (set_flag_to BT_MESH_IVU_PENDING False u)) else u)"
    using tx_reset_phase [OF assms(3)] by metis
  have "ivu_waits iv n u" using assms(1) u by (auto simp: ivu_waits_def net_part_def iv_abs_def word_unat_eq_iff)
  then have "ivu_waits iv n u" "ivu_waits iv n (set_flag_to BT_MESH_IVU_PENDING False u)"
    by (simp_all add: ivu_waits_def set_flag_to_def)
  then show ?thesis
    using t' iv_update_waits [OF _ assms(2), of iv "set_flag_to BT_MESH_IVU_PENDING False u" "seg_env env" "bm_iv_index u" False]
    by simp
qed

lemma tx_reset_postponed:
  assumes "ivu_postponed iv t" "seg_tx_reset env i t = Some t'"
  shows "if bt_mesh_tx_in_progress t' then ivu_postponed iv t' else ivu_ended iv t'"
proof -
  obtain u where u: "net_part u = net_part t" "bt_mesh_tx_in_progress t' = bt_mesh_tx_in_progress u"
    and t': "t' = (if flags t BT_MESH_IVU_PENDING
      then snd (bt_mesh_net_iv_update (seg_env env) (bm_iv_index u) False (set_flag_to BT_MESH_IVU_PENDING False u)) else u)"
    using tx_reset_phase [OF assms(2)] by metis
  let ?w = "set_flag_to BT_MESH_IVU_PENDING False u"
  have w: "flags ?w BT_MESH_IVU_IN_PROGRESS" "bm_iv_index ?w = iv" "unat (bm_ivu_duration ?w) = 96" "ivu_timer ?w = None"
    using assms(1) u(1) by (auto simp: ivu_postponed_def net_part_def iv_abs_def word_unat_eq_iff set_flag_to_def)
  moreover have "bt_mesh_tx_in_progress ?w = bt_mesh_tx_in_progress u" by (simp add: bt_mesh_tx_in_progress_def set_flag_to_def)
  moreover have "bm_iv_index u = iv" using w(2) by (simp add: set_flag_to_def)
  ultimately show ?thesis
    using iv_update_postponed [OF w, of iv False t' env] t' u(2) assms(1) by (auto simp: ivu_postponed_def)
qed

section \<open>The phase\<close>

lemma ivu_phase_state:
  assumes "ivu_phase env s n t" "ivu_waits iv 0 s"
  shows "if n < 4 then ivu_waits iv n t else n = 4 \<and> (ivu_postponed iv t \<or> ivu_ended iv t)"
  using assms
proof (induction rule: ivu_phase.induct)
  case (tick n t)
  show ?case
  proof (cases "n < 3")
    case True
    then show ?thesis using tick tick_waits by auto
  next
    case False
    then show ?thesis using tick tick_due [of iv t env] by (cases "n = 3") (auto simp: ivu_postponed_def ivu_ended_def split: if_splits)
  qed
next
  case (beacon n t iv' u)
  show ?case
  proof (cases "n < 4")
    case True
    then show ?thesis using beacon iv_update_waits [of iv n t "seg_env env" iv' u] by simp
  next
    case False
    then have "n = 4" "ivu_postponed iv t" using beacon by (auto simp: ivu_ended_def)
    then show ?thesis
      using iv_update_postponed [of t iv iv' u _ env] by (auto simp: ivu_postponed_def split: if_splits)
  qed
next
  case (reset n t i t')
  show ?case
  proof (cases "n < 4")
    case True
    then show ?thesis using reset tx_reset_waits [of iv n t env i t'] by simp
  next
    case False
    then have "n = 4" "ivu_postponed iv t" using reset by (auto simp: ivu_ended_def)
    then show ?thesis using tx_reset_postponed [OF _ reset.hyps(3), of iv] by (auto split: if_splits)
  qed
next
  case (other n t t')
  then show ?case by (auto simp: ivu_waits_def ivu_postponed_def ivu_ended_def)
qed simp

text \<open>C18: the update phase ends. A node that enters the update phase stays in it, with the timer running, until the timer
  has expired four times (of 24 hours each), whatever beacons arrive and transmissions end meanwhile. The fourth expiry
  brings it back to normal operation, with the sequence number at 0, if no segmented transmission is in progress then;
  otherwise the end is postponed, and the first \<^verbatim>\<open>seg_tx_reset\<close> that leaves no transmission in progress ends the phase.
  A fifth expiry does not happen in the phase.\<close>

theorem net_iv_update_ends:
  assumes "ivu_phase env s n t" and "flags s BT_MESH_IVU_IN_PROGRESS" "bm_ivu_duration s = 0" "ivu_timer s = Some BT_MESH_IVU_TIMEOUT"
  shows "(if n < 4 then ivu_waits (bm_iv_index s) n t
      else n = 4 \<and> (ivu_postponed (bm_iv_index s) t \<or> ivu_ended (bm_iv_index s) t)) \<and>
    (n = 3 \<and> \<not> bt_mesh_tx_in_progress t \<longrightarrow> ivu_ended (bm_iv_index s) (ivu_refresh (seg_env env) t)) \<and>
    (n = 3 \<and> bt_mesh_tx_in_progress t \<longrightarrow> ivu_postponed (bm_iv_index s) (ivu_refresh (seg_env env) t)) \<and>
    (\<forall>i t'. ivu_postponed (bm_iv_index s) t \<and> seg_tx_reset env i t = Some t' \<longrightarrow>
      (if bt_mesh_tx_in_progress t' then ivu_postponed (bm_iv_index s) t' else ivu_ended (bm_iv_index s) t'))"
proof -
  have "ivu_waits (bm_iv_index s) 0 s" using assms(2-4) by (simp add: ivu_waits_def)
  note p = ivu_phase_state [OF assms(1) this]
  then show ?thesis using tick_due [of "bm_iv_index s" t env] tx_reset_postponed [of "bm_iv_index s" t env] by (auto split: if_splits)
qed

text \<open>A node without and one with a transmission in progress.\<close>

definition ivu_example :: "seg_tx list \<Rightarrow> trans_state" where
  "ivu_example txs = trans_example\<lparr>flags := (\<lambda>f. f = BT_MESH_VALID \<or> f = BT_MESH_IVU_IN_PROGRESS),
     ivu_timer := Some BT_MESH_IVU_TIMEOUT, seg_txs := txs\<rparr>"

lemma ivu_refresh_txs: "seg_txs (ivu_refresh env s) = seg_txs s"
  by (rule net_rest_trans(1)) (simp add: ivu_refresh_def Let_def net_rest_keep)

theorem net_iv_update_ends_witness:
  "(\<exists>t. ivu_phase (trans_env_example 7) (ivu_example [unused_seg_tx]) 3 t \<and>
     ivu_ended 6 (ivu_refresh (seg_env (trans_env_example 7)) t)) \<and>
   (\<exists>t. ivu_phase (trans_env_example 7) (ivu_example [seg_slot_example 5]) 3 t \<and>
     ivu_postponed 6 (ivu_refresh (seg_env (trans_env_example 7)) t))"
proof -
  let ?e = "trans_env_example 7"
  have ex: "\<exists>t. ivu_phase ?e (ivu_example txs) 3 t \<and>
      (if \<exists>tx \<in> set txs. st_nack_count tx \<noteq> 0 then ivu_postponed 6 (ivu_refresh (seg_env ?e) t)
       else ivu_ended 6 (ivu_refresh (seg_env ?e) t))" for txs
  proof -
    let ?s = "ivu_example txs" let ?t = "\<lambda>n. (ivu_refresh (seg_env ?e) ^^ n) ?s"
    have s: "flags ?s BT_MESH_IVU_IN_PROGRESS" "bm_ivu_duration ?s = 0" "ivu_timer ?s = Some BT_MESH_IVU_TIMEOUT"
      "bm_iv_index ?s = 6" "seg_txs ?s = txs" by (simp_all add: ivu_example_def trans_example_defs)
    have step: "ivu_phase ?e ?s (Suc n) (?t (Suc n))" if "ivu_phase ?e ?s n (?t n)" "n < 4" for n
      using net_iv_update_ends [OF that(1) s(1-3)] that ivu_phase.tick [OF that(1)] by (auto simp: ivu_waits_def)
    have p: "ivu_phase ?e ?s 3 (?t 3)"
      using step [of 0] step [of 1] step [of 2] ivu_phase.start [of ?e ?s] by (simp add: numeral_eq_Suc)
    have "seg_txs (?t n) = txs" for n by (induction n) (simp_all add: ivu_refresh_txs s)
    then have "bt_mesh_tx_in_progress (?t 3) \<longleftrightarrow> (\<exists>tx \<in> set txs. st_nack_count tx \<noteq> 0)"
      by (simp add: bt_mesh_tx_in_progress_def)
    then show ?thesis using p net_iv_update_ends [OF p s(1-3)] unfolding s(4) by (intro exI [of _ "?t 3"]) auto
  qed
  have "\<exists>t. ivu_phase ?e (ivu_example [unused_seg_tx]) 3 t \<and> ivu_ended 6 (ivu_refresh (seg_env ?e) t)"
    using ex [of "[unused_seg_tx]"] by (simp add: unused_seg_tx_def)
  moreover have "\<exists>t. ivu_phase ?e (ivu_example [seg_slot_example 5]) 3 t \<and> ivu_postponed 6 (ivu_refresh (seg_env ?e) t)"
    using ex [of "[seg_slot_example 5]"] by (simp add: seg_slot_example_def unused_seg_tx_def)
  ultimately show ?thesis ..
qed

end
