(* ===== verification/Transport_Va.thy ===== *)
theory Transport_Va
  imports Transport
begin

text \<open>
  The table of virtual addresses of transport.c as a finite multiset of labels: how often a label is in use is its
  reference count.
\<close>

section \<open>Abstraction\<close>

definition va_abs :: "'a trans_state_scheme \<Rightarrow> bytes \<Rightarrow> nat" where
  "va_abs s uuid = (case bt_mesh_va_find uuid s of None \<Rightarrow> 0 | Some i \<Rightarrow> unat (vt_ref (virtual_addrs s ! i)))"

text \<open>No label is in the table twice, and the counts fit into their 15 bits.\<close>

definition va_wf :: "'a trans_state_scheme \<Rightarrow> bool" where
  "va_wf s \<longleftrightarrow>
     (\<forall>i j. i < length (virtual_addrs s) \<and> j < length (virtual_addrs s) \<and> vt_ref (virtual_addrs s ! i) \<noteq> 0 \<and>
        vt_ref (virtual_addrs s ! j) \<noteq> 0 \<and> vt_uuid (virtual_addrs s ! i) = vt_uuid (virtual_addrs s ! j) \<longrightarrow> i = j) \<and>
     (\<forall>va \<in> set (virtual_addrs s). vt_ref va < 2 ^ 15)"

lemma va_find_iff:
  assumes "va_wf s"
  shows "bt_mesh_va_find uuid s = Some i \<longleftrightarrow>
    i < length (virtual_addrs s) \<and> vt_ref (virtual_addrs s ! i) \<noteq> 0 \<and> vt_uuid (virtual_addrs s ! i) = uuid"
proof -
  have "j = i" if "j < i" "i < length (virtual_addrs s)" "vt_ref (virtual_addrs s ! i) \<noteq> 0" "vt_ref (virtual_addrs s ! j) \<noteq> 0"
    "vt_uuid (virtual_addrs s ! j) = vt_uuid (virtual_addrs s ! i)" for i j
    using assms that less_trans[OF that(1,2)] by (auto simp: va_wf_def)
  then show ?thesis by (fastforce simp: bt_mesh_va_find_def find_idx_Some_iff va_matches_def)
qed

lemma virtual_addrs_store [simp]:
  "virtual_addrs (va_store i s) = (virtual_addrs s)[i := (virtual_addrs s ! i)\<lparr>vt_changed := True\<rparr>]"
  by (simp add: va_store_def bt_mesh_store_label_def schedule_store_def set_flag_def Let_def)

text \<open>A slot gets another count, and its label if it was free.\<close>

lemma va_set_slot:
  assumes wf: "va_wf s" and i: "i < length (virtual_addrs s)" and va: "vt_uuid va = uuid" "vt_ref va < 2 ^ 15"
    and slot: "(vt_ref (virtual_addrs s ! i) \<noteq> 0 \<and> vt_uuid (virtual_addrs s ! i) = uuid) \<or>
       (vt_ref (virtual_addrs s ! i) = 0 \<and> bt_mesh_va_find uuid s = None)"
    and s': "virtual_addrs s' = (virtual_addrs s)[i := va]"
  shows "va_wf s' \<and> va_abs s' = (va_abs s)(uuid := unat (vt_ref va))"
proof -
  let ?vs = "virtual_addrs s"
  have none: "vt_uuid (?vs ! j) \<noteq> uuid" if "j < length ?vs" "j \<noteq> i" "vt_ref (?vs ! j) \<noteq> 0" for j
  proof (cases "vt_ref (?vs ! i) = 0")
    case True
    then have "bt_mesh_va_find uuid s = None" using slot by blast
    then show ?thesis using that nth_mem[OF that(1)] by (auto simp: bt_mesh_va_find_def find_idx_None_iff va_matches_def)
  next
    case False
    then show ?thesis using slot wf that i by (auto simp: va_wf_def)
  qed
  have wf': "va_wf s'"
    unfolding va_wf_def s'
  proof (intro conjI allI impI ballI)
    fix j k
    assume "j < length (?vs[i := va]) \<and> k < length (?vs[i := va]) \<and> vt_ref (?vs[i := va] ! j) \<noteq> 0 \<and> vt_ref (?vs[i := va] ! k) \<noteq> 0 \<and>
      vt_uuid (?vs[i := va] ! j) = vt_uuid (?vs[i := va] ! k)"
    then show "j = k" using none va(1) wf i by (cases "j = i"; cases "k = i") (auto simp: va_wf_def)
  next
    fix x assume "x \<in> set (?vs[i := va])"
    then have "x = va \<or> x \<in> set ?vs" using set_update_subset_insert by fastforce
    then show "vt_ref x < 2 ^ 15" using va(2) wf by (auto simp: va_wf_def)
  qed
  have "va_abs s' u = ((va_abs s)(uuid := unat (vt_ref va))) u" for u
  proof (cases "u = uuid")
    case True
    show ?thesis
    proof (cases "vt_ref va = 0")
      case True
      then have "bt_mesh_va_find uuid s' = None"
        using none i by (auto simp: bt_mesh_va_find_def find_idx_None_iff va_matches_def in_set_conv_nth s' nth_list_update split: if_splits) blast
      then show ?thesis using \<open>u = uuid\<close> True by (simp add: va_abs_def)
    next
      case False
      then have "bt_mesh_va_find uuid s' = Some i" using va_find_iff[OF wf'] va(1) i by (simp add: s')
      then show ?thesis using \<open>u = uuid\<close> i by (simp add: va_abs_def s')
    qed
  next
    case False
    have "bt_mesh_va_find u s' = Some j \<longleftrightarrow> bt_mesh_va_find u s = Some j" for j
      using va_find_iff[OF wf'] va_find_iff[OF wf] slot va(1) False i by (cases "j = i") (auto simp: s')
    then have "bt_mesh_va_find u s' = bt_mesh_va_find u s" by (metis option.exhaust)
    moreover have "j \<noteq> i \<or> vt_ref (?vs ! j) = vt_ref va" if "bt_mesh_va_find u s = Some j" for j
      using that va_find_iff[OF wf] slot False by auto
    ultimately show ?thesis using False i by (auto simp: va_abs_def s' nth_list_update split: option.split)
  qed
  then show ?thesis using wf' by blast
qed

section \<open>Properties\<close>

text \<open>C24: virtual addresses. \<^verbatim>\<open>bt_mesh_va_add\<close> and \<^verbatim>\<open>bt_mesh_va_del\<close> count the uses of a label, of no label but the one
  they are called for, and keep the table well formed. A failed call changes no count: \<^verbatim>\<open>bt_mesh_va_add\<close>
  answers with \<^verbatim>\<open>STATUS_INSUFF_RESOURCES\<close> only for a new label and a full table, and \<^verbatim>\<open>bt_mesh_va_del\<close> fails exactly when the
  label is not in use. A label may be added at most
  32767 times.\<close>

theorem va_refinement:
  assumes wf: "va_wf s" and bound: "va_abs s uuid + 1 < 2 ^ 15"
  shows "(case bt_mesh_va_add tc uuid s of
      (Inr addr, s') \<Rightarrow> va_wf s' \<and> va_abs s' = (va_abs s)(uuid := va_abs s uuid + 1)
    | (Inl st, s') \<Rightarrow> va_wf s' \<and> va_abs s' = va_abs s \<and>
        (st = STATUS_INSUFF_RESOURCES \<longrightarrow> va_abs s uuid = 0 \<and> (\<forall>va \<in> set (virtual_addrs s). vt_ref va \<noteq> 0))) \<and>
    (case bt_mesh_va_del uuid s of
      (Inr addr, s') \<Rightarrow> 0 < va_abs s uuid \<and> va_wf s' \<and> va_abs s' = (va_abs s)(uuid := va_abs s uuid - 1)
    | (Inl st, s') \<Rightarrow> va_abs s uuid = 0 \<and> s' = s)"
proof (cases "bt_mesh_va_find uuid s")
  case None
  then have f: "find_idx (va_matches uuid) (virtual_addrs s) = None" and a: "va_abs s uuid = 0"
    by (simp_all add: bt_mesh_va_find_def va_abs_def)
  have del: "bt_mesh_va_del uuid s = (Inl STATUS_CANNOT_REMOVE, s)" using f by (simp add: bt_mesh_va_del_def)
  show ?thesis
  proof (cases "find_idx (\<lambda>va. vt_ref va = 0) (virtual_addrs s)")
    case none: None
    then have "bt_mesh_va_add tc uuid s = (Inl STATUS_INSUFF_RESOURCES, s)" using f by (simp add: bt_mesh_va_add_def)
    moreover from none have "\<forall>va \<in> set (virtual_addrs s). vt_ref va \<noteq> 0" by (simp add: find_idx_None_iff)
    ultimately show ?thesis using wf a del by simp
  next
    case (Some i)
    from find_idx_SomeD[OF Some] have i: "i < length (virtual_addrs s)" "vt_ref (virtual_addrs s ! i) = 0" by blast+
    show ?thesis
    proof (cases "bt_mesh_virtual_addr tc uuid")
      case (Inl e)
      let ?s = "s\<lparr>virtual_addrs := (virtual_addrs s)[i := (virtual_addrs s ! i)\<lparr>vt_uuid := uuid, vt_addr := BT_MESH_ADDR_UNASSIGNED\<rparr>]\<rparr>"
      have "bt_mesh_va_add tc uuid s = (Inl STATUS_UNSPECIFIED, ?s)" using f Some Inl by (simp add: bt_mesh_va_add_def Let_def)
      moreover have "va_wf ?s \<and> va_abs ?s = (va_abs s)(uuid := 0)"
        using va_set_slot[OF wf i(1), of "(virtual_addrs s ! i)\<lparr>vt_uuid := uuid, vt_addr := BT_MESH_ADDR_UNASSIGNED\<rparr>" uuid ?s] i None by simp
      moreover have "(va_abs s)(uuid := 0) = va_abs s" using a by (auto simp: fun_eq_iff)
      ultimately show ?thesis using del a by simp
    next
      case (Inr addr)
      let ?va = "(virtual_addrs s ! i)\<lparr>vt_uuid := uuid, vt_addr := addr, vt_ref := 1, vt_changed := True\<rparr>"
      obtain s' where s': "bt_mesh_va_add tc uuid s = (Inr addr, s')" "virtual_addrs s' = (virtual_addrs s)[i := ?va]"
        using f Some Inr i by (simp add: bt_mesh_va_add_def Let_def)
      have "va_wf s' \<and> va_abs s' = (va_abs s)(uuid := 1)"
        using va_set_slot[OF wf i(1), of ?va uuid s'] i None s'(2) by simp
      then show ?thesis using s'(1) del a by simp
    qed
  qed
next
  case (Some i)
  then have f: "find_idx (va_matches uuid) (virtual_addrs s) = Some i" and a: "va_abs s uuid = unat (vt_ref (virtual_addrs s ! i))"
    by (simp_all add: bt_mesh_va_find_def va_abs_def)
  from Some va_find_iff[OF wf] have i: "i < length (virtual_addrs s)" "vt_ref (virtual_addrs s ! i) \<noteq> 0"
    "vt_uuid (virtual_addrs s ! i) = uuid" by auto
  let ?va = "virtual_addrs s ! i"
  have pos: "0 < unat (vt_ref ?va)" using i(2) by (simp add: unat_gt_0)
  have up: "take_bit 15 (vt_ref ?va + 1) = vt_ref ?va + 1" "unat (vt_ref ?va + 1) = unat (vt_ref ?va) + 1"
  proof -
    show u: "unat (vt_ref ?va + 1) = unat (vt_ref ?va) + 1" using bound a by (simp add: unat_word_ariths)
    show "take_bit 15 (vt_ref ?va + 1) = vt_ref ?va + 1"
      by (rule take_bit_word_id) (use u bound a in \<open>simp_all add: word_less_nat_alt\<close>)
  qed
  have down: "take_bit 15 (vt_ref ?va - 1) = vt_ref ?va - 1" "unat (vt_ref ?va - 1) = unat (vt_ref ?va) - 1"
  proof -
    show u: "unat (vt_ref ?va - 1) = unat (vt_ref ?va) - 1" using i(2) by (simp add: unat_minus_one)
    show "take_bit 15 (vt_ref ?va - 1) = vt_ref ?va - 1"
      by (rule take_bit_word_id) (use u bound a in \<open>simp_all add: word_less_nat_alt\<close>)
  qed
  obtain s1 where s1: "bt_mesh_va_add tc uuid s = (Inr (vt_addr ?va), s1)"
    "virtual_addrs s1 = (virtual_addrs s)[i := ?va\<lparr>vt_ref := vt_ref ?va + 1, vt_changed := True\<rparr>]"
    using f i(1) up(1) by (simp add: bt_mesh_va_add_def Let_def)
  have 1: "va_wf s1 \<and> va_abs s1 = (va_abs s)(uuid := va_abs s uuid + 1)"
    using va_set_slot[OF wf i(1), of "?va\<lparr>vt_ref := vt_ref ?va + 1, vt_changed := True\<rparr>" uuid s1] i s1(2) up(2) bound a
    by (simp add: word_less_nat_alt)
  obtain s2 where s2: "bt_mesh_va_del uuid s = (Inr (vt_addr ?va), s2)"
    "virtual_addrs s2 = (virtual_addrs s)[i := ?va\<lparr>vt_ref := vt_ref ?va - 1, vt_changed := True\<rparr>]"
    using f i(1) down(1) by (simp add: bt_mesh_va_del_def Let_def)
  have 2: "va_wf s2 \<and> va_abs s2 = (va_abs s)(uuid := va_abs s uuid - 1)"
    using va_set_slot[OF wf i(1), of "?va\<lparr>vt_ref := vt_ref ?va - 1, vt_changed := True\<rparr>" uuid s2] i s2(2) down(2) bound a
    by (simp add: word_less_nat_alt)
  show ?thesis using s1(1) s2(1) 1 2 pos a by simp
qed

definition va_example :: trans_state where
  "va_example = (trans_boot 2 2 (\<lambda>_. None))\<lparr>virtual_addrs := [\<lparr>vt_ref = 3, vt_changed = False, vt_addr = 0x8001, vt_uuid = [1]\<rparr>, unused_va]\<rparr>"

theorem va_refinement_witness:
  "va_wf va_example \<and> va_abs va_example [1] = 3 \<and>
   (case bt_mesh_va_add tc_example [1] va_example of
      (Inr addr, s') \<Rightarrow> va_wf s' \<and> va_abs s' = (va_abs va_example)([1] := 4)
    | (Inl st, s') \<Rightarrow> False) \<and>
   (case bt_mesh_va_del [1] va_example of
      (Inr addr, s') \<Rightarrow> va_wf s' \<and> va_abs s' = (va_abs va_example)([1] := 2)
    | (Inl st, s') \<Rightarrow> False)"
proof -
  have v: "virtual_addrs va_example = [\<lparr>vt_ref = 3, vt_changed = False, vt_addr = 0x8001, vt_uuid = [1]\<rparr>, unused_va]"
    by (simp add: va_example_def)
  have wf: "va_wf va_example" by (auto simp: va_wf_def v less_Suc_eq unused_va_def)
  have a: "va_abs va_example [1] = 3" by (simp add: va_abs_def bt_mesh_va_find_def v va_matches_def)
  obtain x y s1 s2 where e: "bt_mesh_va_add tc_example [1] va_example = (Inr x, s1)" "bt_mesh_va_del [1] va_example = (Inr y, s2)"
    by (simp add: bt_mesh_va_add_def bt_mesh_va_del_def v va_matches_def)
  from va_refinement[OF wf, of "[1]" tc_example] a e wf show ?thesis by simp
qed

end
