(* ===== verification/Access.thy ===== *)
theory Access
  imports Transport
begin

text \<open>
  The access layer of subsys/bluetooth/mesh/access.c and access.h, with the types of
  include/bluetooth/mesh/access.h: the composition of the node, the dispatch of messages to models, sending and
  periodic publication, and the trees of models that extend each other.

  \<^item> A \<^verbatim>\<open>struct bt_mesh_model *\<close> is an index into \<open>models\<close>; an element has the indices of its SIG and vendor models.
    \<open>dev_comp\<close> is the registered composition. Every caller runs after \<^verbatim>\<open>bt_mesh_comp_register\<close>.
  \<^item> The publication context of a model is part of the model. Its timer is \<open>None\<close> when it is not running.
  \<^item> \<open>acc_env\<close> has the handlers that the models of the application bring along, and the environment of the transport
    layer. \<open>acc_trans env s\<close> is that environment with the functions of this file put in: the callbacks of a
    publication, \<^verbatim>\<open>bt_mesh_elem_find\<close>, \<^verbatim>\<open>bt_mesh_primary_addr\<close> and \<^verbatim>\<open>bt_mesh_model_recv\<close>.
  \<^item> \<^verbatim>\<open>CONFIG_BT_MESH_MODEL_EXTENSIONS\<close> is compiled in, as for the Beacon application.
\<close>

section \<open>Data\<close>

text \<open>\<open>op_func\<close> names the handler; the list of a model leaves out the end marker.\<close>

record bt_mesh_model_op =
  op_opcode :: u32
  op_min_len :: nat
  op_func :: nat

record bt_mesh_model_pub =
  pub_addr :: u16
  pub_key :: u16
  pub_cred :: bool
  pub_send_rel :: bool
  pub_ttl :: u8
  pub_retransmit :: u8
  pub_period :: u8
  pub_period_div :: u8
  pub_fast_period :: bool
  pub_count :: u8
  pub_period_start :: u32
  pub_msg :: net_buf_simple
  pub_update :: bool
  pub_timer :: "nat option"

text \<open>\<open>mo_id\<close> is \<^verbatim>\<open>id\<close> of a SIG model and \<^verbatim>\<open>vnd.company\<close> of a vendor model, which share their place.\<close>

record bt_mesh_model =
  mo_id :: u16
  mo_vnd_id :: u16
  mo_elem_idx :: nat
  mo_mod_idx :: nat
  mo_bind_pending :: bool
  mo_sub_pending :: bool
  mo_pub_pending :: bool
  mo_next_is_parent :: bool
  mo_pub :: "bt_mesh_model_pub option"
  mo_keys :: "u16 list"
  mo_groups :: "u16 list"
  mo_op :: "bt_mesh_model_op list"
  mo_init_cb :: bool
  mo_next :: "nat option"
  mo_extends :: "nat option"

record bt_mesh_elem =
  el_addr :: u16
  el_loc :: u16
  el_models :: "nat list"
  el_vnd_models :: "nat list"

record bt_mesh_comp =
  cp_cid :: u16
  cp_pid :: u16
  cp_vid :: u16
  cp_elem :: "bt_mesh_elem list"

record access_state = trans_state +
  dev_comp :: bt_mesh_comp
  models :: "bt_mesh_model list"
  dev_primary_addr :: u16

record 's acc_env =
  ae_trans :: "'s trans_env"
  ae_init :: "nat \<Rightarrow> 's \<Rightarrow> errno option \<times> 's"
  ae_update :: "nat \<Rightarrow> 's \<Rightarrow> errno option \<times> 's"
  ae_func :: "nat \<Rightarrow> nat \<Rightarrow> bt_mesh_msg_ctx \<Rightarrow> net_buf_simple \<Rightarrow> int \<Rightarrow> 's \<Rightarrow> (net_buf_simple \<times> 's) option"

abbreviation elems :: "'a access_state_scheme \<Rightarrow> bt_mesh_elem list" where "elems s \<equiv> cp_elem (dev_comp s)"

definition upd_mod :: "nat \<Rightarrow> (bt_mesh_model \<Rightarrow> bt_mesh_model) \<Rightarrow> 'a access_state_scheme \<Rightarrow> 'a access_state_scheme" where
  "upd_mod m f s = s\<lparr>models := (models s)[m := f (models s ! m)]\<rparr>"

text \<open>A change of the publication context, if the model has one.\<close>

definition upd_pub ::
    "nat \<Rightarrow> (bt_mesh_model_pub \<Rightarrow> bt_mesh_model_pub) \<Rightarrow> 'a access_state_scheme \<Rightarrow> 'a access_state_scheme" where
  "upd_pub m f s = upd_mod m (\<lambda>md. md\<lparr>mo_pub := map_option f (mo_pub md)\<rparr>) s"

definition BT_MESH_MODEL_OP_LEN :: "u32 \<Rightarrow> nat" where
  "BT_MESH_MODEL_OP_LEN op = (if op \<le> 0xff then 1 else if op \<le> 0xffff then 2 else 3)"

definition BT_MESH_MODEL_OP_1 :: "u8 \<Rightarrow> u32" where "BT_MESH_MODEL_OP_1 b0 = ucast b0"
definition BT_MESH_MODEL_OP_2 :: "u8 \<Rightarrow> u8 \<Rightarrow> u32" where
  "BT_MESH_MODEL_OP_2 b0 b1 = push_bit 8 (ucast b0) OR ucast b1"
definition BT_MESH_MODEL_OP_3 :: "u8 \<Rightarrow> u16 \<Rightarrow> u32" where
  "BT_MESH_MODEL_OP_3 b0 cid = (push_bit 16 (ucast b0) OR 0xc00000) OR ucast cid"

definition BT_MESH_PUB_TRANSMIT_COUNT :: "u8 \<Rightarrow> u8" where
  "BT_MESH_PUB_TRANSMIT_COUNT transmit = of_nat (BT_MESH_TRANSMIT_COUNT transmit)"
definition BT_MESH_PUB_TRANSMIT_INT :: "u8 \<Rightarrow> nat" where
  "BT_MESH_PUB_TRANSMIT_INT transmit = (unat (drop_bit 3 transmit) + 1) * 50"

section \<open>Models and elements\<close>

text \<open>The models in the order of \<^verbatim>\<open>bt_mesh_model_foreach\<close>: the index of the element, whether it is a vendor model, the model.\<close>

definition comp_models :: "bt_mesh_elem list \<Rightarrow> (nat \<times> bool \<times> nat) list" where
  "comp_models es = concat (map (\<lambda>(i, e). map (\<lambda>m. (i, False, m)) (el_models e) @ map (\<lambda>m. (i, True, m)) (el_vnd_models e))
     (enumerate 0 es))"

definition bt_mesh_model_foreach ::
    "(nat \<Rightarrow> nat \<Rightarrow> bool \<Rightarrow> bool \<Rightarrow> 'a access_state_scheme \<Rightarrow> 'a access_state_scheme) \<Rightarrow>
     'a access_state_scheme \<Rightarrow> 'a access_state_scheme" where
  "bt_mesh_model_foreach func s = fold (\<lambda>(i, vnd, m). func m i vnd (i = 0)) (comp_models (elems s)) s"

definition bt_mesh_model_elem :: "nat \<Rightarrow> 'a access_state_scheme \<Rightarrow> bt_mesh_elem" where
  "bt_mesh_model_elem m s = elems s ! mo_elem_idx (models s ! m)"

definition bt_mesh_model_get :: "bool \<Rightarrow> nat \<Rightarrow> nat \<Rightarrow> 'a access_state_scheme \<Rightarrow> nat option" where
  "bt_mesh_model_get vnd elem_idx mod_idx s =
     (if elem_idx \<ge> length (elems s) then None
      else let ms = (if vnd then el_vnd_models else el_models) (elems s ! elem_idx) in
        if mod_idx \<ge> length ms then None else Some (ms ! mod_idx))"

definition mod_init ::
    "'a access_state_scheme acc_env \<Rightarrow> nat \<Rightarrow> nat \<Rightarrow> bool \<Rightarrow> errno option \<times> 'a access_state_scheme \<Rightarrow>
     errno option \<times> 'a access_state_scheme" where
  "mod_init env m i vnd r =
     (case r of
        (Some err, s) \<Rightarrow> (Some err, s)
      | (None, s) \<Rightarrow>
          let ms = (if vnd then el_vnd_models else el_models) (elems s ! i);
              s = upd_mod m (\<lambda>md. md\<lparr>mo_pub := map_option (pub_timer_update (\<lambda>_. None)) (mo_pub md),
                    mo_keys := map (\<lambda>_. BT_MESH_KEY_UNUSED) (mo_keys md), mo_elem_idx := i,
                    mo_mod_idx := the (find_idx (\<lambda>x. x = m) ms)\<rparr>) s in
          if mo_init_cb (models s ! m) then ae_init env m s else (None, s))"

definition bt_mesh_comp_register ::
    "'a access_state_scheme acc_env \<Rightarrow> bt_mesh_comp \<Rightarrow> 'a access_state_scheme \<Rightarrow> errno option \<times> 'a access_state_scheme" where
  "bt_mesh_comp_register env c s =
     (if cp_elem c = [] then (Some EINVAL, s)
      else fold (\<lambda>(i, vnd, m). mod_init env m i vnd) (comp_models (cp_elem c)) (None, s\<lparr>dev_comp := c\<rparr>))"

definition bt_mesh_comp_provision :: "u16 \<Rightarrow> 'a access_state_scheme \<Rightarrow> 'a access_state_scheme" where
  "bt_mesh_comp_provision addr s =
     s\<lparr>dev_primary_addr := addr,
       dev_comp := (dev_comp s)\<lparr>cp_elem := map (\<lambda>(i, e). e\<lparr>el_addr := addr + of_nat i\<rparr>) (enumerate 0 (elems s))\<rparr>\<rparr>"

definition bt_mesh_comp_unprovision :: "'a access_state_scheme \<Rightarrow> 'a access_state_scheme" where
  "bt_mesh_comp_unprovision s = s\<lparr>dev_primary_addr := BT_MESH_ADDR_UNASSIGNED\<rparr>"

definition bt_mesh_primary_addr :: "'a access_state_scheme \<Rightarrow> u16" where
  "bt_mesh_primary_addr s = dev_primary_addr s"

definition bt_mesh_elem_count :: "'a access_state_scheme \<Rightarrow> u8" where
  "bt_mesh_elem_count s = of_nat (length (elems s))"

definition bt_mesh_model_find_vnd :: "bt_mesh_elem \<Rightarrow> u16 \<Rightarrow> u16 \<Rightarrow> 'a access_state_scheme \<Rightarrow> nat option" where
  "bt_mesh_model_find_vnd elem company mid s =
     find (\<lambda>m. mo_id (models s ! m) = company \<and> mo_vnd_id (models s ! m) = mid) (el_vnd_models elem)"

definition bt_mesh_model_find :: "bt_mesh_elem \<Rightarrow> u16 \<Rightarrow> 'a access_state_scheme \<Rightarrow> nat option" where
  "bt_mesh_model_find elem mid s = find (\<lambda>m. mo_id (models s ! m) = mid) (el_models elem)"

section \<open>Trees of models\<close>

text \<open>
  The models that extend each other are linked in a cycle: \<^verbatim>\<open>extends\<close> is the first child, \<^verbatim>\<open>next\<close> the next sibling or,
  for the last one, the parent. Nothing in the two loops bounds the number of rounds.
\<close>

partial_function (option) bt_mesh_model_root :: "nat \<Rightarrow> 'a access_state_scheme \<Rightarrow> nat option" where
  "bt_mesh_model_root m s =
     (case mo_next (models s ! m) of None \<Rightarrow> Some m | Some m' \<Rightarrow> bt_mesh_model_root m' s)"

datatype bt_mesh_walk = BT_MESH_WALK_STOP | BT_MESH_WALK_CONTINUE

text \<open>
  \<open>cb\<close> is called with the model, its depth, and what it works on: \<open>lk\<close> reads the links of a model from that. The model
  that comes next is at the parent after \<^verbatim>\<open>NEXT_IS_PARENT\<close>, and is then skipped.
\<close>

definition walk_next :: "bt_mesh_model \<Rightarrow> int \<Rightarrow> bool \<Rightarrow> nat option \<times> int \<times> bool" where
  "walk_next md depth skip =
     (if \<not> skip \<and> mo_extends md \<noteq> None then (mo_extends md, depth + 1, skip)
      else if mo_next_is_parent md then (mo_next md, depth - 1, True)
      else (mo_next md, depth, False))"

partial_function (option) tree_walk_loop ::
    "('u \<Rightarrow> nat \<Rightarrow> bt_mesh_model) \<Rightarrow> (nat \<Rightarrow> int \<Rightarrow> 'u \<Rightarrow> bt_mesh_walk \<times> 'u) \<Rightarrow> nat \<Rightarrow> int \<Rightarrow> bool \<Rightarrow> 'u \<Rightarrow> 'u option" where
  "tree_walk_loop lk cb m depth skip u =
     (let (r, u) = (if skip then (BT_MESH_WALK_CONTINUE, u) else cb m depth u) in
      if r = BT_MESH_WALK_STOP then Some u
      else case walk_next (lk u m) depth skip of
        (None, depth, skip) \<Rightarrow> Some u
      | (Some m', depth, skip) \<Rightarrow> if depth > 0 then tree_walk_loop lk cb m' depth skip u else Some u)"

definition bt_mesh_model_tree_walk ::
    "('u \<Rightarrow> nat \<Rightarrow> bt_mesh_model) \<Rightarrow> nat \<Rightarrow> (nat \<Rightarrow> int \<Rightarrow> 'u \<Rightarrow> bt_mesh_walk \<times> 'u) \<Rightarrow> 'u \<Rightarrow> 'u option" where
  "bt_mesh_model_tree_walk lk root cb u = tree_walk_loop lk cb root 0 False u"

definition bt_mesh_model_extend :: "nat \<Rightarrow> nat \<Rightarrow> 'a access_state_scheme \<Rightarrow> errno option \<times> 'a access_state_scheme" where
  "bt_mesh_model_extend m base s =
     (if mo_next (models s ! base) \<noteq> None then (Some EALREADY, s)
      else let s = (case mo_extends (models s ! m) of
                      Some c \<Rightarrow> upd_mod base (\<lambda>md. md\<lparr>mo_next := Some c\<rparr>) s
                    | None \<Rightarrow> upd_mod base (\<lambda>md. md\<lparr>mo_next := Some m, mo_next_is_parent := True\<rparr>) s) in
        (None, upd_mod m (\<lambda>md. md\<lparr>mo_extends := Some base\<rparr>) s))"

section \<open>Addresses\<close>

text \<open>The index of the entry.\<close>

definition model_group_get :: "bt_mesh_model \<Rightarrow> u16 \<Rightarrow> nat option" where
  "model_group_get md addr = find_idx (\<lambda>g. g = addr) (mo_groups md)"

text \<open>The context of the visitor is the model and the entry.\<close>

definition find_group_mod_visitor ::
    "'a access_state_scheme \<Rightarrow> u16 \<Rightarrow> nat \<Rightarrow> int \<Rightarrow> nat \<times> nat option \<Rightarrow> bt_mesh_walk \<times> nat \<times> nat option" where
  "find_group_mod_visitor s addr m depth c =
     (case c of (cm, entry) \<Rightarrow>
        if mo_elem_idx (models s ! m) \<noteq> mo_elem_idx (models s ! cm) then (BT_MESH_WALK_CONTINUE, cm, entry)
        else case model_group_get (models s ! m) addr of
          Some g \<Rightarrow> (BT_MESH_WALK_STOP, m, Some g)
        | None \<Rightarrow> (BT_MESH_WALK_CONTINUE, cm, None))"

definition bt_mesh_model_find_group :: "nat \<Rightarrow> u16 \<Rightarrow> 'a access_state_scheme \<Rightarrow> (nat \<times> nat option) option" where
  "bt_mesh_model_find_group m addr s =
     do {
       root \<leftarrow> bt_mesh_model_root m s;
       bt_mesh_model_tree_walk (\<lambda>_ k. models s ! k) root (find_group_mod_visitor s addr) (m, None) }"

definition bt_mesh_elem_find_group :: "bt_mesh_elem \<Rightarrow> u16 \<Rightarrow> 'a access_state_scheme \<Rightarrow> nat option" where
  "bt_mesh_elem_find_group elem group_addr s =
     find (\<lambda>m. model_group_get (models s ! m) group_addr \<noteq> None) (el_models elem @ el_vnd_models elem)"

definition bt_mesh_elem_find :: "u16 \<Rightarrow> 'a access_state_scheme \<Rightarrow> nat option" where
  "bt_mesh_elem_find addr s =
     (if BT_MESH_ADDR_IS_UNICAST addr then
        let index = unat (addr - el_addr (elems s ! 0)) in if index < length (elems s) then Some index else None
      else find_idx (\<lambda>e. bt_mesh_elem_find_group e addr s \<noteq> None) (elems s))"

definition model_has_key :: "bt_mesh_model \<Rightarrow> u16 \<Rightarrow> bool" where
  "model_has_key md key \<longleftrightarrow>
     (\<exists>k \<in> set (mo_keys md). k = key \<or> k = BT_MESH_KEY_DEV_ANY \<and> BT_MESH_IS_DEV_KEY key)"

definition model_has_dst :: "nat \<Rightarrow> u16 \<Rightarrow> 'a access_state_scheme \<Rightarrow> bool option" where
  "model_has_dst m dst s =
     (if BT_MESH_ADDR_IS_UNICAST dst then Some (el_addr (bt_mesh_model_elem m s) = dst)
      else if BT_MESH_ADDR_IS_GROUP dst \<or> BT_MESH_ADDR_IS_VIRTUAL dst then
        map_option (\<lambda>(_, entry). entry \<noteq> None) (bt_mesh_model_find_group m dst s)
      else Some (mo_elem_idx (models s ! m) = 0))"

section \<open>Receiving\<close>

text \<open>The first model with the opcode, and the operation.\<close>

primrec find_op :: "bt_mesh_model list \<Rightarrow> nat list \<Rightarrow> u32 \<Rightarrow> (nat \<times> bt_mesh_model_op) option" where
  "find_op mods [] opcode = None"
| "find_op mods (m # ms) opcode =
     (case find (\<lambda>op. op_opcode op = opcode) (mo_op (mods ! m)) of
        Some op \<Rightarrow> Some (m, op)
      | None \<Rightarrow> find_op mods ms opcode)"

text \<open>The first byte is read from the storage, whatever the length is.\<close>

definition get_opcode :: "net_buf_simple \<Rightarrow> (errno + (u32 \<times> net_buf_simple)) option" where
  "get_opcode buf =
     (if nb_off buf \<ge> nb_size buf then None
      else let b0 = nb_store buf ! nb_off buf in
        if drop_bit 6 b0 \<le> 1 then
          (if b0 = 0x7f then Some (Inl EINVAL)
           else do { (b, buf) \<leftarrow> net_buf_simple_pull_u8 buf; Some (Inr (ucast b, buf)) })
        else if drop_bit 6 b0 = 2 then
          (if nb_len buf < 2 then Some (Inl EINVAL)
           else do { (w, buf) \<leftarrow> net_buf_simple_pull_be16 buf; Some (Inr (ucast w, buf)) })
        else
          (if nb_len buf < 3 then Some (Inl EINVAL)
           else do { (b, buf) \<leftarrow> net_buf_simple_pull_u8 buf; (w, buf) \<leftarrow> net_buf_simple_pull_le16 buf;
             Some (Inr (push_bit 16 (ucast b) OR ucast w, buf)) }))"

text \<open>
  One element. The handler gets the buffer behind the opcode and may move its start; \<open>recv_elem\<close> gives back the buffer
  with start and length restored.
\<close>

definition recv_elem ::
    "'a access_state_scheme acc_env \<Rightarrow> bt_mesh_net_rx \<Rightarrow> u32 \<Rightarrow> int \<Rightarrow> nat \<Rightarrow> net_buf_simple \<times> 'a access_state_scheme \<Rightarrow>
     (net_buf_simple \<times> 'a access_state_scheme) option" where
  "recv_elem env rx opcode rssi i bs =
     (case bs of (buf, s) \<Rightarrow>
        let elem = elems s ! i; ms = (if BT_MESH_MODEL_OP_LEN opcode < 3 then el_models elem else el_vnd_models elem) in
        case find_op (models s) ms opcode of
          None \<Rightarrow> Some (buf, s)
        | Some (m, op) \<Rightarrow>
            if \<not> model_has_key (models s ! m) (ctx_app_idx (rx_ctx rx)) then Some (buf, s)
            else do {
              dst \<leftarrow> model_has_dst m (ctx_recv_dst (rx_ctx rx)) s;
              if \<not> dst then Some (buf, s)
              else if nb_len buf < op_min_len op then Some (buf, s)
              else do {
                let state = net_buf_simple_save buf;
                (buf, s) \<leftarrow> ae_func env (op_func op) m (rx_ctx rx) buf rssi s;
                Some (net_buf_simple_restore buf state, s) } })"

primrec recv_elems ::
    "'a access_state_scheme acc_env \<Rightarrow> bt_mesh_net_rx \<Rightarrow> u32 \<Rightarrow> int \<Rightarrow> nat list \<Rightarrow>
     net_buf_simple \<times> 'a access_state_scheme \<Rightarrow> (net_buf_simple \<times> 'a access_state_scheme) option" where
  "recv_elems env rx opcode rssi [] bs = Some bs"
| "recv_elems env rx opcode rssi (i # l) bs = Option.bind (recv_elem env rx opcode rssi i bs) (recv_elems env rx opcode rssi l)"

definition bt_mesh_model_recv ::
    "'a access_state_scheme acc_env \<Rightarrow> bt_mesh_net_rx \<Rightarrow> net_buf_simple \<Rightarrow> int \<Rightarrow> 'a access_state_scheme \<Rightarrow>
     'a access_state_scheme option" where
  "bt_mesh_model_recv env rx buf rssi s =
     (case get_opcode buf of
        None \<Rightarrow> None
      | Some (Inl err) \<Rightarrow> Some s
      | Some (Inr (opcode, buf)) \<Rightarrow>
          map_option snd (recv_elems env rx opcode rssi [0..<length (elems s)] (buf, s)))"

section \<open>Publication: the period\<close>

text \<open>At most 63 steps of 10 minutes: the values fit a 32-bit integer.\<close>

definition bt_mesh_model_pub_period_get :: "bt_mesh_model \<Rightarrow> nat" where
  "bt_mesh_model_pub_period_get md =
     (case mo_pub md of
        None \<Rightarrow> 0
      | Some pub \<Rightarrow>
          let steps = unat (pub_period pub AND mask 6);
              period = steps * (if drop_bit 6 (pub_period pub) = 0 then 100
                else if drop_bit 6 (pub_period pub) = 1 then 1000
                else if drop_bit 6 (pub_period pub) = 2 then 10 * 1000 else 600 * 1000) in
          if pub_fast_period pub then period div 2 ^ unat (pub_period_div pub) else period)"

definition next_period :: "'a access_state_scheme acc_env \<Rightarrow> nat \<Rightarrow> 'a access_state_scheme \<Rightarrow> nat" where
  "next_period env m s =
     (let period = bt_mesh_model_pub_period_get (models s ! m) in
      if period = 0 then 0
      else let elapsed = unat (te_uptime (ae_trans env) s - pub_period_start (the (mo_pub (models s ! m)))) in
        if elapsed \<ge> period then 1 else period - elapsed)"

text \<open>The callbacks run for models with a publication context only.\<close>

definition publish_sent ::
    "'a access_state_scheme acc_env \<Rightarrow> nat \<Rightarrow> errno option \<Rightarrow> 'a access_state_scheme \<Rightarrow> 'a access_state_scheme" where
  "publish_sent env m err s =
     (let pub = the (mo_pub (models s ! m));
          delay = (if pub_count pub \<noteq> 0 then BT_MESH_PUB_TRANSMIT_INT (pub_retransmit pub) else next_period env m s) in
      if delay \<noteq> 0 then upd_pub m (pub_timer_update (\<lambda>_. Some delay)) s else s)"

definition publish_start ::
    "'a access_state_scheme acc_env \<Rightarrow> nat \<Rightarrow> u16 \<Rightarrow> errno option \<Rightarrow> 'a access_state_scheme \<Rightarrow> 'a access_state_scheme" where
  "publish_start env m duration err s =
     (if err \<noteq> None then s
      else let pub = the (mo_pub (models s ! m)) in
        if pub_count pub = BT_MESH_PUB_TRANSMIT_COUNT (pub_retransmit pub)
        then upd_pub m (pub_period_start_update (\<lambda>_. te_uptime (ae_trans env) s)) s else s)"

definition pub_sent_cb :: "'a access_state_scheme acc_env \<Rightarrow> 'a access_state_scheme cb_sem" where
  "pub_sent_cb env =
     \<lparr>cb_start = (\<lambda>c duration err s. case c of CB_pub m \<Rightarrow> publish_start env m duration err s
                    | _ \<Rightarrow> cb_start (ne_cbs (te_net (ae_trans env))) c duration err s),
      cb_end = (\<lambda>c err s. case c of CB_pub m \<Rightarrow> publish_sent env m err s
                    | _ \<Rightarrow> cb_end (ne_cbs (te_net (ae_trans env))) c err s)\<rparr>"

definition acc_trans ::
    "'a access_state_scheme acc_env \<Rightarrow> 'a access_state_scheme \<Rightarrow> 'a access_state_scheme trans_env" where
  "acc_trans env s =
     (ae_trans env)\<lparr>te_net := (te_net (ae_trans env))\<lparr>ne_cbs := pub_sent_cb env,
                      ne_elem_find := (\<lambda>a. bt_mesh_elem_find a s \<noteq> None)\<rparr>,
       te_primary_addr := bt_mesh_primary_addr, te_model_recv := bt_mesh_model_recv env\<rparr>"

section \<open>Sending\<close>

definition bt_mesh_model_msg_init :: "net_buf_simple \<Rightarrow> u32 \<Rightarrow> net_buf_simple option" where
  "bt_mesh_model_msg_init msg opcode =
     (let msg = net_buf_simple_init msg 0; n = BT_MESH_MODEL_OP_LEN opcode in
      if n = 1 then net_buf_simple_add_u8 msg (ucast opcode)
      else if n = 2 then net_buf_simple_add_be16 msg (ucast opcode)
      else do {
        msg \<leftarrow> net_buf_simple_add_u8 msg (ucast (drop_bit 16 opcode AND 0xff));
        net_buf_simple_add_le16 msg (ucast (opcode AND 0xffff)) })"

definition model_send ::
    "'a access_state_scheme acc_env \<Rightarrow> nat \<Rightarrow> bt_mesh_net_tx \<Rightarrow> bool \<Rightarrow> net_buf_simple \<Rightarrow> send_cb option \<Rightarrow>
     'a access_state_scheme \<Rightarrow> (errno option \<times> 'a access_state_scheme) option" where
  "model_send env m tx implicit_bind msg cb s =
     (if \<not> bt_mesh_is_provisioned s then Some (Some EAGAIN, s)
      else if net_buf_simple_tailroom msg < 4 then Some (Some EINVAL, s)
      else if nb_len msg > BT_MESH_TX_SDU_MAX - 4 then Some (Some EMSGSIZE, s)
      else if \<not> implicit_bind \<and> \<not> model_has_key (models s ! m) (ctx_app_idx (tx_ctx tx)) then Some (Some EINVAL, s)
      else bt_mesh_trans_send (acc_trans env s) tx msg cb s)"

text \<open>The parameters of the lower layers: the members that the initialisers leave out are 0.\<close>

definition model_net_tx :: "u16 \<Rightarrow> bt_mesh_msg_ctx \<Rightarrow> bool \<Rightarrow> bt_mesh_net_tx" where
  "model_net_tx src ctx cred =
     \<lparr>tx_sub = 0, tx_ctx = ctx, tx_src = src, tx_xmit = 0, tx_friend_cred = cred, tx_aszmic = False, tx_aid = 0\<rparr>"

definition bt_mesh_model_send ::
    "'a access_state_scheme acc_env \<Rightarrow> nat \<Rightarrow> bt_mesh_msg_ctx \<Rightarrow> net_buf_simple \<Rightarrow> send_cb option \<Rightarrow>
     'a access_state_scheme \<Rightarrow> (errno option \<times> 'a access_state_scheme) option" where
  "bt_mesh_model_send env m ctx msg cb s =
     model_send env m (model_net_tx (el_addr (bt_mesh_model_elem m s)) ctx False) False msg cb s"

definition publish_retransmit ::
    "'a access_state_scheme acc_env \<Rightarrow> nat \<Rightarrow> 'a access_state_scheme \<Rightarrow> (errno option \<times> 'a access_state_scheme) option" where
  "publish_retransmit env m s =
     do {
       pub \<leftarrow> mo_pub (models s ! m);
       let ctx = empty_ctx\<lparr>ctx_addr := pub_addr pub, ctx_send_ttl := pub_ttl pub, ctx_app_idx := pub_key pub\<rparr>;
       let tx = model_net_tx (el_addr (bt_mesh_model_elem m s)) ctx (pub_cred pub);
       sdu \<leftarrow> net_buf_simple_add_mem (NET_BUF_SIMPLE_DEFINE (replicate BT_MESH_TX_SDU_MAX 0)) (nb_data (pub_msg pub));
       let s = upd_pub m (\<lambda>pub. pub\<lparr>pub_count := pub_count pub - 1\<rparr>) s;
       bt_mesh_trans_send (acc_trans env s) tx sdu (Some (CB_pub m)) s }"

definition publish_retransmit_end ::
    "'a access_state_scheme acc_env \<Rightarrow> nat \<Rightarrow> errno option \<Rightarrow> 'a access_state_scheme \<Rightarrow> 'a access_state_scheme" where
  "publish_retransmit_end env m err s = publish_sent env m err (upd_pub m (pub_count_update (\<lambda>_. 0)) s)"

text \<open>
  The context is set up from \<^verbatim>\<open>pub\<close> before the code tests whether there is one: without a publication context the
  code reads through a null pointer.
\<close>

definition bt_mesh_model_publish ::
    "'a access_state_scheme acc_env \<Rightarrow> nat \<Rightarrow> 'a access_state_scheme \<Rightarrow> (errno option \<times> 'a access_state_scheme) option" where
  "bt_mesh_model_publish env m s =
     (case mo_pub (models s ! m) of
        None \<Rightarrow> None
      | Some pub \<Rightarrow>
          if pub_addr pub = BT_MESH_ADDR_UNASSIGNED then Some (Some EADDRNOTAVAIL, s)
          else if nb_len (pub_msg pub) + 4 > BT_MESH_TX_SDU_MAX then Some (Some EMSGSIZE, s)
          else do {
            let ctx = empty_ctx\<lparr>ctx_addr := pub_addr pub, ctx_send_ttl := pub_ttl pub, ctx_send_rel := pub_send_rel pub,
                        ctx_app_idx := pub_key pub\<rparr>;
            let tx = model_net_tx (el_addr (bt_mesh_model_elem m s)) ctx (pub_cred pub);
            let s = (if pub_count pub \<noteq> 0 then upd_pub m (pub_timer_update (\<lambda>_. None)) s else s);
            sdu \<leftarrow> net_buf_simple_add_mem (NET_BUF_SIMPLE_DEFINE (replicate BT_MESH_TX_SDU_MAX 0)) (nb_data (pub_msg pub));
            let s = upd_pub m (pub_count_update (\<lambda>_. BT_MESH_PUB_TRANSMIT_COUNT (pub_retransmit pub))) s;
            (err, s) \<leftarrow> model_send env m tx True sdu (Some (CB_pub m)) s;
            Some (case err of None \<Rightarrow> (None, s) | Some e \<Rightarrow> (Some e, publish_retransmit_end env m (Some e) s)) })"

text \<open>The timer of a model has run out.\<close>

definition mod_publish ::
    "'a access_state_scheme acc_env \<Rightarrow> nat \<Rightarrow> 'a access_state_scheme \<Rightarrow> 'a access_state_scheme option" where
  "mod_publish env m s0 =
     (let s = upd_pub m (pub_timer_update (\<lambda>_. None)) s0; period_ms = bt_mesh_model_pub_period_get (models s ! m) in
      do {
        pub \<leftarrow> mo_pub (models s ! m);
        if pub_count pub \<noteq> 0 then do {
          (err, s) \<leftarrow> publish_retransmit env m s;
          Some (if err = None then s
                else let s = upd_pub m (pub_count_update (\<lambda>_. 0)) s in
                  if period_ms \<noteq> 0 then upd_pub m (pub_timer_update (\<lambda>_. Some period_ms)) s else s) }
        else if period_ms = 0 then Some s
        else if \<not> pub_update pub then None
        else case ae_update env m s of
          (Some err, s) \<Rightarrow>
            Some (publish_retransmit_end env m (Some err) (upd_pub m (pub_period_start_update (\<lambda>_. te_uptime (ae_trans env) s)) s))
        | (None, s) \<Rightarrow> map_option snd (bt_mesh_model_publish env m s) })"

end
