(* ===== verification/Access_Tree.thy ===== *)
theory Access_Tree
  imports Access
begin

text \<open>
  The trees of models that extend each other. \<open>ext_tree\<close> is what the cyclic links of \<^verbatim>\<open>bt_mesh_model_extend\<close> stand for:
  \<open>rep lk t\<close> says that the links \<open>lk\<close> are those of \<open>t\<close>, and \<open>forest es s\<close> that the models of the node fall into such trees,
  one for each class of models that the calls \<open>es\<close> of \<^verbatim>\<open>bt_mesh_model_extend\<close> have connected. From this follow that the
  loops of access.c end, that a walk visits each model of the tree once, parents first, and whom a group
  address reaches.
\<close>

section \<open>Trees and their links\<close>

datatype ext_tree = Ext nat "ext_tree list"

primrec ext_root :: "ext_tree \<Rightarrow> nat" where
  "ext_root (Ext m ts) = m"

primrec ext_kids :: "ext_tree \<Rightarrow> ext_tree list" where
  "ext_kids (Ext m ts) = ts"

primrec ext_nodes :: "ext_tree \<Rightarrow> nat list" where
  "ext_nodes (Ext m ts) = m # concat (map ext_nodes ts)"

primrec preorder :: "int \<Rightarrow> ext_tree \<Rightarrow> (nat \<times> int) list" where
  "preorder d (Ext m ts) = (m, d) # concat (map (preorder (d + 1)) ts)"

definition link :: "bt_mesh_model \<Rightarrow> nat option \<times> nat option \<times> bool" where
  "link md = (mo_extends md, mo_next md, mo_next_is_parent md)"

fun chain :: "(nat \<Rightarrow> bt_mesh_model) \<Rightarrow> nat \<Rightarrow> nat list \<Rightarrow> bool" where
  "chain lk p [] \<longleftrightarrow> True"
| "chain lk p [m] \<longleftrightarrow> mo_next (lk m) = Some p \<and> mo_next_is_parent (lk m)"
| "chain lk p (m # m' # ms) \<longleftrightarrow> mo_next (lk m) = Some m' \<and> \<not> mo_next_is_parent (lk m) \<and> chain lk p (m' # ms)"

primrec rep :: "(nat \<Rightarrow> bt_mesh_model) \<Rightarrow> ext_tree \<Rightarrow> bool" where
  "rep lk (Ext m ts) \<longleftrightarrow>
     mo_extends (lk m) = (case map ext_root ts of [] \<Rightarrow> None | r # _ \<Rightarrow> Some r) \<and> list_all id (map (rep lk) ts) \<and>
     chain lk m (map ext_root ts)"

lemma ext_root_in [simp]: "ext_root t \<in> set (ext_nodes t)"
  by (cases t) simp

lemma preorder_nodes: "map fst (preorder d t) = ext_nodes t"
  by (induction t arbitrary: d) (simp add: map_concat comp_def cong: map_cong)

section \<open>The walk\<close>

primrec visit :: "(nat \<Rightarrow> int \<Rightarrow> 'u \<Rightarrow> bt_mesh_walk \<times> 'u) \<Rightarrow> (nat \<times> int) list \<Rightarrow> 'u \<Rightarrow> bt_mesh_walk \<times> 'u" where
  "visit cb [] u = (BT_MESH_WALK_CONTINUE, u)"
| "visit cb (x # l) u = (case cb (fst x) (snd x) u of
     (BT_MESH_WALK_STOP, u) \<Rightarrow> (BT_MESH_WALK_STOP, u) | (BT_MESH_WALK_CONTINUE, u) \<Rightarrow> visit cb l u)"

lemma visit_append:
  "visit cb (l @ l') u = (case visit cb l u of
     (BT_MESH_WALK_STOP, u) \<Rightarrow> (BT_MESH_WALK_STOP, u) | (BT_MESH_WALK_CONTINUE, u) \<Rightarrow> visit cb l' u)"
  by (induction l arbitrary: u) (auto split: prod.splits bt_mesh_walk.splits)

definition keeps_links :: "('u \<Rightarrow> nat \<Rightarrow> bt_mesh_model) \<Rightarrow> (nat \<Rightarrow> int \<Rightarrow> 'u \<Rightarrow> bt_mesh_walk \<times> 'u) \<Rightarrow> bool" where
  "keeps_links lk cb \<longleftrightarrow> (\<forall>m d u k. link (lk (snd (cb m d u)) k) = link (lk u k))"

lemma visit_links: "keeps_links lk cb \<Longrightarrow> link (lk (snd (visit cb l u)) k) = link (lk u k)"
proof (induction l arbitrary: u)
  case (Cons x l)
  obtain r v where v: "cb (fst x) (snd x) u = (r, v)" by fastforce
  then have "link (lk v k) = link (lk u k)" using Cons.prems by (metis keeps_links_def snd_conv)
  with Cons.IH [OF Cons.prems, of v] v show ?case by (cases r) simp_all
qed simp

lemma chain_cong: "(\<And>k. link (lk k) = link (lk' k)) \<Longrightarrow> chain lk p ms = chain lk' p ms"
  by (induction lk p ms rule: chain.induct) (auto simp: link_def)

lemma rep_link_cong:
  assumes "\<And>k. link (lk k) = link (lk' k)"
  shows "rep lk t = rep lk' t"
proof (induction t)
  case (Ext m ts)
  then have "list_all id (map (rep lk) ts) = list_all id (map (rep lk') ts)" by (simp add: list_all_iff)
  moreover have "mo_extends (lk m) = mo_extends (lk' m)" using assms [of m] by (simp add: link_def)
  ultimately show ?case using chain_cong [of lk lk' m "map ext_root ts", OF assms] by simp
qed

text \<open>The continuation of a walk after it has visited a list of models.\<close>

definition after :: "bt_mesh_walk \<times> 'u \<Rightarrow> ('u \<Rightarrow> 'u option) \<Rightarrow> 'u option" where
  "after r k = (case r of (BT_MESH_WALK_STOP, u) \<Rightarrow> Some u | (BT_MESH_WALK_CONTINUE, u) \<Rightarrow> k u)"

lemma after_append: "after (visit cb (l @ l') u) k = after (visit cb l u) (\<lambda>u. after (visit cb l' u) k)"
  by (auto simp: after_def visit_append split: prod.splits bt_mesh_walk.splits)

lemma after_cong:
  assumes "keeps_links lk cb" "\<And>v. (\<And>k. link (lk v k) = link (lk u k)) \<Longrightarrow> f v = g v"
  shows "after (visit cb l u) f = after (visit cb l u) g"
proof -
  obtain r v where "visit cb l u = (r, v)" by fastforce
  with visit_links [OF assms(1), of l u] assms(2) [of v] show ?thesis
    by (cases r) (simp_all add: after_def)
qed

lemma loop_skip:
  "tree_walk_loop lk cb m d True u =
     (case mo_next (lk u m) of None \<Rightarrow> Some u
      | Some m' \<Rightarrow> if mo_next_is_parent (lk u m) then (if d - 1 > 0 then tree_walk_loop lk cb m' (d - 1) True u else Some u)
          else if d > 0 then tree_walk_loop lk cb m' d False u else Some u)"
  by (subst tree_walk_loop.simps) (auto simp: walk_next_def split: option.splits)

lemma loop_visit:
  assumes "mo_extends (lk (snd (cb m d u)) m) = None"
  shows "tree_walk_loop lk cb m d False u = after (visit cb [(m, d)] u) (tree_walk_loop lk cb m d True)"
proof -
  obtain r v where v: "cb m d u = (r, v)" by fastforce
  with assms show ?thesis
    by (subst tree_walk_loop.simps)
      (cases r; auto simp: after_def walk_next_def loop_skip split: option.splits)
qed

lemma loop_descend:
  assumes "mo_extends (lk (snd (cb m d u)) m) = Some c"
  shows "tree_walk_loop lk cb m d False u =
    after (visit cb [(m, d)] u) (\<lambda>v. if d + 1 > 0 then tree_walk_loop lk cb c (d + 1) False v else Some v)"
proof -
  obtain r v where v: "cb m d u = (r, v)" by fastforce
  with assms show ?thesis
    by (subst tree_walk_loop.simps) (cases r; auto simp: after_def walk_next_def split: option.splits)
qed

text \<open>The walk over the children of \<open>p\<close>, given that it is right for each of them.\<close>

lemma walk_kids:
  assumes kl: "keeps_links lk cb" and d: "d > 0" and ts: "ts \<noteq> []"
    and tree: "\<And>t u. t \<in> set ts \<Longrightarrow> rep (lk u) t \<Longrightarrow> tree_walk_loop lk cb (ext_root t) d False u =
      after (visit cb (preorder d t) u) (tree_walk_loop lk cb (ext_root t) d True)"
    and r: "\<forall>t \<in> set ts. rep (lk u) t" "chain (lk u) p (map ext_root ts)"
  shows "tree_walk_loop lk cb (ext_root (hd ts)) d False u =
    after (visit cb (concat (map (preorder d) ts)) u) (\<lambda>v. if d - 1 > 0 then tree_walk_loop lk cb p (d - 1) True v else Some v)"
  using ts tree r
proof (induction ts arbitrary: u rule: list_nonempty_induct)
  case (single t)
  have "tree_walk_loop lk cb (ext_root t) d False u =
      after (visit cb (preorder d t) u) (tree_walk_loop lk cb (ext_root t) d True)"
    using single by simp
  also have "\<dots> = after (visit cb (preorder d t) u) (\<lambda>v. if d - 1 > 0 then tree_walk_loop lk cb p (d - 1) True v else Some v)"
  proof (rule after_cong [OF kl])
    fix v assume "\<And>k. link (lk v k) = link (lk u k)"
    with single(3) have "mo_next (lk v (ext_root t)) = Some p" "mo_next_is_parent (lk v (ext_root t))"
      by (simp_all add: link_def)
    then show "tree_walk_loop lk cb (ext_root t) d True v =
        (if d - 1 > 0 then tree_walk_loop lk cb p (d - 1) True v else Some v)"
      by (simp add: loop_skip)
  qed
  finally show ?case by simp
next
  case (cons t ts)
  then obtain t' ts' where ts': "ts = t' # ts'" by (cases ts) auto
  let ?k = "\<lambda>v. if d - 1 > 0 then tree_walk_loop lk cb p (d - 1) True v else Some v"
  have "tree_walk_loop lk cb (ext_root t) d False u =
      after (visit cb (preorder d t) u) (tree_walk_loop lk cb (ext_root t) d True)"
    using cons.prems by simp
  also have "\<dots> = after (visit cb (preorder d t) u) (\<lambda>v. after (visit cb (concat (map (preorder d) ts)) v) ?k)"
  proof (rule after_cong [OF kl])
    fix v assume v: "\<And>k. link (lk v k) = link (lk u k)"
    with cons.prems(3) ts' have n: "mo_next (lk v (ext_root t)) = Some (ext_root t')" "\<not> mo_next_is_parent (lk v (ext_root t))"
      by (simp_all add: link_def)
    have "tree_walk_loop lk cb (ext_root (hd ts)) d False v = after (visit cb (concat (map (preorder d) ts)) v) ?k"
    proof (rule cons.IH)
      show "\<forall>t \<in> set ts. rep (lk v) t" using cons.prems(2) rep_link_cong [OF v] by simp
      show "chain (lk v) p (map ext_root ts)" using cons.prems(3) chain_cong [OF v] ts' by simp
    qed (use cons.prems(1) in simp)
    with n d ts' show "tree_walk_loop lk cb (ext_root t) d True v = after (visit cb (concat (map (preorder d) ts)) v) ?k"
      by (simp add: loop_skip)
  qed
  finally show ?case by (simp add: after_append)
qed

lemma walk_tree:
  assumes kl: "keeps_links lk cb" and "d > 0" "rep (lk u) t"
  shows "tree_walk_loop lk cb (ext_root t) d False u =
    after (visit cb (preorder d t) u) (tree_walk_loop lk cb (ext_root t) d True)"
  using assms(2,3)
proof (induction t arbitrary: d u)
  case (Ext m ts)
  have l: "link (lk (snd (cb m d u)) k) = link (lk u k)" for k using kl by (simp add: keeps_links_def)
  show ?case
  proof (cases ts)
    case Nil
    with Ext.prems l [of m] have "mo_extends (lk (snd (cb m d u)) m) = None" by (simp add: link_def)
    from loop_visit [of lk cb m d u, OF this] Nil show ?thesis by simp
  next
    case (Cons t ts')
    with Ext.prems l [of m] have "mo_extends (lk (snd (cb m d u)) m) = Some (ext_root t)" by (simp add: link_def)
    note loop_descend [of lk cb m d u, OF this]
    also have "after (visit cb [(m, d)] u) (\<lambda>v. if d + 1 > 0 then tree_walk_loop lk cb (ext_root t) (d + 1) False v else Some v) =
      after (visit cb [(m, d)] u) (\<lambda>v. after (visit cb (concat (map (preorder (d + 1)) ts)) v) (tree_walk_loop lk cb m d True))"
    proof (rule after_cong [OF kl])
      fix v assume v: "\<And>k. link (lk v k) = link (lk u k)"
      have "rep (lk v) (Ext m ts)" using Ext.prems(2) rep_link_cong [OF v] by simp
      then have r: "\<forall>t \<in> set ts. rep (lk v) t" "chain (lk v) m (map ext_root ts)" by (simp_all add: list_all_iff)
      from walk_kids [OF kl _ _ _ r, of "d + 1"] Ext.IH Ext.prems(1) Cons
      show "(if d + 1 > 0 then tree_walk_loop lk cb (ext_root t) (d + 1) False v else Some v) =
          after (visit cb (concat (map (preorder (d + 1)) ts)) v) (tree_walk_loop lk cb m d True)"
        by simp
    qed
    finally show ?thesis using after_append [of cb "[(m, d)]" "concat (map (preorder (d + 1)) ts)" u] by simp
  qed
qed

lemma walk_root:
  assumes kl: "keeps_links lk cb" and r: "rep (lk u) t" and top: "mo_next (lk u (ext_root t)) = None"
  shows "bt_mesh_model_tree_walk lk (ext_root t) cb u = Some (snd (visit cb (preorder 0 t) u))"
proof (cases t)
  case (Ext m ts)
  have end1: "after (visit cb l u) Some = Some (snd (visit cb l u))" for l
    by (auto simp: after_def split: prod.splits bt_mesh_walk.splits)
  have l: "link (lk (snd (cb m 0 u)) k) = link (lk u k)" for k using kl by (simp add: keeps_links_def)
  show ?thesis
  proof (cases ts)
    case Nil
    with r Ext l [of m] have "mo_extends (lk (snd (cb m 0 u)) m) = None" by (simp add: link_def)
    from loop_visit [of lk cb m 0 u, OF this] have "tree_walk_loop lk cb m 0 False u = after (visit cb [(m, 0)] u) (tree_walk_loop lk cb m 0 True)" .
    also have "\<dots> = after (visit cb [(m, 0)] u) Some"
      by (rule after_cong [OF kl]) (use top Ext in \<open>simp add: loop_skip link_def\<close>)
    finally show ?thesis using Nil Ext end1 [of "[(m, 0)]"] by (simp add: bt_mesh_model_tree_walk_def)
  next
    case (Cons t' ts')
    with r Ext l [of m] have "mo_extends (lk (snd (cb m 0 u)) m) = Some (ext_root t')" by (simp add: link_def)
    note loop_descend [of lk cb m 0 u, OF this]
    also have "after (visit cb [(m, 0)] u) (\<lambda>v. if (0 :: int) + 1 > 0 then tree_walk_loop lk cb (ext_root t') (0 + 1) False v else Some v) =
      after (visit cb [(m, 0)] u) (\<lambda>v. after (visit cb (concat (map (preorder 1) ts)) v) Some)"
    proof (rule after_cong [OF kl])
      fix v assume v: "\<And>k. link (lk v k) = link (lk u k)"
      have "rep (lk v) (Ext m ts)" using r Ext rep_link_cong [OF v] by simp
      then have r': "\<forall>t \<in> set ts. rep (lk v) t" "chain (lk v) m (map ext_root ts)" by (simp_all add: list_all_iff)
      from walk_kids [OF kl _ _ _ r', of 1] walk_tree [OF kl] Cons
      show "(if (0 :: int) + 1 > 0 then tree_walk_loop lk cb (ext_root t') (0 + 1) False v else Some v) =
          after (visit cb (concat (map (preorder 1) ts)) v) Some"
        by (simp add: eta_contract_eq)
    qed
    also have "\<dots> = after (visit cb (preorder 0 t) u) Some"
      using after_append [of cb "[(m, 0)]" "concat (map (preorder 1) ts)" u Some] Ext by simp
    finally show ?thesis using Ext end1 [of "preorder 0 t"] by (simp add: bt_mesh_model_tree_walk_def)
  qed
qed

text \<open>Every model of a tree leads to the same root.\<close>

lemma root_step: "mo_next (models s ! m) = Some m' \<Longrightarrow> bt_mesh_model_root m s = bt_mesh_model_root m' s"
  by (subst bt_mesh_model_root.simps) simp

lemma chain_root:
  "chain (\<lambda>k. models s ! k) p ms \<Longrightarrow> m \<in> set ms \<Longrightarrow> bt_mesh_model_root m s = bt_mesh_model_root p s"
  by (induction "\<lambda>k. models s ! k" p ms arbitrary: m rule: chain.induct) (auto simp: root_step)

lemma tree_root:
  "rep (\<lambda>k. models s ! k) t \<Longrightarrow> m \<in> set (ext_nodes t) \<Longrightarrow> bt_mesh_model_root m s = bt_mesh_model_root (ext_root t) s"
proof (induction t)
  case (Ext p ts)
  show ?case
  proof (cases "m = p")
    case False
    with Ext.prems(2) obtain t where t: "t \<in> set ts" "m \<in> set (ext_nodes t)" by auto
    with Ext have "bt_mesh_model_root m s = bt_mesh_model_root (ext_root t) s" by (simp add: list_all_iff)
    also have "\<dots> = bt_mesh_model_root p s" by (rule chain_root) (use Ext.prems(1) t(1) in auto)
    finally show ?thesis by simp
  qed simp
qed

section \<open>The forest of the node\<close>

text \<open>\<open>es\<close> are the pairs of a model and a model it extends.\<close>

definition linked :: "(nat \<times> nat) list \<Rightarrow> nat \<Rightarrow> nat \<Rightarrow> bool" where
  "linked es m k \<longleftrightarrow> (m, k) \<in> (set es \<union> (set es)\<inverse>)\<^sup>*"

definition forest :: "(nat \<times> nat) list \<Rightarrow> 'a access_state_scheme \<Rightarrow> ext_tree set \<Rightarrow> bool" where
  "forest es s F \<longleftrightarrow>
     (\<forall>t \<in> F. rep (\<lambda>k. models s ! k) t \<and> mo_next (models s ! ext_root t) = None \<and> \<not> mo_next_is_parent (models s ! ext_root t) \<and>
        distinct (ext_nodes t) \<and> (\<forall>k \<in> set (ext_nodes t). (ext_root t, k) \<in> (set es)\<^sup>*)) \<and>
     (\<forall>t \<in> F. \<forall>t' \<in> F. t \<noteq> t' \<longrightarrow> set (ext_nodes t) \<inter> set (ext_nodes t') = {}) \<and>
     (\<Union>t \<in> F. set (ext_nodes t)) = {..<length (models s)} \<and>
     (\<forall>(m, k) \<in> set es. \<exists>t \<in> F. m \<in> set (ext_nodes t) \<and> k \<in> set (ext_nodes t))"

text \<open>
  The runs of the documented use: models without links at first, calls of \<^verbatim>\<open>bt_mesh_model_extend\<close> that do not make a model
  extend itself through others, and other operations, which leave the links alone.
\<close>

inductive extended :: "(nat \<times> nat) list \<Rightarrow> 'a access_state_scheme \<Rightarrow> bool" where
  init: "extended [] s" if "\<forall>md \<in> set (models s). link md = (None, None, False)"
| extend: "extended ((m, base) # es) s'" if "extended es s" "m < length (models s)" "base < length (models s)"
    "(base, m) \<notin> (set es)\<^sup>*" "bt_mesh_model_extend m base s = (None, s')"
| other: "extended es s'" if "extended es s" "map link (models s') = map link (models s)"

text \<open>What a call does to the tree with \<open>m\<close> in it: the tree of \<open>base\<close> becomes the first child of \<open>m\<close>.\<close>

primrec graft :: "nat \<Rightarrow> ext_tree \<Rightarrow> ext_tree \<Rightarrow> ext_tree" where
  "graft m tb (Ext k ts) = Ext k (if k = m then tb # ts else map (graft m tb) ts)"

lemma graft_root [simp]: "ext_root (graft m tb t) = ext_root t"
  by (cases t) simp

lemma graft_id: "m \<notin> set (ext_nodes t) \<Longrightarrow> graft m tb t = t"
  by (induction t) (auto intro: map_idI)

lemma graft_nodes: "m \<in> set (ext_nodes t) \<Longrightarrow> set (ext_nodes (graft m tb t)) = set (ext_nodes t) \<union> set (ext_nodes tb)"
proof (induction t)
  case (Ext k ts)
  show ?case
  proof (cases "k = m")
    case False
    with Ext.prems obtain t0 where t0: "t0 \<in> set ts" "m \<in> set (ext_nodes t0)" by auto
    have "set (ext_nodes (graft m tb t)) = set (ext_nodes t) \<union> (if m \<in> set (ext_nodes t) then set (ext_nodes tb) else {})"
      if "t \<in> set ts" for t using Ext.IH [OF that] graft_id [of m t tb] by simp
    then have "(\<Union>t \<in> set ts. set (ext_nodes (graft m tb t))) = (\<Union>t \<in> set ts. set (ext_nodes t)) \<union> set (ext_nodes tb)"
      using t0 by (auto split: if_split_asm)
    with False show ?thesis by auto
  qed auto
qed

lemma graft_distinct:
  "distinct (ext_nodes t) \<Longrightarrow> distinct (ext_nodes tb) \<Longrightarrow> set (ext_nodes t) \<inter> set (ext_nodes tb) = {} \<Longrightarrow>
   distinct (ext_nodes (graft m tb t))"
proof (induction t)
  case (Ext k ts)
  show ?case
  proof (cases "k \<noteq> m \<and> (\<exists>t \<in> set ts. m \<in> set (ext_nodes t))")
    case True
    then obtain t0 where "t0 \<in> set ts" and m: "m \<in> set (ext_nodes t0)" by blast
    then obtain pre post where ts: "ts = pre @ t0 # post" by (meson split_list)
    with Ext.prems(1) m have "\<forall>t \<in> set (pre @ post). m \<notin> set (ext_nodes t)" by auto
    then have mp: "map (graft m tb) ts = pre @ graft m tb t0 # post" using ts by (auto intro!: map_idI graft_id)
    have "distinct (ext_nodes (graft m tb t0))"
      by (rule Ext.IH) (use Ext.prems ts in auto)
    moreover define P Q where PQ: "P = concat (map ext_nodes pre)" "Q = concat (map ext_nodes post)"
    moreover have "distinct (k # P @ ext_nodes t0 @ Q)" "set (k # P @ Q) \<inter> set (ext_nodes tb) = {}"
      using Ext.prems(1,3) unfolding ts PQ by auto
    ultimately have "distinct (k # P @ ext_nodes (graft m tb t0) @ Q)" using graft_nodes [OF m, of tb] by auto
    with mp True show ?thesis by (simp add: PQ)
  next
    case False
    then have "map (graft m tb) ts = ts" if "k \<noteq> m" using that by (auto intro!: map_idI graft_id)
    with Ext.prems show ?thesis by auto
  qed
qed

lemma chain_cong_set:
  "(\<And>k. k \<in> set ms \<Longrightarrow> mo_next (lk' k) = mo_next (lk k) \<and> mo_next_is_parent (lk' k) = mo_next_is_parent (lk k)) \<Longrightarrow>
   chain lk' p ms = chain lk p ms"
  by (induction lk p ms rule: chain.induct) auto

lemma rep_cong_set:
  assumes "distinct (ext_nodes t)" "\<And>k. k \<in> set (ext_nodes t) \<Longrightarrow> mo_extends (lk' k) = mo_extends (lk k)"
    "\<And>k. k \<in> set (ext_nodes t) \<Longrightarrow> k \<noteq> ext_root t \<Longrightarrow> mo_next (lk' k) = mo_next (lk k) \<and> mo_next_is_parent (lk' k) = mo_next_is_parent (lk k)"
  shows "rep lk' t = rep lk t"
  using assms
proof (induction t)
  case (Ext m ts)
  have in_ts: "k \<noteq> m" "k \<in> set (ext_nodes (Ext m ts))" if "t \<in> set ts" "k \<in> set (ext_nodes t)" for t k
    using that Ext.prems(1) by auto
  have "rep lk' t = rep lk t" if t: "t \<in> set ts" for t
  proof (rule Ext.IH [OF t])
    show "distinct (ext_nodes t)" using Ext.prems(1) t by (auto simp: distinct_concat_iff)
  qed (use Ext.prems(2,3) in_ts [OF t] in auto)
  moreover have "chain lk' m (map ext_root ts) = chain lk m (map ext_root ts)"
  proof (rule chain_cong_set)
    fix k assume "k \<in> set (map ext_root ts)"
    then obtain t where "t \<in> set ts" "k = ext_root t" by auto
    with in_ts [of t k] Ext.prems(3) [of k]
    show "mo_next (lk' k) = mo_next (lk k) \<and> mo_next_is_parent (lk' k) = mo_next_is_parent (lk k)" by simp
  qed
  ultimately show ?case using Ext.prems(2) [of m] by (simp add: list_all_iff)
qed

text \<open>The links after the call are those of the grafted tree.\<close>

lemma graft_rep:
  assumes tb: "rep lk' tb" "ext_root tb = base"
    and old: "\<And>k. k \<noteq> m \<Longrightarrow> mo_extends (lk' k) = mo_extends (lk k)"
      "\<And>k. k \<noteq> base \<Longrightarrow> mo_next (lk' k) = mo_next (lk k) \<and> mo_next_is_parent (lk' k) = mo_next_is_parent (lk k)"
    and new: "mo_extends (lk' m) = Some base"
      "case mo_extends (lk m) of Some c \<Rightarrow> mo_next (lk' base) = Some c \<and> \<not> mo_next_is_parent (lk' base)
        | None \<Rightarrow> mo_next (lk' base) = Some m \<and> mo_next_is_parent (lk' base)"
  shows "rep lk t \<Longrightarrow> distinct (ext_nodes t) \<Longrightarrow> base \<notin> set (ext_nodes t) \<Longrightarrow> rep lk' (graft m tb t)"
proof (induction t)
  case (Ext k ts)
  have roots: "chain lk' p (map ext_root ts) = chain lk p (map ext_root ts)" for p
  proof (rule chain_cong_set, rule old(2))
    fix j assume "j \<in> set (map ext_root ts)"
    then obtain t where "t \<in> set ts" "j = ext_root t" by auto
    with Ext.prems(3) show "j \<noteq> base" by auto
  qed
  have d: "distinct (ext_nodes t)" if "t \<in> set ts" for t using Ext.prems(2) that by (auto simp: distinct_concat_iff)
  show ?case
  proof (cases "k = m")
    case True
    have "rep lk' t" if t: "t \<in> set ts" for t
    proof -
      have "m \<notin> set (ext_nodes t)" "base \<notin> set (ext_nodes t)" using Ext.prems(2,3) t True by auto
      then have "rep lk' t = rep lk t" by (intro rep_cong_set [OF d [OF t]] old) auto
      with Ext.prems(1) t show ?thesis by (simp add: list_all_iff)
    qed
    moreover have "chain lk' m (map ext_root (tb # ts))"
      using new(2) Ext.prems(1) roots [of m] tb(2) True by (cases ts) auto
    ultimately show ?thesis using True tb new(1) by (simp add: list_all_iff)
  next
    case False
    have "rep lk' (graft m tb t)" if t: "t \<in> set ts" for t
      by (rule Ext.IH [OF t]) (use Ext.prems t d in \<open>auto simp: list_all_iff\<close>)
    moreover have "map ext_root (map (graft m tb) ts) = map ext_root ts" by simp
    ultimately show ?thesis using False Ext.prems(1) old(1) [OF False] roots [of k] by (simp add: list_all_iff comp_def)
  qed
qed

section \<open>Every run keeps the forest\<close>

lemma forest_tree:
  assumes "forest es s F" "k < length (models s)"
  obtains t where "t \<in> F" "k \<in> set (ext_nodes t)"
  using assms unfolding forest_def by (metis (no_types, lifting) UN_iff lessThan_iff)

lemma forest_same:
  assumes "forest es s F" "t \<in> F" "t' \<in> F" "k \<in> set (ext_nodes t)" "k \<in> set (ext_nodes t')"
  shows "t = t'"
  using assms unfolding forest_def by (metis disjoint_iff)

lemma chain_next: "chain lk p ms \<Longrightarrow> m \<in> set ms \<Longrightarrow> mo_next (lk m) \<noteq> None"
  by (induction lk p ms rule: chain.induct) auto

lemma rep_next: "rep lk t \<Longrightarrow> k \<in> set (ext_nodes t) \<Longrightarrow> k \<noteq> ext_root t \<Longrightarrow> mo_next (lk k) \<noteq> None"
proof (induction t)
  case (Ext m ts)
  then obtain t where t: "t \<in> set ts" "k \<in> set (ext_nodes t)" by auto
  show ?case
  proof (cases "k = ext_root t")
    case True
    with t(1) Ext.prems(1) chain_next [of lk m "map ext_root ts" k] show ?thesis by auto
  next
    case False
    with Ext.IH [OF t(1) _ t(2)] Ext.prems(1) t(1) show ?thesis by (auto simp: list_all_iff)
  qed
qed


lemma forest_treeD:
  assumes "forest es s F" "t \<in> F"
  shows "rep (\<lambda>k. models s ! k) t" "mo_next (models s ! ext_root t) = None" "\<not> mo_next_is_parent (models s ! ext_root t)"
    "distinct (ext_nodes t)" "\<And>k. k \<in> set (ext_nodes t) \<Longrightarrow> (ext_root t, k) \<in> (set es)\<^sup>*"
  using assms by (simp_all add: forest_def)

lemma forest_disjoint:
  "forest es s F \<Longrightarrow> t \<in> F \<Longrightarrow> t' \<in> F \<Longrightarrow> t \<noteq> t' \<Longrightarrow> set (ext_nodes t) \<inter> set (ext_nodes t') = {}"
  by (simp add: forest_def)

lemma forest_extend:
  assumes F: "forest es s F" and m: "m < length (models s)" "base < length (models s)" "(base, m) \<notin> (set es)\<^sup>*"
    and e: "bt_mesh_model_extend m base s = (None, s')"
  shows "\<exists>F'. forest ((m, base) # es) s' F'"
proof -
  let ?lk = "\<lambda>k. models s ! k" and ?lk' = "\<lambda>k. models s' ! k" and ?E = "set ((m, base) # es)"
  from m(3) have ne: "m \<noteq> base" by auto
  from e have nx: "mo_next (models s ! base) = None"
    and s': "models s' = (let b = (case mo_extends (models s ! m) of
          Some c \<Rightarrow> (models s ! base)\<lparr>mo_next := Some c\<rparr>
        | None \<Rightarrow> (models s ! base)\<lparr>mo_next := Some m, mo_next_is_parent := True\<rparr>) in
      (models s)[base := b, m := (models s ! m)\<lparr>mo_extends := Some base\<rparr>])"
    using ne by (auto simp: bt_mesh_model_extend_def upd_mod_def Let_def split: if_splits option.splits)
  obtain tm tb where tm: "tm \<in> F" "m \<in> set (ext_nodes tm)" and tb: "tb \<in> F" "base \<in> set (ext_nodes tb)"
    using forest_tree [OF F m(1)] forest_tree [OF F m(2)] by metis
  note T = forest_treeD [OF F]
  have rb: "ext_root tb = base" using rep_next [OF T(1) [OF tb(1)] tb(2)] nx by auto
  have bm: "base \<notin> set (ext_nodes tm)"
    using T(5) [OF tb(1), of m] forest_same [OF F tm(1) tb(1)] tb(2) tm(2) m(3) rb by auto
  have disj: "set (ext_nodes tm) \<inter> set (ext_nodes tb) = {}"
    by (rule forest_disjoint [OF F tm(1) tb(1)]) (use tb(2) bm in auto)
  have len: "length (models s') = length (models s)" by (simp add: s' Let_def)
  have old: "mo_extends (?lk' k) = mo_extends (?lk k)" if "k \<noteq> m" for k
    using that m by (cases "k = base") (auto simp: s' Let_def split: option.split)
  have old2: "mo_next (?lk' k) = mo_next (?lk k) \<and> mo_next_is_parent (?lk' k) = mo_next_is_parent (?lk k)" if "k \<noteq> base" for k
    using that m by (cases "k = m") (auto simp: s' Let_def)
  have new: "mo_extends (?lk' m) = Some base" "case mo_extends (?lk m) of Some c \<Rightarrow> mo_next (?lk' base) = Some c \<and> \<not> mo_next_is_parent (?lk' base)
        | None \<Rightarrow> mo_next (?lk' base) = Some m \<and> mo_next_is_parent (?lk' base)"
    using m ne T(3) [OF tb(1)] rb by (auto simp: s' Let_def split: option.split)
  have keep: "rep ?lk' t" if t: "t \<in> F" "t \<noteq> tm" for t
  proof -
    have "m \<notin> set (ext_nodes t)" using forest_same [OF F tm(1) t(1) tm(2)] t(2) by auto
    moreover have "k \<noteq> base" if "k \<in> set (ext_nodes t)" "k \<noteq> ext_root t" for k
      using forest_same [OF F tb(1) t(1) tb(2)] that rb by auto
    ultimately have "rep ?lk' t = rep ?lk t" by (intro rep_cong_set T(4) [OF t(1)] old old2) auto
    with T(1) [OF t(1)] show ?thesis by simp
  qed
  have tbm: "tb \<noteq> tm" using tb(2) bm by auto
  let ?g = "graft m tb tm"
  note gn = graft_nodes [OF tm(2), of tb]
  have g: "rep ?lk' ?g" by (rule graft_rep [OF keep [OF tb(1) tbm] rb old old2 new T(1) [OF tm(1)] T(4) [OF tm(1)] bm])
  have sub: "(a, b) \<in> (set es)\<^sup>* \<Longrightarrow> (a, b) \<in> ?E\<^sup>*" for a b by (rule rtrancl_mono [THEN subsetD, of "set es"]) auto
  have greach: "(ext_root tm, k) \<in> ?E\<^sup>*" if "k \<in> set (ext_nodes ?g)" for k
  proof (cases "k \<in> set (ext_nodes tm)")
    case False
    then have "(base, k) \<in> ?E\<^sup>*" using that gn T(5) [OF tb(1)] rb sub by auto
    moreover have "(ext_root tm, m) \<in> ?E\<^sup>*" using T(5) [OF tm(1) tm(2)] sub by blast
    ultimately show ?thesis by (meson list.set_intros(1) r_into_rtrancl rtrancl_trans)
  qed (use T(5) [OF tm(1)] sub in blast)
  let ?F = "insert ?g (F - {tm, tb})"
  have inF: "\<exists>t \<in> ?F. set (ext_nodes t0) \<subseteq> set (ext_nodes t)" if "t0 \<in> F" for t0
    using that gn by (cases "t0 = tm \<or> t0 = tb") auto
  have "forest ((m, base) # es) s' ?F"
    unfolding forest_def
  proof (intro conjI ballI)
    fix t assume t: "t \<in> ?F"
    have r: "mo_next (?lk' (ext_root t)) = None \<and> \<not> mo_next_is_parent (?lk' (ext_root t))"
      if t0: "t0 \<in> F" "t0 \<noteq> tb" "ext_root t = ext_root t0" for t0
    proof -
      have "ext_root t0 \<noteq> base" using forest_same [OF F tb(1) t0(1) tb(2)] t0(2) ext_root_in [of t0] by metis
      with old2 [of "ext_root t0"] T(2,3) [OF t0(1)] t0(3) show ?thesis by simp
    qed
    show "rep ?lk' t" using t g keep by auto
    show "mo_next (?lk' (ext_root t)) = None" "\<not> mo_next_is_parent (?lk' (ext_root t))"
      using r [of tm] r [of t] t tm(1) tbm by auto
    show "distinct (ext_nodes t)" using t T(4) graft_distinct [OF T(4) [OF tm(1)] T(4) [OF tb(1)] disj] by auto
    show "(ext_root t, k) \<in> ?E\<^sup>*" if "k \<in> set (ext_nodes t)" for k using that t greach T(5) sub by auto
  next
    fix t t' assume t: "t \<in> ?F" "t' \<in> ?F"
    have d: "set (ext_nodes u) \<inter> set (ext_nodes ?g) = {}" if "u \<in> F - {tm, tb}" for u
      using that forest_disjoint [OF F _ tm(1), of u] forest_disjoint [OF F _ tb(1), of u] unfolding gn by auto
    show "t \<noteq> t' \<longrightarrow> set (ext_nodes t) \<inter> set (ext_nodes t') = {}"
    proof
      assume "t \<noteq> t'"
      with t consider "t = ?g" "t' \<in> F - {tm, tb}" | "t' = ?g" "t \<in> F - {tm, tb}" | "t \<in> F" "t' \<in> F" by auto
      then show "set (ext_nodes t) \<inter> set (ext_nodes t') = {}"
        using d forest_disjoint [OF F _ _ \<open>t \<noteq> t'\<close>] by cases auto
    qed
  next
    have "(\<Union>t \<in> ?F. set (ext_nodes t)) = (\<Union>t \<in> F. set (ext_nodes t))" using tm(1) tb(1) gn by auto
    then show "(\<Union>t \<in> ?F. set (ext_nodes t)) = {..<length (models s')}" using F len unfolding forest_def by simp
  next
    fix x assume "x \<in> ?E"
    then have "\<exists>t \<in> ?F. fst x \<in> set (ext_nodes t) \<and> snd x \<in> set (ext_nodes t)"
    proof (elim set_ConsD [elim_format] disjE)
      assume "x = (m, base)"
      then show ?thesis using gn tm(2) tb(2) by auto
    next
      assume "x \<in> set es"
      then obtain t0 where "t0 \<in> F" "fst x \<in> set (ext_nodes t0)" "snd x \<in> set (ext_nodes t0)"
        using F unfolding forest_def by force
      with inF [of t0] show ?thesis by blast
    qed
    then show "case x of (m, k) \<Rightarrow> \<exists>t \<in> ?F. m \<in> set (ext_nodes t) \<and> k \<in> set (ext_nodes t)" by (cases x) simp
  qed
  then show ?thesis by blast
qed

lemma forest_nodes_range:
  assumes "forest es s F" "t \<in> F" "k \<in> set (ext_nodes t)"
  shows "k < length (models s)"
proof -
  have "(\<Union>t \<in> F. set (ext_nodes t)) = {..<length (models s)}" using assms(1) by (simp add: forest_def)
  with assms(2,3) show ?thesis by blast
qed

lemma forest_edge:
  assumes "forest es s F" "(y, z) \<in> set es"
  obtains t where "t \<in> F" "y \<in> set (ext_nodes t)" "z \<in> set (ext_nodes t)"
proof -
  have "\<forall>(m, k) \<in> set es. \<exists>t \<in> F. m \<in> set (ext_nodes t) \<and> k \<in> set (ext_nodes t)" using assms(1) by (simp add: forest_def)
  with assms(2) that show ?thesis by blast
qed

lemma forest_links:
  assumes F: "forest es s F" and l: "map link (models s') = map link (models s)"
  shows "forest es s' F"
proof -
  have len: "length (models s') = length (models s)" using l by (metis length_map)
  have lk: "link (models s' ! k) = link (models s ! k)" if "k < length (models s)" for k
    using l that len by (metis nth_map)
  have "rep (\<lambda>k. models s' ! k) t = rep (\<lambda>k. models s ! k) t" if "t \<in> F" for t
    by (rule rep_cong_set [OF forest_treeD(4) [OF F that]])
      (use lk [OF forest_nodes_range [OF F that]] in \<open>auto simp: link_def\<close>)
  moreover have "mo_next (models s' ! ext_root t) = mo_next (models s ! ext_root t) \<and>
      mo_next_is_parent (models s' ! ext_root t) = mo_next_is_parent (models s ! ext_root t)" if "t \<in> F" for t
    using lk [OF forest_nodes_range [OF F that ext_root_in]] by (simp add: link_def)
  ultimately show ?thesis using F len by (simp add: forest_def)
qed

lemma extended_forest: "extended es s \<Longrightarrow> \<exists>F. forest es s F"
proof (induction rule: extended.induct)
  case (init s)
  then have "link (models s ! k) = (None, None, False)" if "k < length (models s)" for k using that by simp
  then have "forest [] s ((\<lambda>k. Ext k []) ` {..<length (models s)})" by (auto simp: forest_def link_def)
  then show ?case by blast
next
  case (extend es s m base s')
  then show ?case using forest_extend by blast
next
  case (other es s s')
  then show ?case using forest_links by blast
qed

lemma forest_linked:
  assumes F: "forest es s F" and t: "t \<in> F" "m \<in> set (ext_nodes t)"
  shows "set (ext_nodes t) = {k. linked es m k}"
proof
  let ?R = "set es \<union> (set es)\<inverse>"
  have fw: "(ext_root t, k) \<in> ?R\<^sup>*" if "k \<in> set (ext_nodes t)" for k
    using forest_treeD(5) [OF F t(1) that] rtrancl_mono [of "set es" ?R] by blast
  have "sym (?R\<^sup>*)" by (intro sym_rtrancl sym_Un_converse)
  then have "(m, ext_root t) \<in> ?R\<^sup>*" using fw [OF t(2)] by (meson symE)
  with fw show "set (ext_nodes t) \<subseteq> {k. linked es m k}" by (auto simp: linked_def intro: rtrancl_trans)
  have "k \<in> set (ext_nodes t)" if "(m, k) \<in> ?R\<^sup>*" for k
    using that
  proof (induction rule: rtrancl_induct)
    case (step y z)
    then have "(y, z) \<in> set es \<or> (z, y) \<in> set es" by auto
    then obtain t' where "t' \<in> F" "y \<in> set (ext_nodes t')" "z \<in> set (ext_nodes t')" by (metis forest_edge [OF F])
    with forest_same [OF F t(1) _ step.IH] show ?case by auto
  qed (rule t(2))
  then show "{k. linked es m k} \<subseteq> set (ext_nodes t)" by (auto simp: linked_def)
qed

text \<open>The tree of a model, with the two loops.\<close>

lemma extended_tree:
  assumes "extended es s" "m < length (models s)"
  obtains t where "set (ext_nodes t) = {k. linked es m k}" "distinct (ext_nodes t)" "bt_mesh_model_root m s = Some (ext_root t)"
    "rep (\<lambda>k. models s ! k) t" "mo_next (models s ! ext_root t) = None" "\<forall>k \<in> set (ext_nodes t). k < length (models s)"
proof -
  from extended_forest [OF assms(1)] obtain F where F: "forest es s F" by blast
  then obtain t where t: "t \<in> F" "m \<in> set (ext_nodes t)" using forest_tree [OF F assms(2)] by blast
  note T = forest_treeD [OF F t(1)]
  have "bt_mesh_model_root m s = bt_mesh_model_root (ext_root t) s" by (rule tree_root [OF T(1) t(2)])
  also have "\<dots> = Some (ext_root t)" using T(2) by (subst bt_mesh_model_root.simps) simp
  finally show ?thesis by (rule that [OF forest_linked [OF F t] T(4) _ T(1,2)]) (use forest_nodes_range [OF F t(1)] in blast)
qed

text \<open>C27: the loops over the trees of models end. In every state that calls of \<^verbatim>\<open>bt_mesh_model_extend\<close> lead to, none of
  which makes a model extend itself, \<^verbatim>\<open>bt_mesh_model_root\<close> returns, and \<^verbatim>\<open>bt_mesh_model_tree_walk\<close> from there calls a
  callback that leaves the links alone once for every model that is connected with the first one by
  extensions, parents before children, until the callback stops it.\<close>

theorem model_tree_walk:
  assumes ext: "extended es s" "m < length (models s)"
    and cb: "keeps_links lk cb" "\<And>k. k < length (models s) \<Longrightarrow> link (lk u k) = link (models s ! k)"
  shows "\<exists>t. set (ext_nodes t) = {k. linked es m k} \<and> distinct (ext_nodes t) \<and> bt_mesh_model_root m s = Some (ext_root t) \<and>
    bt_mesh_model_tree_walk lk (ext_root t) cb u = Some (snd (visit cb (preorder 0 t) u))"
proof -
  obtain t where t: "set (ext_nodes t) = {k. linked es m k}" "distinct (ext_nodes t)" "bt_mesh_model_root m s = Some (ext_root t)"
    "rep (\<lambda>k. models s ! k) t" "mo_next (models s ! ext_root t) = None" "\<forall>k \<in> set (ext_nodes t). k < length (models s)"
    by (rule extended_tree [OF ext])
  have "rep (lk u) t = rep (\<lambda>k. models s ! k) t"
    by (rule rep_cong_set [OF t(2)]) (use cb(2) [OF bspec [OF t(6)]] in \<open>auto simp: link_def\<close>)
  moreover have "mo_next (lk u (ext_root t)) = None" using cb(2) [OF bspec [OF t(6) ext_root_in]] t(5) by (simp add: link_def)
  ultimately have "bt_mesh_model_tree_walk lk (ext_root t) cb u = Some (snd (visit cb (preorder 0 t) u))"
    using walk_root [OF cb(1)] t(4) by blast
  with t(1-3) show ?thesis by blast
qed

section \<open>Groups\<close>

lemma visit_group:
  "\<exists>r cm entry. visit (find_group_mod_visitor s addr) l (m, None) = (r, cm, entry) \<and>
     (entry \<noteq> None \<longleftrightarrow> (\<exists>k \<in> set (map fst l). mo_elem_idx (models s ! k) = mo_elem_idx (models s ! m) \<and> addr \<in> set (mo_groups (models s ! k))))"
proof (induction l)
  case (Cons x l)
  have g: "model_group_get md addr = None \<longleftrightarrow> addr \<notin> set (mo_groups md)" for md
    by (auto simp: model_group_get_def find_idx_None_iff)
  show ?case
  proof (cases "mo_elem_idx (models s ! fst x) = mo_elem_idx (models s ! m) \<and> addr \<in> set (mo_groups (models s ! fst x))")
    case True
    then obtain i where "model_group_get (models s ! fst x) addr = Some i" using g by fastforce
    with True show ?thesis by (simp add: find_group_mod_visitor_def)
  next
    case False
    then have "find_group_mod_visitor s addr (fst x) (snd x) (m, None) = (BT_MESH_WALK_CONTINUE, m, None)"
      using g [of "models s ! fst x"] by (auto simp: find_group_mod_visitor_def)
    with Cons.IH False show ?thesis by auto
  qed
qed simp

text \<open>C28: the models of a tree share their subscriptions. A message to a group or virtual address is for a model exactly
  when a model that is connected with it by extensions, in the same element, has subscribed to the address; in
  particular the search returns.\<close>

theorem model_has_dst_shared:
  assumes ext: "extended es s" "m < length (models s)" and dst: "BT_MESH_ADDR_IS_GROUP dst \<or> BT_MESH_ADDR_IS_VIRTUAL dst"
  shows "model_has_dst m dst s = Some (\<exists>k. linked es m k \<and> mo_elem_idx (models s ! k) = mo_elem_idx (models s ! m) \<and>
    dst \<in> set (mo_groups (models s ! k)))"
proof -
  obtain t where t: "set (ext_nodes t) = {k. linked es m k}" "bt_mesh_model_root m s = Some (ext_root t)"
    "rep (\<lambda>k. models s ! k) t" "mo_next (models s ! ext_root t) = None"
    by (rule extended_tree [OF ext]) (rule that)
  let ?lk = "\<lambda>(_ :: nat \<times> nat option) k. models s ! k"
  have "keeps_links ?lk (find_group_mod_visitor s dst)" by (simp add: keeps_links_def)
  from walk_root [where lk = ?lk and u = "(m, None)" and t = t, OF this] t(3,4)
  have w: "bt_mesh_model_find_group m dst s = Some (snd (visit (find_group_mod_visitor s dst) (preorder 0 t) (m, None)))"
    using t(2) by (simp add: bt_mesh_model_find_group_def)
  have "\<not> BT_MESH_ADDR_IS_UNICAST dst"
    using dst by (auto simp: BT_MESH_ADDR_IS_UNICAST_def BT_MESH_ADDR_IS_GROUP_def BT_MESH_ADDR_IS_VIRTUAL_def
        word_less_nat_alt word_le_nat_alt)
  then show ?thesis
    using dst w visit_group [of s dst "preorder 0 t" m] t(1) by (auto simp: model_has_dst_def preorder_nodes)
qed

section \<open>An example\<close>

definition model_example :: "u16 \<Rightarrow> u16 \<Rightarrow> bt_mesh_model" where
  "model_example id0 grp = \<lparr>mo_id = id0, mo_vnd_id = 0, mo_elem_idx = 0, mo_mod_idx = 0, mo_bind_pending = False,
     mo_sub_pending = False, mo_pub_pending = False, mo_next_is_parent = False, mo_pub = None, mo_keys = [0],
     mo_groups = [grp, 0], mo_op = [], mo_init_cb = False, mo_next = None, mo_extends = None\<rparr>"

definition access_example :: "bt_mesh_model list \<Rightarrow> access_state" where
  "access_example ms = trans_state.extend (trans_boot 0 0 (\<lambda>_. None))
     \<lparr>dev_comp = \<lparr>cp_cid = 0, cp_pid = 0, cp_vid = 0,
        cp_elem = [\<lparr>el_addr = 1, el_loc = 0, el_models = [0..<length ms], el_vnd_models = []\<rparr>]\<rparr>,
      models = ms, dev_primary_addr = 1\<rparr>"

text \<open>Model 0 extends 1 and 2; the group is subscribed to by 2 only.\<close>

definition tree_example :: access_state where
  "tree_example = snd (bt_mesh_model_extend 0 2 (snd (bt_mesh_model_extend 0 1
     (access_example [model_example 0x1000 0, model_example 0x1001 0, model_example 0x1002 0xc000]))))"

lemma access_example_models: "models (access_example ms) = ms"
  by (simp add: access_example_def trans_state.defs)

lemma tree_example_extended: "extended [(0, 2), (0, 1)] tree_example"
proof -
  let ?s0 = "access_example [model_example 0x1000 0, model_example 0x1001 0, model_example 0x1002 0xc000]"
  let ?s1 = "snd (bt_mesh_model_extend 0 1 ?s0)"
  have a: "extended [] ?s0"
    by (rule extended.init) (simp add: access_example_models model_example_def link_def)
  have b: "extended [(0, 1)] ?s1"
    by (rule extended.extend [OF a])
      (simp_all add: access_example_models model_example_def bt_mesh_model_extend_def upd_mod_def Let_def)
  have "(2, 0) \<notin> {(0 :: nat, 1 :: nat)}\<^sup>*" by (auto elim: converse_rtranclE)
  then show ?thesis unfolding tree_example_def
    by (intro extended.extend [OF b])
      (simp_all add: access_example_models model_example_def bt_mesh_model_extend_def upd_mod_def Let_def)
qed

theorem model_tree_walk_witness:
  "\<exists>t. set (ext_nodes t) = {k. linked [(0, 2), (0, 1)] 1 k} \<and> distinct (ext_nodes t) \<and>
     bt_mesh_model_root 1 tree_example = Some (ext_root t) \<and>
     bt_mesh_model_tree_walk (\<lambda>_ k. models tree_example ! k) (ext_root t) (\<lambda>m d l. (BT_MESH_WALK_CONTINUE, l @ [m])) [] =
       Some (snd (visit (\<lambda>m d l. (BT_MESH_WALK_CONTINUE, l @ [m])) (preorder 0 t) []))"
  by (rule model_tree_walk [OF tree_example_extended])
    (simp_all add: keeps_links_def tree_example_def bt_mesh_model_extend_def upd_mod_def access_example_models
      model_example_def Let_def)

theorem model_has_dst_shared_witness: "model_has_dst 1 0xc000 tree_example = Some True"
proof -
  have l: "linked [(0, 2), (0, 1)] 1 2" unfolding linked_def
    by (rule rtrancl_into_rtrancl [OF r_into_rtrancl, of 1 0]) auto
  have m: "1 < length (models tree_example)" "mo_elem_idx (models tree_example ! k) = 0" "0xc000 \<in> set (mo_groups (models tree_example ! 2))"
    if "k < 3" for k
    using that by (auto simp: tree_example_def bt_mesh_model_extend_def upd_mod_def access_example_models model_example_def
        Let_def less_Suc_eq numeral_3_eq_3 numeral_2_eq_2)
  have "model_has_dst 1 0xc000 tree_example = Some (\<exists>k. linked [(0, 2), (0, 1)] 1 k \<and>
      mo_elem_idx (models tree_example ! k) = mo_elem_idx (models tree_example ! 1) \<and> 0xc000 \<in> set (mo_groups (models tree_example ! k)))"
    by (rule model_has_dst_shared [OF tree_example_extended])
      (use m(1) [of 0] in \<open>simp_all add: BT_MESH_ADDR_IS_GROUP_def\<close>)
  with l m(2) [of 1] m(2) [of 2] m(3) [of 0] show ?thesis by auto
qed

end
