(* ===== verification/Access_Msg.thy ===== *)
theory Access_Msg
  imports Access
begin

text \<open>
  The opcode in front of an access message: what \<^verbatim>\<open>bt_mesh_model_msg_init\<close> writes is read back by \<^verbatim>\<open>get_opcode\<close>
  exactly for the opcodes of the three documented formats. \<open>opcode_read\<close> is \<^verbatim>\<open>get_opcode\<close> on lists and numbers.
\<close>

text \<open>One octet (but not 0x7f), two octets that start with the bits 10, three octets that start with the bits 11.\<close>

definition opcode_ok :: "u32 \<Rightarrow> bool" where
  "opcode_ok op \<longleftrightarrow> op \<le> 0x7e \<or> 0x8000 \<le> op \<and> op \<le> 0xbfff \<or> 0xc00000 \<le> op \<and> op \<le> 0xffffff"

definition opcode_bytes :: "u32 \<Rightarrow> bytes" where
  "opcode_bytes op =
     (if op \<le> 0xff then [ucast op]
      else if op \<le> 0xffff then [ucast (drop_bit 8 op), ucast op]
      else [ucast (drop_bit 16 op), ucast op, ucast (drop_bit 8 op)])"

fun opcode_read :: "bytes \<Rightarrow> (nat \<times> bytes) option" where
  "opcode_read (b0 # d) =
     (if unat b0 < 128 then if unat b0 = 127 then None else Some (unat b0, d)
      else if unat b0 < 192 then (case d of b1 # d \<Rightarrow> Some (unat b0 * 256 + unat b1, d) | _ \<Rightarrow> None)
      else case d of b1 # b2 # d \<Rightarrow> Some (unat b0 * 65536 + unat b2 * 256 + unat b1, d) | _ \<Rightarrow> None)"
| "opcode_read [] = None"

lemma unat_ucast_octet [simp]: "unat (ucast (w :: u32) :: u8) = unat w mod 256"
  by (simp add: unsigned_ucast_eq take_bit_eq_mod)

lemma unat_drop_octet: "unat (drop_bit n w) = unat w div 2 ^ n"
  unfolding unsigned_drop_bit_eq by (simp add: drop_bit_eq_div take_bit_nat_eq_self)

lemma octet_bound [simp]: "unat (b :: u8) < 256"
  using unat_lt_pow [of b] by simp

lemma or_octets: "unat (push_bit 8 (ucast (a :: u8)) OR ucast (b :: u8) :: u16) = unat a * 256 + unat b"
proof -
  have "push_bit 8 (ucast a) OR ucast b = (push_bit 8 (ucast a) + ucast b :: u16)"
    by (rule disjunctive_add [symmetric]) (auto simp: bit_simps)
  also have "\<dots> = of_nat (unat a * 256 + unat b)"
    by (simp add: push_bit_eq_mult mult.commute)
  finally have e: "push_bit 8 (ucast a) OR ucast b = (of_nat (unat a * 256 + unat b) :: u16)" .
  have "unat a * 256 + unat b < 65536" using octet_bound [of a] octet_bound [of b] by linarith
  then show ?thesis unfolding e by (simp add: unat_of_nat take_bit_nat_eq_self del: of_nat_add of_nat_mult)
qed

lemma or_octets3: "unat (push_bit 16 (ucast (a :: u8)) OR ucast (w :: u16) :: u32) = unat a * 65536 + unat w"
proof -
  have "push_bit 16 (ucast a) OR ucast w = (push_bit 16 (ucast a) + ucast w :: u32)"
    by (rule disjunctive_add [symmetric]) (auto simp: bit_simps dest: bit_imp_le_length)
  also have "\<dots> = of_nat (unat a * 65536 + unat w)"
    by (simp add: push_bit_eq_mult mult.commute)
  finally have e: "push_bit 16 (ucast a) OR ucast w = (of_nat (unat a * 65536 + unat w) :: u32)" .
  have "unat a * 65536 + unat w < 4294967296"
    using octet_bound [of a] unat_lt_pow [of w] by (simp del: octet_bound)
  then show ?thesis unfolding e
    by (simp add: unat_of_nat take_bit_nat_eq_self del: of_nat_add of_nat_mult)
qed

lemma unat_widen: "unat (ucast (w :: u16) :: u32) = unat w" "unat (ucast (b :: u8) :: u32) = unat b"
  using unat_lt_pow [of w] less_trans [OF octet_bound [of b], of "2 ^ 32"]
  by (simp_all add: unsigned_ucast_eq take_bit_nat_eq_self)

lemma msg_init_data:
  assumes "nb_size msg < 65536" "bt_mesh_model_msg_init msg op = Some b"
  shows "nb_invar b \<and> nb_data b = opcode_bytes op"
proof -
  let ?m = "net_buf_simple_init msg 0"
  have m: "nb_invar ?m" "nb_data ?m = []" using assms(1) by (simp_all add: net_buf_simple_init_def nb_basic_defs)
  have m16: "op AND 0xffff = take_bit 16 op" and m8: "drop_bit 16 op AND 0xff = take_bit 8 (drop_bit 16 op)"
    by (simp_all add: take_bit_eq_mask mask_eq_exp_minus_1)
  have le: "ucast (ucast (op AND 0xffff) :: u16) = (ucast op :: u8)" "ucast (drop_bit 8 (ucast (op AND 0xffff) :: u16)) = (ucast (drop_bit 8 op) :: u8)"
    "ucast (drop_bit 16 op AND 0xff) = (ucast (drop_bit 16 op) :: u8)"
    unfolding m16 m8 by (rule bit_word_eqI; auto simp: bit_simps)+
  have be: "ucast (drop_bit 8 (ucast op :: u16)) = (ucast (drop_bit 8 op) :: u8)" "ucast (ucast op :: u16) = (ucast op :: u8)"
    by (rule bit_word_eqI; auto simp: bit_simps)+
  consider "op \<le> 0xff" | "\<not> op \<le> 0xff" "op \<le> 0xffff" | "\<not> op \<le> 0xff" "\<not> op \<le> 0xffff" by blast
  then show ?thesis
  proof cases
    case 1
    then have "net_buf_simple_add_mem ?m [ucast op] = Some b"
      using assms(2) by (simp add: bt_mesh_model_msg_init_def BT_MESH_MODEL_OP_LEN_def net_buf_simple_add_u8_def Let_def)
    from nb.add_content [OF m(1) this] m(2) 1 show ?thesis by (simp add: opcode_bytes_def)
  next
    case 2
    then have "net_buf_simple_add_mem ?m (sys_put_be16 (ucast op)) = Some b"
      using assms(2) by (simp add: bt_mesh_model_msg_init_def BT_MESH_MODEL_OP_LEN_def net_buf_simple_add_be16_def Let_def)
    from nb.add_content [OF m(1) this] m(2) 2 be show ?thesis by (simp add: opcode_bytes_def sys_put_be16_def)
  next
    case 3
    then obtain b1 where b1: "net_buf_simple_add_mem ?m [ucast (drop_bit 16 op AND 0xff)] = Some b1"
      "net_buf_simple_add_mem b1 (sys_put_le16 (ucast (op AND 0xffff))) = Some b"
      using assms(2) by (auto simp: bt_mesh_model_msg_init_def BT_MESH_MODEL_OP_LEN_def net_buf_simple_add_u8_def
          net_buf_simple_add_le16_def Let_def bind_eq_Some_conv)
    from nb.add_content [OF m(1) b1(1)] m(2) have "nb_invar b1" "nb_data b1 = [ucast (drop_bit 16 op)]" by (simp_all add: le)
    with nb.add_content [OF _ b1(2)] 3 show ?thesis by (simp add: opcode_bytes_def sys_put_le16_def le)
  qed
qed

lemma get_opcode_data:
  assumes "nb_invar buf" "nb_data buf \<noteq> []"
  shows "case get_opcode buf of
      Some (Inr (op, b)) \<Rightarrow> nb_invar b \<and> opcode_read (nb_data buf) = Some (unat op, nb_data b)
    | Some (Inl err) \<Rightarrow> opcode_read (nb_data buf) = None
    | None \<Rightarrow> False"
proof -
  obtain b0 d where d: "nb_data buf = b0 # d" using assms(2) by (cases "nb_data buf") auto
  have len: "nb_len buf = Suc (length d)" using length_nb_data [OF assms(1)] d by simp
  then have off: "\<not> nb_off buf \<ge> nb_size buf" using assms(1) by (auto simp: nb_basic_defs)
  have b0: "nb_store buf ! nb_off buf = b0"
    using d len off by (simp add: nb_data_def nb_size_def) (metis Cons_nth_drop_Suc list.inject not_le take_Suc_Cons)
  have t: "drop_bit 6 b0 \<le> 1 \<longleftrightarrow> unat b0 < 128" "drop_bit 6 b0 = 2 \<longleftrightarrow> 128 \<le> unat b0 \<and> unat b0 < 192" "b0 = 0x7f \<longleftrightarrow> unat b0 = 127"
    by (auto simp: word_le_nat_alt word_unat_eq_iff unat_drop_octet)
  have 8: "\<exists>b. net_buf_simple_pull_u8 buf = Some (b0, b) \<and> nb_invar b \<and> nb_data b = d" using pull_u8_data [OF assms(1)] d by simp
  consider "unat b0 < 128" | "128 \<le> unat b0" "unat b0 < 192" | "192 \<le> unat b0" by linarith
  then show ?thesis
  proof cases
    case 1
    with 8 off b0 t d show ?thesis by (auto simp: get_opcode_def Let_def unat_widen)
  next
    case 2
    show ?thesis
    proof (cases d)
      case Nil
      with 2 off b0 t d len show ?thesis by (simp add: get_opcode_def Let_def)
    next
      case (Cons b1 d')
      then obtain b where b: "net_buf_simple_pull_be16 buf = Some (sys_get_be16 (nb_data buf), b)" "nb_invar b" "nb_data b = d'"
        using pull_be16_data [OF assms(1)] d by auto
      have "unat (ucast (sys_get_be16 (nb_data buf)) :: u32) = unat b0 * 256 + unat b1"
        using d Cons by (simp add: unat_widen sys_get_be16_def or_octets)
      with 2 off b0 t d len Cons b show ?thesis by (simp add: get_opcode_def Let_def)
    qed
  next
    case 3
    show ?thesis
    proof (cases "\<exists>b1 b2 d'. d = b1 # b2 # d'")
      case False
      then have "length d < 2" by (cases d; cases "tl d") auto
      with False 3 off b0 t d len show ?thesis by (auto simp: get_opcode_def Let_def split: list.splits)
    next
      case True
      then obtain b1 b2 d' where dd: "d = b1 # b2 # d'" by blast
      obtain b where b: "net_buf_simple_pull_u8 buf = Some (b0, b)" "nb_invar b" "nb_data b = d" using 8 by blast
      obtain c where c: "net_buf_simple_pull_le16 b = Some (sys_get_le16 (nb_data b), c)" "nb_invar c" "nb_data c = d'"
        using pull_le16_data [OF b(2)] b(3) dd by auto
      have "unat (push_bit 16 (ucast b0) OR ucast (sys_get_le16 (nb_data b)) :: u32) = unat b0 * 65536 + unat b2 * 256 + unat b1"
        using b(3) dd by (simp add: or_octets3 sys_get_le16_def or_octets)
      with 3 off b0 t d len dd b c show ?thesis by (simp add: get_opcode_def Let_def)
    qed
  qed
qed

lemma opcode_read_bytes: "opcode_read (opcode_bytes op @ params) = Some (unat op, params) \<longleftrightarrow> opcode_ok op"
proof -
  have ok: "opcode_ok op \<longleftrightarrow> unat op \<le> 126 \<or> 32768 \<le> unat op \<and> unat op \<le> 49151 \<or> 12582912 \<le> unat op \<and> unat op \<le> 16777215"
    by (simp add: opcode_ok_def word_le_nat_alt)
  consider "unat op \<le> 255" | "255 < unat op" "unat op \<le> 65535" | "65535 < unat op" by linarith
  then show ?thesis
  proof cases
    case 1
    then have "opcode_bytes op = [ucast op]" "unat (ucast op :: u8) = unat op" by (simp_all add: opcode_bytes_def word_le_nat_alt)
    with 1 show ?thesis unfolding ok by (auto split: list.splits)
  next
    case 2
    then have "opcode_bytes op = [ucast (drop_bit 8 op), ucast op]" "unat (ucast (drop_bit 8 op) :: u8) = unat op div 256"
      by (simp_all add: opcode_bytes_def word_le_nat_alt unat_drop_octet)
    with 2 show ?thesis unfolding ok by (auto split: list.splits)
  next
    case 3
    define x b c where xbc: "x = unat op div 65536" "b = unat op div 256 mod 256" "c = unat op mod 256"
    have "x * 256 + b = unat op div 256"
      using div_mult_mod_eq [of "unat op div 256" 256] by (simp add: xbc div_mult2_eq [symmetric])
    moreover have "unat op div 256 * 256 + c = unat op" unfolding xbc by (rule div_mult_mod_eq)
    ultimately have n: "unat op = x * 65536 + b * 256 + c" by linarith
    have bd: "b < 256" "c < 256" by (simp_all add: xbc)
    obtain y where y: "y = x mod 256" "y < 256" "y \<le> x" "y = x \<longleftrightarrow> x < 256" by fastforce
    have "opcode_bytes op = [ucast (drop_bit 16 op), ucast op, ucast (drop_bit 8 op)]"
      using 3 by (simp add: opcode_bytes_def word_le_nat_alt)
    moreover have "unat (ucast (drop_bit 16 op) :: u8) = y" "unat (ucast (drop_bit 8 op) :: u8) = b" "unat (ucast op :: u8) = c"
      by (simp_all add: unat_drop_octet y(1) xbc)
    ultimately show ?thesis using 3 bd y(2,3,4) unfolding ok n by (auto split: list.splits)
  qed
qed

text \<open>C29: opcodes. \<^verbatim>\<open>get_opcode\<close> takes off the front of a message the opcode that \<^verbatim>\<open>bt_mesh_model_msg_init\<close> put there and
  leaves the parameters, exactly when the opcode has one of the three formats of the specification.\<close>

theorem opcode_roundtrip:
  assumes "nb_size msg < 65536" "bt_mesh_model_msg_init msg op = Some m" "net_buf_simple_add_mem m params = Some buf"
  shows "(\<exists>b. get_opcode buf = Some (Inr (op, b)) \<and> nb_data b = params) \<longleftrightarrow> opcode_ok op"
proof -
  have m: "nb_invar m" "nb_data m = opcode_bytes op" using msg_init_data [OF assms(1,2)] by auto
  have buf: "nb_invar buf" "nb_data buf = opcode_bytes op @ params" using nb.add_content [OF m(1) assms(3)] m(2) by auto
  have ne: "opcode_bytes op \<noteq> []" by (simp add: opcode_bytes_def)
  have "(\<exists>b. get_opcode buf = Some (Inr (op, b)) \<and> nb_data b = params) \<longleftrightarrow> opcode_read (opcode_bytes op @ params) = Some (unat op, params)"
    using get_opcode_data [OF buf(1)] buf(2) ne by (auto simp: word_unat_eq_iff split: option.splits sum.splits prod.splits)
  also have "\<dots> \<longleftrightarrow> opcode_ok op"
    by (rule opcode_read_bytes)
  finally show ?thesis .
qed

theorem opcode_roundtrip_witness:
  "\<exists>m buf b. bt_mesh_model_msg_init (NET_BUF_SIMPLE_DEFINE (replicate 8 0)) 0x8201 = Some m \<and>
     net_buf_simple_add_mem m [1, 2] = Some buf \<and> get_opcode buf = Some (Inr (0x8201, b)) \<and> nb_data b = [1, 2]"
proof -
  let ?msg = "NET_BUF_SIMPLE_DEFINE (replicate 8 0)"
  obtain m where m: "bt_mesh_model_msg_init ?msg 0x8201 = Some m" "net_buf_simple_tailroom m = 6"
    by (simp add: bt_mesh_model_msg_init_def BT_MESH_MODEL_OP_LEN_def net_buf_simple_add_be16_def net_buf_simple_init_def
        NET_BUF_SIMPLE_DEFINE_def nb_op_defs nb_basic_defs)
  obtain buf where buf: "net_buf_simple_add_mem m [1, 2] = Some buf" using nb.add_Some [of "[1, 2]" m] m(2) by auto
  have "(\<exists>b. get_opcode buf = Some (Inr (0x8201, b)) \<and> nb_data b = [1, 2]) \<longleftrightarrow> opcode_ok 0x8201"
    by (rule opcode_roundtrip [OF _ m(1) buf]) (simp add: nb_size_def NET_BUF_SIMPLE_DEFINE_def)
  then have "\<exists>b. get_opcode buf = Some (Inr (0x8201, b)) \<and> nb_data b = [1, 2]" by (simp add: opcode_ok_def)
  with m(1) buf show ?thesis by blast
qed

end
