(* ===== verification/Beacon.thy ===== *)
theory Beacon
  imports Access
begin

text \<open>
  The beacons of subsys/bluetooth/mesh/beacon.c: secure network beacons, which carry the IV index and the flags of the
  IV update and key refresh procedures of a subnet, and the beacons of an unprovisioned device.

  \<^item> \<open>beacon_env\<close> has the environment of the transport layer (clock, cryptography), the handlers of subnet events, and
    what provisioning answers: whether a link is open, the data the application registered, and its callback.
  \<^item> \<open>obs_first_half\<close> is the static variable of \<^verbatim>\<open>update_beacon_observation\<close>.
  \<^item> \<^verbatim>\<open>CONFIG_BT_MESH_PB_ADV\<close> is compiled in, as for both applications.
  \<^item> \<^verbatim>\<open>bt_mesh_beacon_ivu_initiator\<close> is in Net, \<^verbatim>\<open>bt_mesh_beacon_update\<close> in Subnet and the handler of subnet events in
    App_Keys, where they are used.
\<close>

section \<open>Data\<close>

record beacon_state = access_state +
  obs_first_half :: bool

record bt_mesh_prov =
  pv_uuid :: bytes
  pv_uri :: "string option"
  pv_oob_info :: u16

record 's beacon_env =
  be_trans :: "'s trans_env"
  be_cbs :: "(nat \<Rightarrow> bt_mesh_key_evt \<Rightarrow> 's \<Rightarrow> 's) list"
  be_prov_active :: "'s \<Rightarrow> bool"
  be_prov :: bt_mesh_prov
  be_unprovisioned :: "(bytes \<Rightarrow> u16 \<Rightarrow> u32 option \<Rightarrow> 's \<Rightarrow> 's) option"

abbreviation be_net :: "'s beacon_env \<Rightarrow> 's net_env" where "be_net env \<equiv> te_net (be_trans env)"
abbreviation be_tc :: "'s beacon_env \<Rightarrow> tinycrypt" where "be_tc env \<equiv> ne_tc (be_net env)"

definition PROVISIONED_INTERVAL :: nat where "PROVISIONED_INTERVAL = 10000"
definition CONFIG_BT_MESH_UNPROV_BEACON_INT :: nat where "CONFIG_BT_MESH_UNPROV_BEACON_INT = 5"
definition BEACON_TYPE_UNPROVISIONED :: u8 where "BEACON_TYPE_UNPROVISIONED = 0x00"
definition BEACON_TYPE_SECURE :: u8 where "BEACON_TYPE_SECURE = 0x01"
definition UNPROV_XMIT :: u8 where "UNPROV_XMIT = BT_MESH_TRANSMIT 2 20"
definition PROV_XMIT :: u8 where "PROV_XMIT = BT_MESH_TRANSMIT 0 20"
definition BT_MESH_PROV_OOB_URI :: u16 where "BT_MESH_PROV_OOB_URI = 2"

section \<open>Sending\<close>

definition beacon_complete ::
    "'a mesh_state_scheme trans_env \<Rightarrow> nat \<Rightarrow> 'a mesh_state_scheme \<Rightarrow> 'a mesh_state_scheme" where
  "beacon_complete env i s = upd_sub i (\<lambda>sub. sub\<lparr>sub_beacon_sent := te_uptime env s\<rparr>) s"

definition bt_mesh_beacon_create :: "nat \<Rightarrow> net_buf_simple \<Rightarrow> 'a mesh_state_scheme \<Rightarrow> net_buf_simple option" where
  "bt_mesh_beacon_create i buf s =
     (let sub = subnets s ! i; keys = sub_keys sub ! SUBNET_KEY_TX_IDX sub in
      Option.bind (net_buf_simple_add_u8 buf BEACON_TYPE_SECURE) (\<lambda>buf.
      Option.bind (net_buf_simple_add_u8 buf (bt_mesh_net_flags (Some i) s)) (\<lambda>buf.
      Option.bind (net_buf_simple_add_mem buf (take 8 (sk_net_id keys))) (\<lambda>buf.
      Option.bind (net_buf_simple_add_be32 buf (bm_iv_index s)) (\<lambda>buf.
      net_buf_simple_add_mem buf (take 8 (sub_auth sub)))))))"

definition BEACON_THRESHOLD :: "bt_mesh_subnet \<Rightarrow> nat" where
  "BEACON_THRESHOLD sub = (10 * (unat (sub_beacons_last sub) + 1)) * 1000 - 5 * 1000"

definition secure_beacon_send ::
    "'a adv_state_scheme trans_env \<Rightarrow> nat \<Rightarrow> 'a adv_state_scheme \<Rightarrow> (errno option \<times> 'a adv_state_scheme) option" where
  "secure_beacon_send env i s =
     (let sub = subnets s ! i; time_diff = unat (te_uptime env s - sub_beacon_sent sub) in
      if time_diff < 600 * 1000 \<and> time_diff < BEACON_THRESHOLD sub then Some (None, s)
      else case bt_mesh_adv_create BT_MESH_ADV_BEACON PROV_XMIT s of
        None \<Rightarrow> Some (Some ENOMEM, s)
      | Some (buf, s) \<Rightarrow>
          map_option (\<lambda>b. (None, bt_mesh_adv_send (buf\<lparr>ab_b := b\<rparr>) (Some (CB_beacon i)) s))
            (bt_mesh_beacon_create i (ab_b buf) s))"

text \<open>\<^verbatim>\<open>bt_mesh_subnet_find\<close> with \<^verbatim>\<open>secure_beacon_send\<close>: it goes through the subnets until a call returns an error.\<close>

primrec secure_beacon_send_all ::
    "'a adv_state_scheme trans_env \<Rightarrow> nat list \<Rightarrow> 'a adv_state_scheme \<Rightarrow> 'a adv_state_scheme option" where
  "secure_beacon_send_all env [] s = Some s"
| "secure_beacon_send_all env (i # is) s =
     (if sub_net_idx (subnets s ! i) = BT_MESH_KEY_UNUSED then secure_beacon_send_all env is s
      else case secure_beacon_send env i s of
        None \<Rightarrow> None
      | Some (Some _, s) \<Rightarrow> Some s
      | Some (None, s) \<Rightarrow> secure_beacon_send_all env is s)"

text \<open>The URI follows the beacon in an advertisement of its own when it fits.\<close>

definition unprovisioned_uri_send :: "string \<Rightarrow> 'a adv_state_scheme \<Rightarrow> (errno option \<times> 'a adv_state_scheme) option" where
  "unprovisioned_uri_send uri s =
     (case bt_mesh_adv_create BT_MESH_ADV_URI UNPROV_XMIT s of
        None \<Rightarrow> Some (Some ENOBUFS, s)
      | Some (buf, s) \<Rightarrow>
          if net_buf_simple_tailroom (ab_b buf) < length uri then Some (None, net_buf_unref s)
          else map_option (\<lambda>b. (None, bt_mesh_adv_send (buf\<lparr>ab_b := b\<rparr>) None s))
                 (net_buf_simple_add_mem (ab_b buf) (c_str uri)))"

definition unprovisioned_beacon_send ::
    "'a adv_state_scheme beacon_env \<Rightarrow> 'a adv_state_scheme \<Rightarrow> (errno option \<times> 'a adv_state_scheme) option" where
  "unprovisioned_beacon_send env s =
     (case bt_mesh_adv_create BT_MESH_ADV_BEACON UNPROV_XMIT s of
        None \<Rightarrow> Some (Some ENOBUFS, s)
      | Some (buf, s) \<Rightarrow>
          let prov = be_prov env;
              hashed = (case pv_uri prov of None \<Rightarrow> Inl EINVAL | Some uri \<Rightarrow> bt_mesh_s1 (be_tc env) uri);
              uri_hash = (case hashed of Inl _ \<Rightarrow> replicate 16 0 | Inr h \<Rightarrow> h);
              oob_info = (case hashed of Inl _ \<Rightarrow> pv_oob_info prov | Inr _ \<Rightarrow> pv_oob_info prov OR BT_MESH_PROV_OOB_URI) in
          Option.bind (net_buf_simple_add_u8 (ab_b buf) BEACON_TYPE_UNPROVISIONED) (\<lambda>b.
          Option.bind (net_buf_simple_add_mem b (take 16 (pv_uuid prov))) (\<lambda>b.
          Option.bind (net_buf_simple_add_be16 b oob_info) (\<lambda>b.
          Option.bind (net_buf_simple_add_mem b (take 4 uri_hash)) (\<lambda>b.
          let s = bt_mesh_adv_send (buf\<lparr>ab_b := b\<rparr>) None s in
          case pv_uri prov of None \<Rightarrow> Some (None, s) | Some uri \<Rightarrow> unprovisioned_uri_send uri s)))))"

section \<open>The timer\<close>

definition sub_update_beacon_observation :: "nat \<Rightarrow> 'a mesh_state_scheme \<Rightarrow> 'a mesh_state_scheme" where
  "sub_update_beacon_observation i s =
     upd_sub i (\<lambda>sub. sub\<lparr>sub_beacons_last := sub_beacons_cur sub, sub_beacons_cur := 0\<rparr>) s"

definition update_beacon_observation :: "'a beacon_state_scheme \<Rightarrow> 'a beacon_state_scheme" where
  "update_beacon_observation s =
     (let s = s\<lparr>obs_first_half := \<not> obs_first_half s\<rparr> in
      if obs_first_half s then s else snd (bt_mesh_subnet_foreach sub_update_beacon_observation s))"

definition beacon_send :: "'a beacon_state_scheme beacon_env \<Rightarrow> 'a beacon_state_scheme \<Rightarrow> 'a beacon_state_scheme option" where
  "beacon_send env s =
     (let unprov = (\<lambda>s. s\<lparr>beacon_timer := Some (CONFIG_BT_MESH_UNPROV_BEACON_INT * 1000)\<rparr>) in
      if be_prov_active env s then Some (unprov s)
      else if bt_mesh_is_provisioned s then
        (let s = update_beacon_observation s in
         map_option (\<lambda>s. if bt_mesh_beacon_enabled s \<or> flags s BT_MESH_IVU_INITIATOR
                         then s\<lparr>beacon_timer := Some PROVISIONED_INTERVAL\<rparr> else s)
           (secure_beacon_send_all (be_trans env) [0..<length (subnets s)] s))
      else map_option (\<lambda>(_, s). unprov s) (unprovisioned_beacon_send env s))"

section \<open>Receiving\<close>

definition unprovisioned_beacon_recv ::
    "'s beacon_env \<Rightarrow> net_buf_simple \<Rightarrow> 's \<Rightarrow> (net_buf_simple \<times> 's) option" where
  "unprovisioned_beacon_recv env buf s =
     (if nb_len buf \<noteq> 18 \<and> nb_len buf \<noteq> 22 then Some (buf, s)
      else
        Option.bind (net_buf_simple_pull_mem buf 16) (\<lambda>(uuid, buf).
        Option.bind (net_buf_simple_pull_be16 buf) (\<lambda>(oob_info, buf).
        Option.bind (if nb_len buf = 4 then map_option (\<lambda>(h, b). (Some h, b)) (net_buf_simple_pull_be32 buf)
                     else Some (None, buf)) (\<lambda>(uri_hash, buf).
        Some (buf, case be_unprovisioned env of None \<Rightarrow> s | Some f \<Rightarrow> f uuid oob_info uri_hash s)))))"

record beacon_params =
  bp_net_id :: bytes
  bp_auth :: bytes
  bp_iv_index :: u32
  bp_flags :: u8

text \<open>
  \<^verbatim>\<open>memcmp\<close> of \<open>n\<close> bytes compares the first \<open>n\<close> of both sides. When the authentication value cannot be computed the code
  compares with what \<^verbatim>\<open>net_auth\<close> held on the stack.
\<close>

definition cache_check :: "bytes \<Rightarrow> bt_mesh_subnet \<Rightarrow> bool" where
  "cache_check data sub \<longleftrightarrow> take 21 (sub_beacon_cache sub) = take 21 data"

definition cache_add :: "bytes \<Rightarrow> nat \<Rightarrow> 'a mesh_state_scheme \<Rightarrow> 'a mesh_state_scheme" where
  "cache_add data i s = upd_sub i (\<lambda>sub. sub\<lparr>sub_beacon_cache := take 21 data\<rparr>) s"

definition auth_match :: "'s net_env \<Rightarrow> beacon_params \<Rightarrow> bt_mesh_subnet_keys \<Rightarrow> bool" where
  "auth_match env params keys \<longleftrightarrow>
     take 8 (bp_net_id params) = take 8 (sk_net_id keys) \<and>
     take 8 (bp_auth params) =
       (case bt_mesh_beacon_auth (ne_tc env) (sk_beacon keys) (bp_flags params) (sk_net_id keys) (bp_iv_index params) of
          Inl _ \<Rightarrow> take 8 (ne_stack env) | Inr net_auth \<Rightarrow> net_auth)"

text \<open>\<^verbatim>\<open>subnet_by_id\<close> finds the first key that matches; whether it is the new one is \<^verbatim>\<open>params->new_key\<close>.\<close>

definition subnet_by_id :: "'s net_env \<Rightarrow> beacon_params \<Rightarrow> bt_mesh_subnet \<Rightarrow> nat option" where
  "subnet_by_id env params sub = find_idx (\<lambda>keys. sk_valid keys \<and> auth_match env params keys) (sub_keys sub)"

definition beacon_update_stats :: "nat \<Rightarrow> 'a mesh_state_scheme \<Rightarrow> 'a mesh_state_scheme" where
  "beacon_update_stats i s =
     (if bt_mesh_beacon_enabled s \<and> sub_beacons_cur (subnets s ! i) < 0xff
      then upd_sub i (\<lambda>sub. sub\<lparr>sub_beacons_cur := sub_beacons_cur sub + 1\<rparr>) s else s)"

text \<open>What an authentic beacon that is not cached makes the node do, from \<^verbatim>\<open>cache_add\<close> on.\<close>

definition secure_beacon_accept ::
    "'a net_state_scheme beacon_env \<Rightarrow> bytes \<Rightarrow> beacon_params \<Rightarrow> nat \<Rightarrow> bool \<Rightarrow> 'a net_state_scheme \<Rightarrow> 'a net_state_scheme" where
  "secure_beacon_accept env data params i new_key s =
     (let s = cache_add data i s;
          s = bt_mesh_kr_update (be_cbs env) i (BT_MESH_KEY_REFRESH (bp_flags params)) new_key s in
      if bt_mesh_subnet_get BT_MESH_KEY_PRIMARY s \<noteq> None \<and> sub_net_idx (subnets s ! i) \<noteq> BT_MESH_KEY_PRIMARY
      then beacon_update_stats i s
      else
        let s = (if flags s BT_MESH_IVU_INITIATOR \<and>
                    (flags s BT_MESH_IVU_IN_PROGRESS \<longleftrightarrow> BT_MESH_IV_UPDATE (bp_flags params))
                 then bt_mesh_beacon_ivu_initiator False s else s) in
        beacon_update_stats i
          (snd (bt_mesh_net_iv_update (be_net env) (bp_iv_index params) (BT_MESH_IV_UPDATE (bp_flags params)) s)))"

definition secure_beacon_recv ::
    "'a net_state_scheme beacon_env \<Rightarrow> net_buf_simple \<Rightarrow> 'a net_state_scheme \<Rightarrow>
     (net_buf_simple \<times> 'a net_state_scheme) option" where
  "secure_beacon_recv env buf s =
     (if nb_len buf < 21 then Some (buf, s)
      else case bt_mesh_subnet_find (Some (cache_check (nb_data buf))) s of
        Some i \<Rightarrow> Some (buf, beacon_update_stats i s)
      | None \<Rightarrow>
          let data = nb_data buf in
          Option.bind (net_buf_simple_pull_u8 buf) (\<lambda>(fl, buf).
          Option.bind (net_buf_simple_pull_mem buf 8) (\<lambda>(net_id, buf).
          Option.bind (net_buf_simple_pull_be32 buf) (\<lambda>(iv_index, buf).
          let params = \<lparr>bp_net_id = net_id, bp_auth = nb_data buf, bp_iv_index = iv_index, bp_flags = fl\<rparr> in
          Some (buf,
            case bt_mesh_subnet_find (Some (\<lambda>sub. subnet_by_id (be_net env) params sub \<noteq> None)) s of
              None \<Rightarrow> s
            | Some i \<Rightarrow>
                let new_key = (subnet_by_id (be_net env) params (subnets s ! i) \<noteq> Some 0) in
                if sub_kr_phase (subnets s ! i) = BT_MESH_KR_PHASE_2 \<and> \<not> new_key then s
                else secure_beacon_accept env data params i new_key s)))))"

definition bt_mesh_beacon_recv ::
    "'a net_state_scheme beacon_env \<Rightarrow> net_buf_simple \<Rightarrow> 'a net_state_scheme \<Rightarrow>
     (net_buf_simple \<times> 'a net_state_scheme) option" where
  "bt_mesh_beacon_recv env buf s =
     (if nb_len buf < 1 then Some (buf, s)
      else Option.bind (net_buf_simple_pull_u8 buf) (\<lambda>(type, buf).
        if type = BEACON_TYPE_UNPROVISIONED then unprovisioned_beacon_recv env buf s
        else if type = BEACON_TYPE_SECURE then secure_beacon_recv env buf s
        else Some (buf, s)))"

section \<open>Switching beacons on and off\<close>

definition subnet_beacon_enable :: "tinycrypt \<Rightarrow> nat \<Rightarrow> 'a mesh_state_scheme \<Rightarrow> 'a mesh_state_scheme" where
  "subnet_beacon_enable tc i s =
     bt_mesh_beacon_update tc i (upd_sub i (\<lambda>sub. sub\<lparr>sub_beacons_last := 0, sub_beacons_cur := 0\<rparr>) s)"

definition bt_mesh_beacon_enable :: "tinycrypt \<Rightarrow> 'a net_state_scheme \<Rightarrow> 'a net_state_scheme" where
  "bt_mesh_beacon_enable tc s =
     (if \<not> bt_mesh_is_provisioned s then s\<lparr>beacon_timer := Some 0\<rparr>
      else (snd (bt_mesh_subnet_foreach (subnet_beacon_enable tc) s))\<lparr>beacon_timer := Some 0\<rparr>)"

definition bt_mesh_beacon_disable :: "'a net_state_scheme \<Rightarrow> 'a net_state_scheme" where
  "bt_mesh_beacon_disable s = (if \<not> flags s BT_MESH_IVU_INITIATOR then s\<lparr>beacon_timer := None\<rparr> else s)"

end
