(* ===== verification/Heartbeat.thy ===== *)
theory Heartbeat
  imports Beacon
begin

text \<open>
  The heartbeats of subsys/bluetooth/mesh/heartbeat.c and heartbeat.h: periodic publication with a count, publication on
  a change of features, and the statistics of a subscription.

  \<^item> \<open>hb_pub\<close> and \<open>hb_sub\<close> are the static variables \<^verbatim>\<open>pub\<close> and \<^verbatim>\<open>sub\<close>, \<open>hb_pub_timer\<close> and \<open>hb_sub_timer\<close> the two delayed
    works: the milliseconds that remain, or \<open>None\<close> when it is not pending.
  \<^item> \<open>hb_env\<close> has the environment of the access layer and the callbacks that the application registered. \<open>hb_acc\<close> is that
    environment with the functions of this file put in: the callbacks of a heartbeat and of a beacon, and
    \<^verbatim>\<open>bt_mesh_hb_recv\<close>.
  \<^item> The low power feature is not compiled in: \<^verbatim>\<open>bt_mesh_lpn_established\<close> is false.
\<close>

section \<open>Logarithmic values\<close>

text \<open>A shift by 31 bits or more is not defined for a 32-bit \<^verbatim>\<open>int\<close>; the result is cut to 16 bits.\<close>

definition bt_mesh_hb_pwr2 :: "u8 \<Rightarrow> u16 option" where
  "bt_mesh_hb_pwr2 val =
     (if val = 0 then Some 0x0000
      else if val = 0xff \<or> val = 0x11 then Some 0xffff
      else if unat val - 1 \<ge> 31 then None
      else Some (of_nat (2 ^ (unat val - 1))))"

text \<open>\<^verbatim>\<open>32 - __builtin_clz(val)\<close> is the number of binary digits.\<close>

fun bit_len :: "nat \<Rightarrow> nat" where
  "bit_len n = (if n = 0 then 0 else Suc (bit_len (n div 2)))"

declare bit_len.simps [simp del]

definition bt_mesh_hb_log :: "u32 \<Rightarrow> u8" where
  "bt_mesh_hb_log val = (if val = 0 then 0x00 else if val = 0xffff then 0xff else of_nat (bit_len (unat val)))"

section \<open>Data\<close>

record bt_mesh_hb_pub =
  hp_dst :: u16
  hp_count :: u16
  hp_ttl :: u8
  hp_feat :: u16
  hp_net_idx :: u16
  hp_period :: u32

record bt_mesh_hb_sub =
  hs_period :: u32
  hs_remaining :: u32
  hs_src :: u16
  hs_dst :: u16
  hs_count :: u16
  hs_min_hops :: u8
  hs_max_hops :: u8

record hb_state = beacon_state +
  hb_pub :: bt_mesh_hb_pub
  hb_sub :: bt_mesh_hb_sub
  hb_pub_timer :: "nat option"
  hb_sub_timer :: "nat option"

record 's bt_mesh_hb_cb =
  hc_recv :: "(bt_mesh_hb_sub \<Rightarrow> u8 \<Rightarrow> u16 \<Rightarrow> 's \<Rightarrow> 's) option"
  hc_sub_end :: "(bt_mesh_hb_sub \<Rightarrow> 's \<Rightarrow> 's) option"

record 's hb_env =
  he_acc :: "'s acc_env"
  he_cbs :: "'s bt_mesh_hb_cb list"

definition BT_MESH_FEAT_RELAY :: u16 where "BT_MESH_FEAT_RELAY = 1"
definition BT_MESH_FEAT_PROXY :: u16 where "BT_MESH_FEAT_PROXY = 2"
definition BT_MESH_FEAT_FRIEND :: u16 where "BT_MESH_FEAT_FRIEND = 4"
definition BT_MESH_FEAT_LOW_POWER :: u16 where "BT_MESH_FEAT_LOW_POWER = 8"
definition BT_MESH_FEAT_SUPPORTED :: u16 where
  "BT_MESH_FEAT_SUPPORTED = BT_MESH_FEAT_RELAY OR BT_MESH_FEAT_PROXY OR BT_MESH_FEAT_FRIEND OR BT_MESH_FEAT_LOW_POWER"

section \<open>Publication\<close>

definition sub_remaining :: "'a hb_state_scheme \<Rightarrow> nat" where
  "sub_remaining s =
     (if hs_dst (hb_sub s) = BT_MESH_ADDR_UNASSIGNED then 0
      else case hb_sub_timer s of None \<Rightarrow> 0 | Some t \<Rightarrow> t div 1000)"

definition hb_publish_end_cb :: "'a hb_state_scheme \<Rightarrow> 'a hb_state_scheme" where
  "hb_publish_end_cb s =
     (let pub = hb_pub s;
          s = (if hp_period pub \<noteq> 0 \<and> hp_count pub > 1 then s\<lparr>hb_pub_timer := Some (unat (hp_period pub) * 1000)\<rparr> else s) in
      if hp_count pub \<noteq> 0xffff then s\<lparr>hb_pub := pub\<lparr>hp_count := hp_count pub - 1\<rparr>\<rparr> else s)"

definition hb_publish_start_cb :: "errno option \<Rightarrow> 'a hb_state_scheme \<Rightarrow> 'a hb_state_scheme" where
  "hb_publish_start_cb err s = (if err \<noteq> None then hb_publish_end_cb s else s)"

definition notify_recv ::
    "'a hb_state_scheme hb_env \<Rightarrow> u8 \<Rightarrow> u16 \<Rightarrow> 'a hb_state_scheme \<Rightarrow> 'a hb_state_scheme" where
  "notify_recv env hops feat s =
     (let s = s\<lparr>hb_sub := (hb_sub s)\<lparr>hs_remaining := of_nat (sub_remaining s)\<rparr>\<rparr> in
      fold (\<lambda>cb s. case hc_recv cb of None \<Rightarrow> s | Some f \<Rightarrow> f (hb_sub s) hops feat s) (he_cbs env) s)"

definition notify_sub_end :: "'a hb_state_scheme hb_env \<Rightarrow> 'a hb_state_scheme \<Rightarrow> 'a hb_state_scheme" where
  "notify_sub_end env s =
     (let s = s\<lparr>hb_sub := (hb_sub s)\<lparr>hs_remaining := 0\<rparr>\<rparr> in
      fold (\<lambda>cb s. case hc_sub_end cb of None \<Rightarrow> s | Some f \<Rightarrow> f (hb_sub s) s) (he_cbs env) s)"

text \<open>The work of \<^verbatim>\<open>sub_timer\<close>.\<close>

definition sub_end :: "'a hb_state_scheme hb_env \<Rightarrow> 'a hb_state_scheme \<Rightarrow> 'a hb_state_scheme" where
  "sub_end env s = notify_sub_end env (s\<lparr>hb_sub_timer := None\<rparr>)"

definition bt_mesh_hb_recv ::
    "'a hb_state_scheme hb_env \<Rightarrow> bt_mesh_net_rx \<Rightarrow> net_buf_simple \<Rightarrow> 'a hb_state_scheme \<Rightarrow>
     (errno option \<times> 'a hb_state_scheme) option" where
  "bt_mesh_hb_recv env rx buf s =
     (if nb_len buf < 3 then Some (Some EINVAL, s)
      else do {
        (b, buf) \<leftarrow> net_buf_simple_pull_u8 buf;
        (feat, buf) \<leftarrow> net_buf_simple_pull_be16 buf;
        let init_ttl = b AND 0x7f;
            hops = init_ttl - ctx_recv_ttl (rx_ctx rx) + 1;
            sub = hb_sub s in
        if ctx_addr (rx_ctx rx) \<noteq> hs_src sub \<or> ctx_recv_dst (rx_ctx rx) \<noteq> hs_dst sub then Some (None, s)
        else if hb_sub_timer s = None then Some (None, s)
        else
          let s = s\<lparr>hb_sub := sub\<lparr>hs_min_hops := min (hs_min_hops sub) hops, hs_max_hops := max (hs_max_hops sub) hops,
                      hs_count := (if hs_count sub < 0xffff then hs_count sub + 1 else hs_count sub)\<rparr>\<rparr> in
          Some (None, notify_recv env hops feat s) })"

text \<open>The callbacks of queued buffers: those of heartbeat.c and beacon.c in front of the others.\<close>

definition hb_cbs :: "'a hb_state_scheme hb_env \<Rightarrow> 'a hb_state_scheme cb_sem" where
  "hb_cbs env =
     (let tr = ae_trans (he_acc env); other = ne_cbs (te_net tr) in
      \<lparr>cb_start = (\<lambda>c duration err s. case c of CB_hb \<Rightarrow> hb_publish_start_cb err s | CB_beacon _ \<Rightarrow> s
                     | _ \<Rightarrow> cb_start other c duration err s),
       cb_end = (\<lambda>c err s. case c of CB_hb \<Rightarrow> hb_publish_end_cb s | CB_beacon i \<Rightarrow> beacon_complete tr i s
                     | _ \<Rightarrow> cb_end other c err s)\<rparr>)"

definition hb_acc :: "'a hb_state_scheme hb_env \<Rightarrow> 'a hb_state_scheme acc_env" where
  "hb_acc env =
     (let tr = ae_trans (he_acc env) in
      (he_acc env)\<lparr>ae_trans := tr\<lparr>te_net := (te_net tr)\<lparr>ne_cbs := hb_cbs env\<rparr>, te_hb_recv := bt_mesh_hb_recv env\<rparr>\<rparr>)"

definition hb_features :: "'s net_env \<Rightarrow> 'a mesh_sched_scheme \<Rightarrow> u16" where
  "hb_features env s =
     (if bt_mesh_relay_get s = BT_MESH_FEATURE_ENABLED then BT_MESH_FEAT_RELAY else 0) OR
     (if bt_mesh_gatt_proxy_get env s = BT_MESH_FEATURE_ENABLED then BT_MESH_FEAT_PROXY else 0) OR
     (if bt_mesh_friend_get env s = BT_MESH_FEATURE_ENABLED then BT_MESH_FEAT_FRIEND else 0)"

text \<open>
  \<^verbatim>\<open>bt_mesh_subnet_get\<close> may answer with a null pointer. \<^verbatim>\<open>bt_mesh_ctl_send\<close> then still returns an error for a TTL or a
  destination it refuses and when there is no buffer; past these it reads the subnet through the pointer.
\<close>

definition heartbeat_send ::
    "'a hb_state_scheme hb_env \<Rightarrow> send_cb option \<Rightarrow> 'a hb_state_scheme \<Rightarrow> (errno option \<times> 'a hb_state_scheme) option" where
  "heartbeat_send env cb s =
     (let pub = hb_pub s; tenv = acc_trans (hb_acc env) s;
          ctx = \<lparr>ctx_net_idx = hp_net_idx pub, ctx_app_idx = BT_MESH_KEY_UNUSED, ctx_addr = hp_dst pub, ctx_recv_dst = 0,
                 ctx_recv_rssi = 0, ctx_recv_ttl = 0, ctx_send_rel = False, ctx_send_ttl = hp_ttl pub\<rparr>;
          data = hp_ttl pub # sys_put_be16 (hb_features (te_net tenv) s) in
      if hp_dst pub = BT_MESH_ADDR_UNASSIGNED then Some (None, s)
      else case bt_mesh_subnet_get (hp_net_idx pub) s of
        Some i \<Rightarrow>
          bt_mesh_ctl_send tenv
            \<lparr>tx_sub = i, tx_ctx = ctx, tx_src = bt_mesh_primary_addr s, tx_xmit = bt_mesh_net_transmit_get s,
             tx_friend_cred = False, tx_aszmic = False, tx_aid = 0\<rparr> TRANS_CTL_OP_HEARTBEAT data cb s
      | None \<Rightarrow>
          if trans_send_ttl (hp_ttl pub) s = None \<or> BT_MESH_ADDR_IS_VIRTUAL (hp_dst pub) then Some (Some EINVAL, s)
          else if bt_mesh_adv_create BT_MESH_ADV_DATA (bt_mesh_net_transmit_get s) s = None then Some (Some ENOBUFS, s)
          else None)"

text \<open>The work of \<^verbatim>\<open>pub_timer\<close>.\<close>

definition hb_publish :: "'a hb_state_scheme hb_env \<Rightarrow> 'a hb_state_scheme \<Rightarrow> 'a hb_state_scheme option" where
  "hb_publish env s =
     (let s = s\<lparr>hb_pub_timer := None\<rparr> in
      if bt_mesh_subnet_get (hp_net_idx (hb_pub s)) s = None
      then Some (s\<lparr>hb_pub := (hb_pub s)\<lparr>hp_dst := BT_MESH_ADDR_UNASSIGNED\<rparr>\<rparr>)
      else if hp_count (hb_pub s) = 0 then Some s
      else case heartbeat_send env (Some CB_hb) s of
        None \<Rightarrow> None
      | Some (err, s) \<Rightarrow> Some (if err \<noteq> None then hb_publish_end_cb s else s))"

definition pub_disable :: "'a hb_state_scheme \<Rightarrow> 'a hb_state_scheme" where
  "pub_disable s =
     s\<lparr>hb_pub := (hb_pub s)\<lparr>hp_dst := BT_MESH_ADDR_UNASSIGNED, hp_count := 0, hp_ttl := 0, hp_period := 0\<rparr>,
       hb_pub_timer := None\<rparr>"

definition bt_mesh_hb_pub_set :: "bt_mesh_hb_pub option \<Rightarrow> 'a hb_state_scheme \<Rightarrow> mesh_status \<times> 'a hb_state_scheme" where
  "bt_mesh_hb_pub_set new_pub s =
     (let disable = (let s = pub_disable s in
                     (STATUS_SUCCESS, if bt_mesh_is_provisioned s then bt_mesh_store_hb_pub s else s)) in
      case new_pub of
        None \<Rightarrow> disable
      | Some new \<Rightarrow>
          if hp_dst new = BT_MESH_ADDR_UNASSIGNED then disable
          else if bt_mesh_subnet_get (hp_net_idx new) s = None then (STATUS_INVALID_NETKEY, s)
          else
            let pub = new\<lparr>hp_feat := hp_feat new AND BT_MESH_FEAT_SUPPORTED\<rparr>;
                s = s\<lparr>hb_pub := pub\<rparr> in
            if \<not> bt_mesh_is_provisioned s then (STATUS_SUCCESS, s)
            else (STATUS_SUCCESS, bt_mesh_store_hb_pub
                    (s\<lparr>hb_pub_timer := (if hp_period pub \<noteq> 0 \<and> hp_count pub \<noteq> 0 then Some 0 else None)\<rparr>)))"

definition bt_mesh_hb_pub_get :: "'a hb_state_scheme \<Rightarrow> bt_mesh_hb_pub" where
  "bt_mesh_hb_pub_get s = hb_pub s"

section \<open>Subscription\<close>

text \<open>\<^verbatim>\<open>k_delayed_work_cancel\<close> returns 0 when the work was pending.\<close>

definition hb_sub_stop :: "'a hb_state_scheme hb_env \<Rightarrow> 'a hb_state_scheme \<Rightarrow> 'a hb_state_scheme" where
  "hb_sub_stop env s =
     (let s = s\<lparr>hb_sub := (hb_sub s)\<lparr>hs_period := hs_period (hb_sub s) - of_nat (sub_remaining s)\<rparr>\<rparr> in
      if hb_sub_timer s \<noteq> None then notify_sub_end env (s\<lparr>hb_sub_timer := None\<rparr>) else s)"

definition bt_mesh_hb_sub_set ::
    "'a hb_state_scheme hb_env \<Rightarrow> u16 \<Rightarrow> u16 \<Rightarrow> u32 \<Rightarrow> 'a hb_state_scheme \<Rightarrow> mesh_status \<times> 'a hb_state_scheme" where
  "bt_mesh_hb_sub_set env src dst period s =
     (if src \<noteq> BT_MESH_ADDR_UNASSIGNED \<and> \<not> BT_MESH_ADDR_IS_UNICAST src then (STATUS_INVALID_ADDRESS, s)
      else if BT_MESH_ADDR_IS_VIRTUAL dst \<or> BT_MESH_ADDR_IS_RFU dst \<or>
              (BT_MESH_ADDR_IS_UNICAST dst \<and> dst \<noteq> bt_mesh_primary_addr s) then (STATUS_INVALID_ADDRESS, s)
      else if period > 0x10000 then (STATUS_CANNOT_SET, s)
      else if src = BT_MESH_ADDR_UNASSIGNED \<or> dst = BT_MESH_ADDR_UNASSIGNED then
        (STATUS_SUCCESS, hb_sub_stop env
           (s\<lparr>hb_sub := (hb_sub s)\<lparr>hs_src := BT_MESH_ADDR_UNASSIGNED, hs_dst := BT_MESH_ADDR_UNASSIGNED,
                hs_min_hops := 0, hs_max_hops := 0, hs_count := 0\<rparr>\<rparr>))
      else if period \<noteq> 0 then
        (STATUS_SUCCESS, s\<lparr>hb_sub := (hb_sub s)\<lparr>hs_src := src, hs_dst := dst, hs_min_hops := BT_MESH_TTL_MAX,
             hs_max_hops := 0, hs_count := 0, hs_period := period\<rparr>, hb_sub_timer := Some (unat period * 1000)\<rparr>)
      else (STATUS_SUCCESS, hb_sub_stop env s))"

definition bt_mesh_hb_sub_get :: "'a hb_state_scheme \<Rightarrow> bt_mesh_hb_sub" where
  "bt_mesh_hb_sub_get s = (hb_sub s)\<lparr>hs_remaining := of_nat (sub_remaining s)\<rparr>"

section \<open>Features and suspension\<close>

definition bt_mesh_hb_feature_changed ::
    "'a hb_state_scheme hb_env \<Rightarrow> u16 \<Rightarrow> 'a hb_state_scheme \<Rightarrow> 'a hb_state_scheme option" where
  "bt_mesh_hb_feature_changed env features s =
     (if hp_dst (hb_pub s) = BT_MESH_ADDR_UNASSIGNED then Some s
      else if hp_feat (hb_pub s) AND features = 0 then Some s
      else map_option snd (heartbeat_send env None s))"

definition bt_mesh_hb_init :: "'a hb_state_scheme \<Rightarrow> 'a hb_state_scheme" where
  "bt_mesh_hb_init s =
     s\<lparr>hb_pub := (hb_pub s)\<lparr>hp_net_idx := BT_MESH_KEY_UNUSED\<rparr>, hb_pub_timer := None, hb_sub_timer := None\<rparr>"

definition bt_mesh_hb_start :: "'a hb_state_scheme \<Rightarrow> 'a hb_state_scheme" where
  "bt_mesh_hb_start s =
     (if hp_count (hb_pub s) \<noteq> 0 \<and> hp_period (hb_pub s) \<noteq> 0 then s\<lparr>hb_pub_timer := Some 0\<rparr> else s)"

definition bt_mesh_hb_suspend :: "'a hb_state_scheme \<Rightarrow> 'a hb_state_scheme" where
  "bt_mesh_hb_suspend s = s\<lparr>hb_pub_timer := None\<rparr>"

definition bt_mesh_hb_resume :: "'a hb_state_scheme \<Rightarrow> 'a hb_state_scheme" where
  "bt_mesh_hb_resume s =
     (if hp_period (hb_pub s) \<noteq> 0 \<and> hp_count (hb_pub s) \<noteq> 0 then s\<lparr>hb_pub_timer := Some 0\<rparr> else s)"

end
