(* ===== verification/Cfg.thy ===== *)
theory Cfg
  imports Heartbeat
begin

text \<open>
  The configuration state of subsys/bluetooth/mesh/cfg.c: the setters of the features, of the default TTL and of the
  transmission parameters, and the values at start-up. The getters are in Net, where they are used.

  \<open>cfg_env\<close> adds to the environment of the heartbeats what friend.c, proxy.c and main.c do for the configuration server:
  ending the friendships, the milliseconds until a low power node has to poll, waiting for the proxy, resetting the
  node, and the reset handlers of the models. Settings are compiled in.
\<close>

record 's cfg_env =
  ce_hb :: "'s hb_env"
  ce_friends_clear :: "'s \<Rightarrow> 's"
  ce_lpn_timeout :: "u16 \<Rightarrow> 's \<Rightarrow> nat option"
  ce_proxy_on_idle :: "'s \<Rightarrow> 's"
  ce_mesh_reset :: "'s \<Rightarrow> 's"
  ce_mod_reset :: "nat \<Rightarrow> 's \<Rightarrow> 's"

abbreviation ce_trans :: "'s cfg_env \<Rightarrow> 's trans_env" where "ce_trans env \<equiv> ae_trans (he_acc (ce_hb env))"
abbreviation ce_net :: "'s cfg_env \<Rightarrow> 's net_env" where "ce_net env \<equiv> te_net (ce_trans env)"
abbreviation ce_tc :: "'s cfg_env \<Rightarrow> tinycrypt" where "ce_tc env \<equiv> ne_tc (ce_net env)"

definition CONFIG_BT_MESH_DEFAULT_TTL :: u8 where "CONFIG_BT_MESH_DEFAULT_TTL = 7"

definition cfg_store :: "'a mesh_sched_scheme \<Rightarrow> 'a mesh_sched_scheme" where
  "cfg_store s = (if flags s BT_MESH_VALID then bt_mesh_store_cfg s else s)"

definition bt_mesh_beacon_set :: "tinycrypt \<Rightarrow> bool \<Rightarrow> 'a net_state_scheme \<Rightarrow> 'a net_state_scheme" where
  "bt_mesh_beacon_set tc beacon s =
     (if flags s BT_MESH_BEACON = beacon then s
      else
        let s = set_flag_to BT_MESH_BEACON beacon s;
            s = (if beacon then bt_mesh_beacon_enable tc s else bt_mesh_beacon_disable s) in
        cfg_store s)"

definition feature_set :: "mesh_flag \<Rightarrow> u8 \<Rightarrow> 'a mesh_sched_scheme \<Rightarrow> errno option \<times> 'a mesh_sched_scheme" where
  "feature_set f state s =
     (if state \<noteq> BT_MESH_FEATURE_DISABLED \<and> state \<noteq> BT_MESH_FEATURE_ENABLED then (Some EINVAL, s)
      else if flags s f = (state = BT_MESH_FEATURE_ENABLED) then (Some EALREADY, s)
      else (None, set_flag_to f (state = BT_MESH_FEATURE_ENABLED) s))"

definition bt_mesh_gatt_proxy_set ::
    "'a hb_state_scheme cfg_env \<Rightarrow> u8 \<Rightarrow> 'a hb_state_scheme \<Rightarrow> (errno option \<times> 'a hb_state_scheme) option" where
  "bt_mesh_gatt_proxy_set env gatt_proxy s =
     (if \<not> ne_gatt_proxy (ce_net env) then Some (Some ENOTSUP, s)
      else case feature_set BT_MESH_GATT_PROXY gatt_proxy s of
        (Some err, s) \<Rightarrow> Some (Some err, s)
      | (None, s) \<Rightarrow>
          map_option (\<lambda>s. (None, cfg_store s)) (bt_mesh_hb_feature_changed (ce_hb env) BT_MESH_FEAT_PROXY s))"

definition bt_mesh_default_ttl_set :: "u8 \<Rightarrow> 'a bt_mesh_net_scheme \<Rightarrow> errno option \<times> 'a bt_mesh_net_scheme" where
  "bt_mesh_default_ttl_set default_ttl s =
     (if default_ttl = 1 \<or> default_ttl > BT_MESH_TTL_MAX then (Some EINVAL, s)
      else if default_ttl = bm_default_ttl s then (None, s)
      else (None, cfg_store (s\<lparr>bm_default_ttl := default_ttl\<rparr>)))"

definition bt_mesh_friend_set ::
    "'a hb_state_scheme cfg_env \<Rightarrow> u8 \<Rightarrow> 'a hb_state_scheme \<Rightarrow> (errno option \<times> 'a hb_state_scheme) option" where
  "bt_mesh_friend_set env friendship s =
     (if \<not> ne_friend (ce_net env) then Some (Some ENOTSUP, s)
      else case feature_set BT_MESH_FRIEND friendship s of
        (Some err, s) \<Rightarrow> Some (Some err, s)
      | (None, s) \<Rightarrow>
          map_option (\<lambda>s. let s = cfg_store s in
                          (None, if friendship = BT_MESH_FEATURE_DISABLED then ce_friends_clear env s else s))
            (bt_mesh_hb_feature_changed (ce_hb env) BT_MESH_FEAT_FRIEND s))"

definition bt_mesh_net_transmit_set :: "u8 \<Rightarrow> 'a bt_mesh_net_scheme \<Rightarrow> 'a bt_mesh_net_scheme" where
  "bt_mesh_net_transmit_set xmit s =
     (if bm_net_xmit s = xmit then s else cfg_store (s\<lparr>bm_net_xmit := xmit\<rparr>))"

definition bt_mesh_relay_set ::
    "'a hb_state_scheme cfg_env \<Rightarrow> u8 \<Rightarrow> u8 \<Rightarrow> 'a hb_state_scheme \<Rightarrow> (errno option \<times> 'a hb_state_scheme) option" where
  "bt_mesh_relay_set env relay xmit s =
     (case feature_set BT_MESH_RELAY relay s of (err, s) \<Rightarrow>
        if err = Some EINVAL then Some (err, s)
        else if err = Some EALREADY \<and> bm_relay_xmit s = xmit then Some (Some EALREADY, s)
        else
          map_option (\<lambda>s. (None, cfg_store s))
            (bt_mesh_hb_feature_changed (ce_hb env) BT_MESH_FEAT_RELAY (s\<lparr>bm_relay_xmit := xmit\<rparr>)))"

text \<open>The defaults of Kconfig: two retransmissions every 20 ms, and every feature that is compiled in enabled.\<close>

definition bt_mesh_cfg_init :: "'s net_env \<Rightarrow> 'a bt_mesh_net_scheme \<Rightarrow> 'a bt_mesh_net_scheme" where
  "bt_mesh_cfg_init env s =
     (let s = s\<lparr>bm_default_ttl := CONFIG_BT_MESH_DEFAULT_TTL, bm_net_xmit := BT_MESH_TRANSMIT 2 20,
                bm_relay_xmit := BT_MESH_TRANSMIT 2 20\<rparr>;
          s = set_flag BT_MESH_RELAY s;
          s = set_flag BT_MESH_BEACON s;
          s = (if ne_gatt_proxy env then set_flag BT_MESH_GATT_PROXY s else s) in
      if ne_friend env then set_flag BT_MESH_FRIEND s else s)"

end
