(* ===== verification/Foundation.thy ===== *)
theory Foundation
  imports Cfg
begin

text \<open>
  The constants and helpers of subsys/bluetooth/mesh/foundation.h that the configuration server uses: opcodes, the
  octets of the status codes, and the packing of key indices. A buffer on the stack starts with unspecified contents,
  here zeros; only what was written is read.
\<close>

section \<open>Opcodes and status codes\<close>

definition OP_APP_KEY_ADD :: u32 where "OP_APP_KEY_ADD = BT_MESH_MODEL_OP_1 0x00"
definition OP_APP_KEY_UPDATE :: u32 where "OP_APP_KEY_UPDATE = BT_MESH_MODEL_OP_1 0x01"
definition OP_DEV_COMP_DATA_STATUS :: u32 where "OP_DEV_COMP_DATA_STATUS = BT_MESH_MODEL_OP_1 0x02"
definition OP_MOD_PUB_SET :: u32 where "OP_MOD_PUB_SET = BT_MESH_MODEL_OP_1 0x03"
definition OP_HEARTBEAT_PUB_STATUS :: u32 where "OP_HEARTBEAT_PUB_STATUS = BT_MESH_MODEL_OP_1 0x06"
definition OP_APP_KEY_DEL :: u32 where "OP_APP_KEY_DEL = BT_MESH_MODEL_OP_2 0x80 0x00"
definition OP_APP_KEY_GET :: u32 where "OP_APP_KEY_GET = BT_MESH_MODEL_OP_2 0x80 0x01"
definition OP_APP_KEY_LIST :: u32 where "OP_APP_KEY_LIST = BT_MESH_MODEL_OP_2 0x80 0x02"
definition OP_APP_KEY_STATUS :: u32 where "OP_APP_KEY_STATUS = BT_MESH_MODEL_OP_2 0x80 0x03"
definition OP_DEV_COMP_DATA_GET :: u32 where "OP_DEV_COMP_DATA_GET = BT_MESH_MODEL_OP_2 0x80 0x08"
definition OP_BEACON_GET :: u32 where "OP_BEACON_GET = BT_MESH_MODEL_OP_2 0x80 0x09"
definition OP_BEACON_SET :: u32 where "OP_BEACON_SET = BT_MESH_MODEL_OP_2 0x80 0x0a"
definition OP_BEACON_STATUS :: u32 where "OP_BEACON_STATUS = BT_MESH_MODEL_OP_2 0x80 0x0b"
definition OP_DEFAULT_TTL_GET :: u32 where "OP_DEFAULT_TTL_GET = BT_MESH_MODEL_OP_2 0x80 0x0c"
definition OP_DEFAULT_TTL_SET :: u32 where "OP_DEFAULT_TTL_SET = BT_MESH_MODEL_OP_2 0x80 0x0d"
definition OP_DEFAULT_TTL_STATUS :: u32 where "OP_DEFAULT_TTL_STATUS = BT_MESH_MODEL_OP_2 0x80 0x0e"
definition OP_FRIEND_GET :: u32 where "OP_FRIEND_GET = BT_MESH_MODEL_OP_2 0x80 0x0f"
definition OP_FRIEND_SET :: u32 where "OP_FRIEND_SET = BT_MESH_MODEL_OP_2 0x80 0x10"
definition OP_FRIEND_STATUS :: u32 where "OP_FRIEND_STATUS = BT_MESH_MODEL_OP_2 0x80 0x11"
definition OP_GATT_PROXY_GET :: u32 where "OP_GATT_PROXY_GET = BT_MESH_MODEL_OP_2 0x80 0x12"
definition OP_GATT_PROXY_SET :: u32 where "OP_GATT_PROXY_SET = BT_MESH_MODEL_OP_2 0x80 0x13"
definition OP_GATT_PROXY_STATUS :: u32 where "OP_GATT_PROXY_STATUS = BT_MESH_MODEL_OP_2 0x80 0x14"
definition OP_KRP_GET :: u32 where "OP_KRP_GET = BT_MESH_MODEL_OP_2 0x80 0x15"
definition OP_KRP_SET :: u32 where "OP_KRP_SET = BT_MESH_MODEL_OP_2 0x80 0x16"
definition OP_KRP_STATUS :: u32 where "OP_KRP_STATUS = BT_MESH_MODEL_OP_2 0x80 0x17"
definition OP_MOD_PUB_GET :: u32 where "OP_MOD_PUB_GET = BT_MESH_MODEL_OP_2 0x80 0x18"
definition OP_MOD_PUB_STATUS :: u32 where "OP_MOD_PUB_STATUS = BT_MESH_MODEL_OP_2 0x80 0x19"
definition OP_MOD_PUB_VA_SET :: u32 where "OP_MOD_PUB_VA_SET = BT_MESH_MODEL_OP_2 0x80 0x1a"
definition OP_MOD_SUB_ADD :: u32 where "OP_MOD_SUB_ADD = BT_MESH_MODEL_OP_2 0x80 0x1b"
definition OP_MOD_SUB_DEL :: u32 where "OP_MOD_SUB_DEL = BT_MESH_MODEL_OP_2 0x80 0x1c"
definition OP_MOD_SUB_DEL_ALL :: u32 where "OP_MOD_SUB_DEL_ALL = BT_MESH_MODEL_OP_2 0x80 0x1d"
definition OP_MOD_SUB_OVERWRITE :: u32 where "OP_MOD_SUB_OVERWRITE = BT_MESH_MODEL_OP_2 0x80 0x1e"
definition OP_MOD_SUB_STATUS :: u32 where "OP_MOD_SUB_STATUS = BT_MESH_MODEL_OP_2 0x80 0x1f"
definition OP_MOD_SUB_VA_ADD :: u32 where "OP_MOD_SUB_VA_ADD = BT_MESH_MODEL_OP_2 0x80 0x20"
definition OP_MOD_SUB_VA_DEL :: u32 where "OP_MOD_SUB_VA_DEL = BT_MESH_MODEL_OP_2 0x80 0x21"
definition OP_MOD_SUB_VA_OVERWRITE :: u32 where "OP_MOD_SUB_VA_OVERWRITE = BT_MESH_MODEL_OP_2 0x80 0x22"
definition OP_NET_TRANSMIT_GET :: u32 where "OP_NET_TRANSMIT_GET = BT_MESH_MODEL_OP_2 0x80 0x23"
definition OP_NET_TRANSMIT_SET :: u32 where "OP_NET_TRANSMIT_SET = BT_MESH_MODEL_OP_2 0x80 0x24"
definition OP_NET_TRANSMIT_STATUS :: u32 where "OP_NET_TRANSMIT_STATUS = BT_MESH_MODEL_OP_2 0x80 0x25"
definition OP_RELAY_GET :: u32 where "OP_RELAY_GET = BT_MESH_MODEL_OP_2 0x80 0x26"
definition OP_RELAY_SET :: u32 where "OP_RELAY_SET = BT_MESH_MODEL_OP_2 0x80 0x27"
definition OP_RELAY_STATUS :: u32 where "OP_RELAY_STATUS = BT_MESH_MODEL_OP_2 0x80 0x28"
definition OP_MOD_SUB_GET :: u32 where "OP_MOD_SUB_GET = BT_MESH_MODEL_OP_2 0x80 0x29"
definition OP_MOD_SUB_LIST :: u32 where "OP_MOD_SUB_LIST = BT_MESH_MODEL_OP_2 0x80 0x2a"
definition OP_MOD_SUB_GET_VND :: u32 where "OP_MOD_SUB_GET_VND = BT_MESH_MODEL_OP_2 0x80 0x2b"
definition OP_MOD_SUB_LIST_VND :: u32 where "OP_MOD_SUB_LIST_VND = BT_MESH_MODEL_OP_2 0x80 0x2c"
definition OP_LPN_TIMEOUT_GET :: u32 where "OP_LPN_TIMEOUT_GET = BT_MESH_MODEL_OP_2 0x80 0x2d"
definition OP_LPN_TIMEOUT_STATUS :: u32 where "OP_LPN_TIMEOUT_STATUS = BT_MESH_MODEL_OP_2 0x80 0x2e"
definition OP_HEARTBEAT_PUB_GET :: u32 where "OP_HEARTBEAT_PUB_GET = BT_MESH_MODEL_OP_2 0x80 0x38"
definition OP_HEARTBEAT_PUB_SET :: u32 where "OP_HEARTBEAT_PUB_SET = BT_MESH_MODEL_OP_2 0x80 0x39"
definition OP_HEARTBEAT_SUB_GET :: u32 where "OP_HEARTBEAT_SUB_GET = BT_MESH_MODEL_OP_2 0x80 0x3a"
definition OP_HEARTBEAT_SUB_SET :: u32 where "OP_HEARTBEAT_SUB_SET = BT_MESH_MODEL_OP_2 0x80 0x3b"
definition OP_HEARTBEAT_SUB_STATUS :: u32 where "OP_HEARTBEAT_SUB_STATUS = BT_MESH_MODEL_OP_2 0x80 0x3c"
definition OP_MOD_APP_BIND :: u32 where "OP_MOD_APP_BIND = BT_MESH_MODEL_OP_2 0x80 0x3d"
definition OP_MOD_APP_STATUS :: u32 where "OP_MOD_APP_STATUS = BT_MESH_MODEL_OP_2 0x80 0x3e"
definition OP_MOD_APP_UNBIND :: u32 where "OP_MOD_APP_UNBIND = BT_MESH_MODEL_OP_2 0x80 0x3f"
definition OP_NET_KEY_ADD :: u32 where "OP_NET_KEY_ADD = BT_MESH_MODEL_OP_2 0x80 0x40"
definition OP_NET_KEY_DEL :: u32 where "OP_NET_KEY_DEL = BT_MESH_MODEL_OP_2 0x80 0x41"
definition OP_NET_KEY_GET :: u32 where "OP_NET_KEY_GET = BT_MESH_MODEL_OP_2 0x80 0x42"
definition OP_NET_KEY_LIST :: u32 where "OP_NET_KEY_LIST = BT_MESH_MODEL_OP_2 0x80 0x43"
definition OP_NET_KEY_STATUS :: u32 where "OP_NET_KEY_STATUS = BT_MESH_MODEL_OP_2 0x80 0x44"
definition OP_NET_KEY_UPDATE :: u32 where "OP_NET_KEY_UPDATE = BT_MESH_MODEL_OP_2 0x80 0x45"
definition OP_NODE_IDENTITY_GET :: u32 where "OP_NODE_IDENTITY_GET = BT_MESH_MODEL_OP_2 0x80 0x46"
definition OP_NODE_IDENTITY_SET :: u32 where "OP_NODE_IDENTITY_SET = BT_MESH_MODEL_OP_2 0x80 0x47"
definition OP_NODE_IDENTITY_STATUS :: u32 where "OP_NODE_IDENTITY_STATUS = BT_MESH_MODEL_OP_2 0x80 0x48"
definition OP_NODE_RESET :: u32 where "OP_NODE_RESET = BT_MESH_MODEL_OP_2 0x80 0x49"
definition OP_NODE_RESET_STATUS :: u32 where "OP_NODE_RESET_STATUS = BT_MESH_MODEL_OP_2 0x80 0x4a"
definition OP_SIG_MOD_APP_GET :: u32 where "OP_SIG_MOD_APP_GET = BT_MESH_MODEL_OP_2 0x80 0x4b"
definition OP_SIG_MOD_APP_LIST :: u32 where "OP_SIG_MOD_APP_LIST = BT_MESH_MODEL_OP_2 0x80 0x4c"
definition OP_VND_MOD_APP_GET :: u32 where "OP_VND_MOD_APP_GET = BT_MESH_MODEL_OP_2 0x80 0x4d"
definition OP_VND_MOD_APP_LIST :: u32 where "OP_VND_MOD_APP_LIST = BT_MESH_MODEL_OP_2 0x80 0x4e"

definition status_code :: "mesh_status \<Rightarrow> u8" where
  "status_code st = (case st of
     STATUS_SUCCESS \<Rightarrow> 0x00 | STATUS_INVALID_ADDRESS \<Rightarrow> 0x01 | STATUS_INVALID_MODEL \<Rightarrow> 0x02 | STATUS_INVALID_APPKEY \<Rightarrow> 0x03
   | STATUS_INVALID_NETKEY \<Rightarrow> 0x04 | STATUS_INSUFF_RESOURCES \<Rightarrow> 0x05 | STATUS_IDX_ALREADY_STORED \<Rightarrow> 0x06
   | STATUS_NVAL_PUB_PARAM \<Rightarrow> 0x07 | STATUS_NOT_SUB_MOD \<Rightarrow> 0x08 | STATUS_STORAGE_FAIL \<Rightarrow> 0x09 | STATUS_FEAT_NOT_SUPP \<Rightarrow> 0x0a
   | STATUS_CANNOT_UPDATE \<Rightarrow> 0x0b | STATUS_CANNOT_REMOVE \<Rightarrow> 0x0c | STATUS_CANNOT_BIND \<Rightarrow> 0x0d
   | STATUS_TEMP_STATE_CHG_FAIL \<Rightarrow> 0x0e | STATUS_CANNOT_SET \<Rightarrow> 0x0f | STATUS_UNSPECIFIED \<Rightarrow> 0x10
   | STATUS_INVALID_BINDING \<Rightarrow> 0x11)"

section \<open>Key indices\<close>

definition key_idx_pack :: "u16 \<Rightarrow> u16 \<Rightarrow> bytes" where
  "key_idx_pack idx1 idx2 = sys_put_le16 (idx1 OR push_bit 12 (idx2 AND 0x00f)) @ [ucast (drop_bit 4 idx2)]"

definition key_idx_unpack :: "net_buf_simple \<Rightarrow> (u16 \<times> u16 \<times> net_buf_simple) option" where
  "key_idx_unpack buf =
     map_option (\<lambda>b. (sys_get_le16 (nb_data buf) AND 0xfff, drop_bit 4 (sys_get_le16 (drop 1 (nb_data buf))), b))
       (net_buf_simple_pull buf 3)"

text \<open>The loop that packs a list of indices: two in three octets, the last of an odd number in two.\<close>

fun key_idxs_pack :: "u16 list \<Rightarrow> bytes" where
  "key_idxs_pack [] = []"
| "key_idxs_pack [i] = sys_put_le16 i"
| "key_idxs_pack (i # j # is) = key_idx_pack i j @ key_idxs_pack is"

definition IDX_LEN :: "nat \<Rightarrow> nat" where "IDX_LEN num = (num div 2) * 3 + (num mod 2) * 2"

section \<open>Messages\<close>

definition BT_MESH_MIC_SHORT :: nat where "BT_MESH_MIC_SHORT = 4"

definition BT_MESH_MODEL_BUF_LEN :: "u32 \<Rightarrow> nat \<Rightarrow> nat" where
  "BT_MESH_MODEL_BUF_LEN op payload_len = BT_MESH_MODEL_OP_LEN op + payload_len + BT_MESH_MIC_SHORT"

text \<open>
  \<^verbatim>\<open>BT_MESH_MODEL_BUF_DEFINE\<close>, \<^verbatim>\<open>bt_mesh_model_msg_init\<close> and the calls that add the octets \<open>params\<close>: \<open>None\<close> when there is no
  room for them.
\<close>

definition model_msg :: "nat \<Rightarrow> u32 \<Rightarrow> bytes \<Rightarrow> net_buf_simple option" where
  "model_msg buf_len op params =
     Option.bind (bt_mesh_model_msg_init (NET_BUF_SIMPLE_DEFINE (replicate buf_len 0)) op)
       (\<lambda>msg. net_buf_simple_add_mem msg params)"

end
