(* ===== verification/Cfg_Models.thy ===== *)
theory Cfg_Models
  imports Foundation
begin

text \<open>
  What the configuration server of subsys/bluetooth/mesh/cfg_srv.c does to models: publication, bindings of application
  keys, subscription lists, and the handler that unbinds a deleted key. This handler meets the contract of app_keys.c,
  so that the invariant of the keys holds for the node as it is put together.

  A \<^verbatim>\<open>struct bt_mesh_model *\<close> is an index into \<open>models\<close>. \<^verbatim>\<open>CONFIG_BT_MESH_LABEL_COUNT\<close> is the length of \<open>virtual_addrs\<close>.
\<close>

section \<open>Scheduling the storage of a model\<close>

definition bt_mesh_store_mod_bind :: "nat \<Rightarrow> 'a access_state_scheme \<Rightarrow> 'a access_state_scheme" where
  "bt_mesh_store_mod_bind m s = schedule_store BT_MESH_MOD_PENDING (upd_mod m (\<lambda>md. md\<lparr>mo_bind_pending := True\<rparr>) s)"

definition bt_mesh_store_mod_sub :: "nat \<Rightarrow> 'a access_state_scheme \<Rightarrow> 'a access_state_scheme" where
  "bt_mesh_store_mod_sub m s = schedule_store BT_MESH_MOD_PENDING (upd_mod m (\<lambda>md. md\<lparr>mo_sub_pending := True\<rparr>) s)"

definition bt_mesh_store_mod_pub :: "nat \<Rightarrow> 'a access_state_scheme \<Rightarrow> 'a access_state_scheme" where
  "bt_mesh_store_mod_pub m s = schedule_store BT_MESH_MOD_PENDING (upd_mod m (\<lambda>md. md\<lparr>mo_pub_pending := True\<rparr>) s)"

section \<open>Publication\<close>

text \<open>\<^verbatim>\<open>_mod_pub_set\<close>\<close>

definition mod_pub_clear :: "bt_mesh_model_pub \<Rightarrow> bt_mesh_model_pub" where
  "mod_pub_clear pub =
     pub\<lparr>pub_addr := BT_MESH_ADDR_UNASSIGNED, pub_key := 0, pub_cred := False, pub_ttl := 0, pub_period := 0,
         pub_retransmit := 0, pub_count := 0, pub_timer := (if pub_update pub then None else pub_timer pub)\<rparr>"

definition mod_pub_va_release :: "u16 \<Rightarrow> 'a trans_state_scheme \<Rightarrow> 'a trans_state_scheme" where
  "mod_pub_va_release addr s =
     (if length (virtual_addrs s) > 0 \<and> BT_MESH_ADDR_IS_VIRTUAL addr then
        (case bt_mesh_va_label_get addr s of None \<Rightarrow> s | Some uuid \<Rightarrow> snd (bt_mesh_va_del uuid s))
      else s)"

definition mod_pub_set_params ::
    "nat \<Rightarrow> u16 \<Rightarrow> u16 \<Rightarrow> u8 \<Rightarrow> u8 \<Rightarrow> u8 \<Rightarrow> u8 \<Rightarrow> bool \<Rightarrow> 'a access_state_scheme \<Rightarrow> mesh_status \<times> 'a access_state_scheme" where
  "mod_pub_set_params m addr app_idx cred_flag ttl period retransmit store s =
     (case mo_pub (models s ! m) of
        None \<Rightarrow> (STATUS_NVAL_PUB_PARAM, s)
      | Some pub \<Rightarrow>
          if cred_flag \<noteq> 0 then (STATUS_FEAT_NOT_SUPP, s)
          else if \<not> pub_update pub \<and> period \<noteq> 0 then (STATUS_NVAL_PUB_PARAM, s)
          else if addr = BT_MESH_ADDR_UNASSIGNED then
            (STATUS_SUCCESS,
             if pub_addr pub = BT_MESH_ADDR_UNASSIGNED then s
             else let s = upd_pub m mod_pub_clear s in if store then bt_mesh_store_mod_pub m s else s)
          else if \<not> bt_mesh_app_key_exists app_idx s then (STATUS_INVALID_APPKEY, s)
          else
            let s = mod_pub_va_release (pub_addr pub) s;
                s = upd_pub m (\<lambda>pub. pub\<lparr>pub_addr := addr, pub_key := app_idx, pub_cred := cred_flag \<noteq> 0, pub_ttl := ttl,
                                pub_period := period, pub_retransmit := retransmit\<rparr>) s;
                period_ms = bt_mesh_model_pub_period_get (models s ! m);
                s = (if pub_update pub
                     then upd_pub m (pub_timer_update (\<lambda>_. if period_ms > 0 then Some period_ms else None)) s else s) in
            (STATUS_SUCCESS, if store then bt_mesh_store_mod_pub m s else s))"

section \<open>Bindings\<close>

definition mod_bind :: "nat \<Rightarrow> u16 \<Rightarrow> 'a access_state_scheme \<Rightarrow> mesh_status \<times> 'a access_state_scheme" where
  "mod_bind m key_idx s =
     (if \<not> bt_mesh_app_key_exists key_idx s then (STATUS_INVALID_APPKEY, s)
      else if key_idx \<in> set (mo_keys (models s ! m)) then (STATUS_SUCCESS, s)
      else case find_idx (\<lambda>k. k = BT_MESH_KEY_UNUSED) (mo_keys (models s ! m)) of
        None \<Rightarrow> (STATUS_INSUFF_RESOURCES, s)
      | Some i \<Rightarrow>
          (STATUS_SUCCESS, bt_mesh_store_mod_bind m (upd_mod m (\<lambda>md. md\<lparr>mo_keys := (mo_keys md)[i := key_idx]\<rparr>) s)))"

text \<open>One round of the loop of \<^verbatim>\<open>mod_unbind\<close>.\<close>

definition mod_unbind_key :: "nat \<Rightarrow> u16 \<Rightarrow> bool \<Rightarrow> nat \<Rightarrow> 'a access_state_scheme \<Rightarrow> 'a access_state_scheme" where
  "mod_unbind_key m key_idx store i s =
     (if mo_keys (models s ! m) ! i \<noteq> key_idx then s
      else
        let s = upd_mod m (\<lambda>md. md\<lparr>mo_keys := (mo_keys md)[i := BT_MESH_KEY_UNUSED]\<rparr>) s;
            s = (if store then bt_mesh_store_mod_bind m s else s) in
        case mo_pub (models s ! m) of
          None \<Rightarrow> s
        | Some pub \<Rightarrow> if pub_key pub = key_idx then snd (mod_pub_set_params m BT_MESH_ADDR_UNASSIGNED 0 0 0 0 0 store s) else s)"

definition mod_unbind :: "nat \<Rightarrow> u16 \<Rightarrow> bool \<Rightarrow> 'a access_state_scheme \<Rightarrow> mesh_status \<times> 'a access_state_scheme" where
  "mod_unbind m key_idx store s =
     (if \<not> bt_mesh_app_key_exists key_idx s then (STATUS_INVALID_APPKEY, s)
      else (STATUS_SUCCESS, fold (mod_unbind_key m key_idx store) [0..<length (mo_keys (models s ! m))] s))"

definition mod_app_key_del :: "u16 \<Rightarrow> nat \<Rightarrow> nat \<Rightarrow> bool \<Rightarrow> bool \<Rightarrow> 'a access_state_scheme \<Rightarrow> 'a access_state_scheme" where
  "mod_app_key_del app_idx m elem vnd primary s = snd (mod_unbind m app_idx True s)"

text \<open>\<^verbatim>\<open>app_key_evt\<close> of cfg_srv.c, the only handler of application key events.\<close>

definition app_key_evt_srv :: "u16 \<Rightarrow> u16 \<Rightarrow> bt_mesh_key_evt \<Rightarrow> 'a access_state_scheme \<Rightarrow> 'a access_state_scheme" where
  "app_key_evt_srv app_idx net_idx evt s =
     (if evt = BT_MESH_KEY_DELETED then bt_mesh_model_foreach (mod_app_key_del app_idx) s else s)"

section \<open>Subscriptions\<close>

definition mod_sub_clear_group :: "nat \<Rightarrow> nat \<Rightarrow> nat \<times> 'a access_state_scheme \<Rightarrow> nat \<times> 'a access_state_scheme" where
  "mod_sub_clear_group m i ns =
     (case ns of (clear_count, s) \<Rightarrow>
        let g = mo_groups (models s ! m) ! i;
            clear = upd_mod m (\<lambda>md. md\<lparr>mo_groups := (mo_groups md)[i := BT_MESH_ADDR_UNASSIGNED]\<rparr>) in
        if \<not> BT_MESH_ADDR_IS_VIRTUAL g then
          (if g \<noteq> BT_MESH_ADDR_UNASSIGNED then (clear_count + 1, clear s) else (clear_count, s))
        else
          (clear_count + 1,
           case bt_mesh_va_label_get g s of None \<Rightarrow> clear s | Some label_uuid \<Rightarrow> snd (bt_mesh_va_del label_uuid (clear s))))"

definition mod_sub_list_clear :: "nat \<Rightarrow> 'a access_state_scheme \<Rightarrow> nat \<times> 'a access_state_scheme" where
  "mod_sub_list_clear m s = fold (mod_sub_clear_group m) [0..<length (mo_groups (models s ! m))] (0, s)"

definition mod_sub_clear_visitor :: "nat \<Rightarrow> int \<Rightarrow> 'a access_state_scheme \<Rightarrow> bt_mesh_walk \<times> 'a access_state_scheme" where
  "mod_sub_clear_visitor m depth s = (BT_MESH_WALK_CONTINUE, snd (mod_sub_list_clear m s))"

text \<open>The walk over the whole tree of a model that three handlers share.\<close>

definition mod_sub_clear_tree :: "nat \<Rightarrow> 'a access_state_scheme \<Rightarrow> 'a access_state_scheme option" where
  "mod_sub_clear_tree m s =
     do { root \<leftarrow> bt_mesh_model_root m s; bt_mesh_model_tree_walk (\<lambda>s k. models s ! k) root mod_sub_clear_visitor s }"

definition upd_group :: "nat \<Rightarrow> nat \<Rightarrow> u16 \<Rightarrow> 'a access_state_scheme \<Rightarrow> 'a access_state_scheme" where
  "upd_group m g addr s = upd_mod m (\<lambda>md. md\<lparr>mo_groups := (mo_groups md)[g := addr]\<rparr>) s"

section \<open>The handler meets the contract of app_keys.c\<close>

definition keys_part :: "'a mesh_state_scheme \<Rightarrow> bt_mesh_subnet list \<times> bt_mesh_app_key list \<times> key_update list \<times> settings_store" where
  "keys_part s = (subnets s, apps s, key_updates s, flash s)"

lemma keys_part_eq:
  "keys_part s' = keys_part s \<longleftrightarrow>
     subnets s' = subnets s \<and> apps s' = apps s \<and> key_updates s' = key_updates s \<and> flash s' = flash s"
  by (auto simp: keys_part_def)

lemma keys_part_store [simp]: "keys_part (schedule_store f s) = keys_part s"
  by (simp add: keys_part_def schedule_store_def set_flag_def Let_def)

lemma keys_part_upd [simp]:
  "keys_part (upd_mod m f s) = keys_part s" "keys_part (upd_pub m p s) = keys_part s"
  "keys_part (bt_mesh_store_mod_bind m s) = keys_part s" "keys_part (bt_mesh_store_mod_sub m s) = keys_part s"
  "keys_part (bt_mesh_store_mod_pub m s) = keys_part s"
proof -
  show u: "keys_part (upd_mod m f s) = keys_part s" for f by (simp add: keys_part_def upd_mod_def)
  show "keys_part (upd_pub m p s) = keys_part s" by (simp add: upd_pub_def u)
  show "keys_part (bt_mesh_store_mod_bind m s) = keys_part s" "keys_part (bt_mesh_store_mod_sub m s) = keys_part s"
    "keys_part (bt_mesh_store_mod_pub m s) = keys_part s"
    by (simp_all add: bt_mesh_store_mod_bind_def bt_mesh_store_mod_sub_def bt_mesh_store_mod_pub_def u)
qed

lemma keys_part_va_store [simp]: "keys_part (va_store i s) = keys_part s"
  by (simp add: va_store_def bt_mesh_store_label_def) (simp add: keys_part_def)

lemma keys_part_va [simp]:
  "keys_part (snd (bt_mesh_va_del uuid s)) = keys_part s" "keys_part (mod_pub_va_release addr s) = keys_part s"
proof -
  have v: "keys_part (s\<lparr>virtual_addrs := va\<rparr>) = keys_part s" for va by (simp add: keys_part_def)
  show d: "keys_part (snd (bt_mesh_va_del uuid s)) = keys_part s" for uuid
    by (simp add: bt_mesh_va_del_def Let_def v split: option.split)
  show "keys_part (mod_pub_va_release addr s) = keys_part s"
    by (simp add: mod_pub_va_release_def d split: option.split)
qed

lemma keys_part_pub_set [simp]: "keys_part (snd (mod_pub_set_params m a k c t p r st s)) = keys_part s"
  by (simp add: mod_pub_set_params_def Let_def split: option.split)

lemma keys_part_unbind [simp]: "keys_part (snd (mod_unbind m k st s)) = keys_part s"
proof -
  have key: "keys_part (mod_unbind_key m k st i s) = keys_part s" for i and s :: "'a access_state_scheme"
    by (simp add: mod_unbind_key_def Let_def split: option.split)
  have "keys_part (fold (mod_unbind_key m k st) l s) = keys_part s" for l
    by (induction l arbitrary: s) (simp_all add: key)
  then show ?thesis by (simp add: mod_unbind_def)
qed

lemma keys_part_foreach:
  assumes "\<And>m i vnd pr s. keys_part (f m i vnd pr s) = keys_part s"
  shows "keys_part (bt_mesh_model_foreach f s) = keys_part s"
proof -
  have "keys_part (fold (\<lambda>(i, vnd, m). f m i vnd (i = 0)) l s) = keys_part s" for l
    by (induction l arbitrary: s) (auto simp: assms)
  then show ?thesis by (simp add: bt_mesh_model_foreach_def)
qed

interpretation srv: app_handlers "[app_key_evt_srv]"
proof (unfold_locales, goal_cases)
  case (1 cb a n evt s)
  then have "keys_part (cb a n evt s) = keys_part s"
    by (simp add: app_key_evt_srv_def keys_part_foreach mod_app_key_del_def)
  then show ?case by (simp add: keys_part_eq)
qed

end
