(* ===== verification/Cfg_Keys.thy ===== *)
theory Cfg_Keys
  imports Cfg_Models Access_Tree
begin

text \<open>
  The keys of a node under every sequence of operations that the configuration server and the key refresh procedure run
  on them: the invariant of subnets and application keys, the agreement of flash and memory, and the bindings of the
  models.
\<close>

section \<open>Operations\<close>

text \<open>\<open>Op_kr_seen\<close> is \<^verbatim>\<open>bt_mesh_kr_update\<close>, which its callers call with the slot of a subnet they have just found.\<close>

datatype key_op =
    Op_app_add u16 u16 bytes | Op_app_update u16 u16 bytes | Op_app_del u16 u16
  | Op_net_add u16 bytes | Op_net_update u16 bytes | Op_net_del u16 | Op_krp_set u16 u8 | Op_kr_seen nat bool bool
  | Op_bind nat u16 | Op_unbind nat u16 | Op_pub nat u16 u16 u8 u8 u8 u8

definition srv_cbs :: "tinycrypt \<Rightarrow> (nat \<Rightarrow> bt_mesh_key_evt \<Rightarrow> 'a access_state_scheme \<Rightarrow> 'a access_state_scheme) list" where
  "srv_cbs tc = subnet_cbs tc [app_key_evt_srv]"

primrec key_op_exec :: "tinycrypt \<Rightarrow> key_op \<Rightarrow> 'a access_state_scheme \<Rightarrow> 'a access_state_scheme" where
  "key_op_exec tc (Op_app_add app_idx net_idx key) s = snd (bt_mesh_app_key_add tc [app_key_evt_srv] app_idx net_idx key s)"
| "key_op_exec tc (Op_app_update app_idx net_idx key) s = snd (bt_mesh_app_key_update tc [app_key_evt_srv] app_idx net_idx key s)"
| "key_op_exec tc (Op_app_del app_idx net_idx) s = snd (bt_mesh_app_key_del [app_key_evt_srv] app_idx net_idx s)"
| "key_op_exec tc (Op_net_add net_idx key) s = snd (bt_mesh_subnet_add tc (srv_cbs tc) net_idx key s)"
| "key_op_exec tc (Op_net_update net_idx key) s = snd (bt_mesh_subnet_update tc (srv_cbs tc) net_idx key s)"
| "key_op_exec tc (Op_net_del net_idx) s = snd (bt_mesh_subnet_del (srv_cbs tc) net_idx s)"
| "key_op_exec tc (Op_krp_set net_idx phase) s = snd (snd (bt_mesh_subnet_kr_phase_set (srv_cbs tc) net_idx phase s))"
| "key_op_exec tc (Op_kr_seen i kr_flag new_key) s =
     (if i < length (subnets s) \<and> sub_net_idx (subnets s ! i) \<noteq> BT_MESH_KEY_UNUSED
      then bt_mesh_kr_update (srv_cbs tc) i kr_flag new_key s else s)"
| "key_op_exec tc (Op_bind m key_idx) s = snd (mod_bind m key_idx s)"
| "key_op_exec tc (Op_unbind m key_idx) s = snd (mod_unbind m key_idx True s)"
| "key_op_exec tc (Op_pub m addr app_idx cred ttl period retransmit) s =
     snd (mod_pub_set_params m addr app_idx cred ttl period retransmit True s)"

text \<open>
  The indices in a message have 12 bits: \<^verbatim>\<open>key_idx_unpack\<close> masks them, and the handlers refuse a larger network index.
\<close>

definition key_op_ok :: "key_op \<Rightarrow> bool" where
  "key_op_ok op = (case op of
     Op_app_add a n _ \<Rightarrow> a < 2 ^ 12 \<and> n < 2 ^ 12 | Op_app_update a n _ \<Rightarrow> a < 2 ^ 12 \<and> n < 2 ^ 12
   | Op_app_del a n \<Rightarrow> a < 2 ^ 12 \<and> n < 2 ^ 12 | Op_net_add n _ \<Rightarrow> n < 2 ^ 12 | Op_net_update n _ \<Rightarrow> n < 2 ^ 12
   | Op_net_del n \<Rightarrow> n < 2 ^ 12 | Op_krp_set n _ \<Rightarrow> n < 2 ^ 12 | _ \<Rightarrow> True)"

section \<open>The invariant of the bindings\<close>

text \<open>Every model is part of the composition, and a model is bound only to keys that the node has.\<close>

definition comp_covers :: "'a access_state_scheme \<Rightarrow> bool" where
  "comp_covers s \<longleftrightarrow> set [0..<length (models s)] \<subseteq> (snd \<circ> snd) ` set (comp_models (elems s))"

definition bindings_ok :: "'a access_state_scheme \<Rightarrow> bool" where
  "bindings_ok s \<longleftrightarrow> (\<forall>md \<in> set (models s). \<forall>k \<in> set (mo_keys md). k < 2 ^ 12 \<longrightarrow> bt_mesh_app_key_exists k s)"

definition binds_inv :: "'a access_state_scheme \<Rightarrow> bool" where
  "binds_inv s \<longleftrightarrow> comp_covers s \<and> bindings_ok s"

text \<open>What of the access layer the bindings depend on.\<close>

definition bind_part :: "'a access_state_scheme \<Rightarrow> bt_mesh_comp \<times> u16 list list" where
  "bind_part s = (dev_comp s, map mo_keys (models s))"

lemma exists_idxs: "bt_mesh_app_key_exists k s \<longleftrightarrow> k \<in> set (map app_app_idx (apps s))"
  by (auto simp: bt_mesh_app_key_exists_def)

lemma binds_inv_part:
  "binds_inv s \<longleftrightarrow> set [0..<length (snd (bind_part s))] \<subseteq> (snd \<circ> snd) ` set (comp_models (cp_elem (fst (bind_part s)))) \<and>
     (\<forall>ks \<in> set (snd (bind_part s)). \<forall>k \<in> set ks. k < 2 ^ 12 \<longrightarrow> k \<in> set (map app_app_idx (apps s)))"
  by (simp add: binds_inv_def comp_covers_def bindings_ok_def bind_part_def exists_idxs)

lemma binds_keep:
  assumes "binds_inv s" "bind_part s' = bind_part s" "set (map app_app_idx (apps s)) \<subseteq> set (map app_app_idx (apps s'))"
  shows "binds_inv s'"
  using assms(1,3) unfolding binds_inv_part assms(2) by (meson subsetD)

lemma bind_part_store [simp]: "bind_part (schedule_store f s) = bind_part s"
  by (simp add: bind_part_def schedule_store_def set_flag_def Let_def)

lemma bind_part_keys [simp]:
  "bind_part (upd_sub i f s) = bind_part s" "bind_part (upd_app i g s) = bind_part s"
  "bind_part (s\<lparr>key_updates := us\<rparr>) = bind_part s" "bind_part (s\<lparr>flash := fl\<rparr>) = bind_part s"
  "bind_part (s\<lparr>virtual_addrs := vas\<rparr>) = bind_part s" "bind_part (bt_mesh_net_loopback_clear n s) = bind_part s"
  by (simp_all add: bind_part_def upd_sub_def upd_app_def bt_mesh_net_loopback_clear_def)

lemma bind_part_request [simp]: "bind_part (key_request k c s) = bind_part s"
proof -
  obtain app idx where k: "k = (app, idx)" by (cases k)
  have "bind_part (bt_mesh_store_subnet idx s) = bind_part s" "bind_part (bt_mesh_store_app_key idx s) = bind_part s"
    by (simp_all add: bt_mesh_store_subnet_def bt_mesh_store_app_key_def store_subnet_def store_app_def
        settings_save_one_def Let_def split: option.split)
  moreover have "bind_part (bt_mesh_clear_subnet idx s) = bind_part s" "bind_part (bt_mesh_clear_app_key idx s) = bind_part s"
    by (simp_all add: bt_mesh_clear_subnet_def bt_mesh_clear_app_key_def clear_net_key_def clear_app_key_def
        settings_delete_def split: option.split)
  ultimately show ?thesis by (cases app; cases c) (simp_all add: k key_requests)
qed

lemma bind_part_beacon [simp]: "bind_part (bt_mesh_beacon_update tc i s) = bind_part s"
  by (simp add: bt_mesh_beacon_update_def Let_def split: sum.split)

section \<open>Unbinding\<close>

definition drop_key :: "u16 \<Rightarrow> u16 \<Rightarrow> u16" where
  "drop_key a k = (if k = a then BT_MESH_KEY_UNUSED else k)"

lemma upd_mod_beyond: "length (models s) \<le> m \<Longrightarrow> upd_mod m f s = s"
  by (simp add: upd_mod_def list_update_beyond)

lemma bind_part_mod:
  assumes "\<And>md. mo_keys (f md) = mo_keys md"
  shows "bind_part (upd_mod m f s) = bind_part s"
proof -
  have "map mo_keys ((models s)[m := f (models s ! m)]) = map mo_keys (models s)"
    by (cases "m < length (models s)") (simp_all add: map_update assms list_update_same_conv list_update_beyond)
  then show ?thesis by (simp add: bind_part_def upd_mod_def)
qed

lemma bind_part_pub [simp]: "bind_part (upd_pub m p s) = bind_part s"
  by (simp add: upd_pub_def bind_part_mod)

lemma bind_part_store_mod [simp]:
  "bind_part (bt_mesh_store_mod_bind m s) = bind_part s" "bind_part (bt_mesh_store_mod_pub m s) = bind_part s"
  by (simp_all add: bt_mesh_store_mod_bind_def bt_mesh_store_mod_pub_def bind_part_mod)

lemma bind_part_va [simp]: "bind_part (mod_pub_va_release addr s) = bind_part s"
  by (simp add: mod_pub_va_release_def bt_mesh_va_del_def va_store_def bt_mesh_store_label_def Let_def split: option.split)

lemma bind_part_pub_set [simp]: "bind_part (snd (mod_pub_set_params m a k c t p r st s)) = bind_part s"
  by (simp add: mod_pub_set_params_def Let_def split: option.split)

lemma unbind_key_part:
  assumes "bind_part s = (c, kss)" "m < length kss" "i < length (kss ! m)"
  shows "bind_part (mod_unbind_key m a st i s) = (c, kss[m := (kss ! m)[i := drop_key a (kss ! m ! i)]])"
proof -
  have ks: "kss = map mo_keys (models s)" "c = dev_comp s" and m: "m < length (models s)"
    using assms by (auto simp: bind_part_def)
  have k: "mo_keys (models s ! m) = kss ! m" using m by (simp add: ks)
  define u where "u = upd_mod m (\<lambda>md. md\<lparr>mo_keys := (mo_keys md)[i := BT_MESH_KEY_UNUSED]\<rparr>) s"
  have u: "bind_part u = (c, kss[m := (kss ! m)[i := BT_MESH_KEY_UNUSED]])"
    using m by (simp add: u_def bind_part_def upd_mod_def map_update ks)
  show ?thesis
  proof (cases "kss ! m ! i = a")
    case False
    then show ?thesis using assms(1) by (simp add: mod_unbind_key_def k drop_key_def)
  next
    case True
    then have "bind_part (mod_unbind_key m a st i s) = bind_part u"
      by (simp add: mod_unbind_key_def k u_def [symmetric] Let_def split: option.split)
    then show ?thesis by (simp add: u True drop_key_def)
  qed
qed

lemma unbind_loop_part:
  assumes "bind_part s = (c, kss)" "m < length kss" "n \<le> length (kss ! m)"
  shows "bind_part (fold (mod_unbind_key m a st) [0..<n] s) = (c, kss[m := map (drop_key a) (take n (kss ! m)) @ drop n (kss ! m)])"
  using assms(3)
proof (induction n)
  case 0
  show ?case using assms(1) by simp
next
  case (Suc n)
  define ks where "ks = kss ! m"
  let ?k = "map (drop_key a) (take n ks) @ drop n ks"
  have n: "n < length ks" using Suc.prems by (simp add: ks_def)
  have "bind_part (fold (mod_unbind_key m a st) [0..<n] s) = (c, kss[m := ?k])" using Suc by (simp add: ks_def)
  from unbind_key_part [OF this, of m n a st]
  have "bind_part (mod_unbind_key m a st n (fold (mod_unbind_key m a st) [0..<n] s)) = (c, kss[m := ?k[n := drop_key a (?k ! n)]])"
    using assms(2) n by simp
  moreover have "?k[n := drop_key a (?k ! n)] = map (drop_key a) (take (Suc n) ks) @ drop (Suc n) ks"
    using n by (simp add: nth_append list_update_append take_Suc_conv_app_nth min_def Cons_nth_drop_Suc [symmetric])
  ultimately show ?case by (simp add: ks_def)
qed

lemma unbind_part:
  assumes "bind_part s = (c, kss)" "bt_mesh_app_key_exists a s"
  shows "bind_part (snd (mod_unbind m a st s)) = (c, kss[m := map (drop_key a) (kss ! m)])"
proof (cases "m < length kss")
  case True
  then have "mo_keys (models s ! m) = kss ! m" using assms(1) by (auto simp: bind_part_def)
  then show ?thesis
    using unbind_loop_part [OF assms(1) True, of "length (kss ! m)" a st] assms(2) by (simp add: mod_unbind_def)
next
  case False
  have out: "upd_mod m f s' = s'" if "bind_part s' = bind_part s" for f and s' :: "'a access_state_scheme"
  proof (rule upd_mod_beyond)
    show "length (models s') \<le> m"
      using False that assms(1) map_eq_imp_length_eq [of mo_keys "models s'" mo_keys "models s"] by (auto simp: bind_part_def)
  qed
  have "bind_part (mod_unbind_key m a st i s') = bind_part s'" if "bind_part s' = bind_part s" for i and s' :: "'a access_state_scheme"
    using that by (simp add: mod_unbind_key_def out [OF that] Let_def split: option.split)
  then have "bind_part (fold (mod_unbind_key m a st) l s') = bind_part s'" if "bind_part s' = bind_part s"
    for l and s' :: "'a access_state_scheme"
    using that by (induction l arbitrary: s') simp_all
  then show ?thesis using assms False by (simp add: mod_unbind_def list_update_beyond)
qed

lemma keys_partD:
  "keys_part s' = keys_part s \<Longrightarrow> apps s' = apps s" "keys_part s' = keys_part s \<Longrightarrow> subnets s' = subnets s"
  by (simp_all add: keys_part_eq)

lemma drop_keys_nth:
  assumes "j < length kss"
  shows "fold (\<lambda>m kss. kss[m := map (drop_key a) (kss ! m)]) ms kss ! j =
    (if j \<in> set ms then map (drop_key a) (kss ! j) else kss ! j)"
  using assms
proof (induction ms arbitrary: kss)
  case (Cons m ms)
  have "map (drop_key a) (map (drop_key a) ks) = map (drop_key a) ks" for ks by (simp add: drop_key_def)
  moreover from Cons.prems have "kss[m := map (drop_key a) (kss ! m)] ! j = (if j = m then map (drop_key a) (kss ! j) else kss ! j)"
    by (simp add: nth_list_update)
  ultimately show ?case using Cons by simp
qed simp

lemma drop_keys_length: "length (fold (\<lambda>m kss. kss[m := map (drop_key a) (kss ! m)]) ms kss) = length kss"
  by (induction ms arbitrary: kss) simp_all

lemma foreach_unbind_part:
  assumes "bind_part s = (c, kss)" "bt_mesh_app_key_exists a s"
  shows "bind_part (bt_mesh_model_foreach (mod_app_key_del a) s) =
    (c, fold (\<lambda>m kss. kss[m := map (drop_key a) (kss ! m)]) (map (snd \<circ> snd) (comp_models (cp_elem c))) kss)"
proof -
  have "bind_part (fold (\<lambda>(i, vnd, m). mod_app_key_del a m i vnd (i = 0)) l s) =
      (c, fold (\<lambda>m kss. kss[m := map (drop_key a) (kss ! m)]) (map (snd \<circ> snd) l) kss)" for l
    using assms
  proof (induction l arbitrary: s kss)
    case (Cons x l)
    obtain i vnd m where x: "x = (i, vnd, m)" by (cases x)
    have "bt_mesh_app_key_exists a (snd (mod_unbind m a True s))"
      using Cons.prems(2) by (simp add: exists_idxs keys_partD [OF keys_part_unbind])
    from Cons.IH [OF unbind_part [OF Cons.prems, of m True] this] show ?case by (simp add: x mod_app_key_del_def)
  qed simp
  moreover have "elems s = cp_elem c" using assms(1) by (auto simp: bind_part_def)
  ultimately show ?thesis by (simp add: bt_mesh_model_foreach_def)
qed

lemma idx_update_mem: "q < length xs \<Longrightarrow> f (xs[i := y] ! q) = a \<Longrightarrow> a \<in> set (map f (xs[i := y]))"
  by (metis length_list_update length_map nth_map nth_mem)

lemma drop_key_cases: "k \<in> set (map (drop_key a) ks) \<Longrightarrow> k < 2 ^ 12 \<Longrightarrow> k \<in> set ks \<and> k \<noteq> a"
  by (auto simp: drop_key_def mesh_key_defs split: if_splits)

lemma app_key_del_binds:
  assumes "binds_inv s" "i < length (apps s)"
  shows "binds_inv (app_key_del [app_key_evt_srv] i s)"
proof -
  define a where "a = app_app_idx (apps s ! i)"
  obtain c kss where p: "bind_part s = (c, kss)" by force
  define s1 where "s1 = key_request (True, a) True s"
  define s2 where "s2 = bt_mesh_model_foreach (mod_app_key_del a) s1"
  have s1: "bind_part s1 = (c, kss)" "apps s1 = apps s" by (simp_all add: s1_def p)
  have ex: "bt_mesh_app_key_exists a s1" using assms(2) by (auto simp: exists_idxs s1 a_def)
  have "keys_part s2 = keys_part s1" unfolding s2_def by (rule keys_part_foreach) (simp add: mod_app_key_del_def)
  then have ap: "apps s2 = apps s" by (simp add: keys_part_eq s1)
  have del: "app_key_del [app_key_evt_srv] i s = upd_app i (\<lambda>app. app\<lparr>app_net_idx := BT_MESH_KEY_UNUSED,
      app_app_idx := BT_MESH_KEY_UNUSED, app_creds := [zero_app_cred, zero_app_cred]\<rparr>) s2"
    using s1(2) by (simp add: app_key_del_def key_requests app_key_evt_def app_key_evt_srv_def a_def [symmetric]
        s1_def [symmetric] s2_def Let_def)
  define kss' where "kss' = fold (\<lambda>m kss. kss[m := map (drop_key a) (kss ! m)]) (map (snd \<circ> snd) (comp_models (cp_elem c))) kss"
  have p': "bind_part (app_key_del [app_key_evt_srv] i s) = (c, kss')"
    unfolding del bind_part_keys s2_def kss'_def by (rule foreach_unbind_part [OF s1(1) ex])
  have cov: "set [0..<length kss] \<subseteq> (snd \<circ> snd) ` set (comp_models (cp_elem c))"
    and b: "\<forall>ks \<in> set kss. \<forall>k \<in> set ks. k < 2 ^ 12 \<longrightarrow> k \<in> set (map app_app_idx (apps s))"
    using assms(1) by (simp_all add: binds_inv_part p)
  have "k \<in> set (map app_app_idx (apps (app_key_del [app_key_evt_srv] i s)))"
    if ks: "ks \<in> set kss'" "k \<in> set ks" "k < 2 ^ 12" for ks k
  proof -
    obtain j where j: "j < length kss" "ks = kss' ! j"
      using ks(1) by (auto simp: in_set_conv_nth kss'_def drop_keys_length)
    with cov have "ks = map (drop_key a) (kss ! j)" by (auto simp: kss'_def drop_keys_nth)
    with ks have k: "k \<in> set (kss ! j)" "k \<noteq> a" using drop_key_cases by blast+
    have "kss ! j \<in> set kss" using j(1) by simp
    with b k(1) ks(3) have "k \<in> set (map app_app_idx (apps s))" by blast
    then obtain q where "q < length (apps s)" "app_app_idx (apps s ! q) = k" by (auto simp: in_set_conv_nth)
    moreover from this k have "q \<noteq> i" by (auto simp: a_def)
    ultimately show ?thesis unfolding del upd_app_simps ap by (intro idx_update_mem [of q]) simp_all
  qed
  then show ?thesis using cov by (auto simp: binds_inv_part p' kss'_def drop_keys_length)
qed

section \<open>The other operations\<close>

lemma evt_binds: "binds_inv s \<Longrightarrow> evt \<noteq> BT_MESH_KEY_DELETED \<Longrightarrow> binds_inv (app_key_evt [app_key_evt_srv] i evt s)"
  by (simp add: app_key_evt_def app_key_evt_srv_def)

lemma app_key_put_binds:
  assumes "binds_inv s" "app_app_idx (apps s ! i) = BT_MESH_KEY_UNUSED \<or> app_app_idx (f (apps s ! i)) = app_app_idx (apps s ! i)"
    and "evt \<noteq> BT_MESH_KEY_DELETED"
  shows "binds_inv (app_key_evt [app_key_evt_srv] i evt (key_request k c (upd_app i f s)))"
proof (rule evt_binds [OF _ assms(3)])
  obtain q kss where p: "bind_part s = (q, kss)" by force
  have "a \<in> set (map app_app_idx ((apps s)[i := f (apps s ! i)]))" if a: "a \<in> set (map app_app_idx (apps s))" "a < 2 ^ 12" for a
  proof -
    obtain j where j: "j < length (apps s)" "app_app_idx (apps s ! j) = a" using a by (auto simp: in_set_conv_nth)
    have "a \<noteq> BT_MESH_KEY_UNUSED" using a(2) by (auto simp: mesh_key_defs)
    then have "app_app_idx ((apps s)[i := f (apps s ! i)] ! j) = a" using assms(2) j by (cases "i = j") auto
    with j(1) show ?thesis by (rule idx_update_mem)
  qed
  with assms(1) show "binds_inv (key_request k c (upd_app i f s))"
    unfolding binds_inv_part bind_part_request bind_part_keys key_request_keeps upd_app_simps by blast
qed

lemma subnet_step_binds:
  assumes "binds_inv s" "i < length (apps s)"
  shows "binds_inv (app_subnet_step [app_key_evt_srv] sub evt i s)"
proof -
  have "binds_inv (app_key_revoke [app_key_evt_srv] i s)"
    using assms(1) by (auto simp: app_key_revoke_def key_requests Let_def intro!: app_key_put_binds)
  then show ?thesis
    using app_key_del_binds [OF assms] assms(1) by (simp add: app_subnet_step_def Let_def evt_binds)
qed

lemma subnet_step_apps: "i < length (apps s) \<Longrightarrow> length (apps (app_subnet_step [app_key_evt_srv] sub evt i s)) = length (apps s)"
  by (simp add: srv.app_subnet_step_apps)

lemma app_subnet_evt_binds:
  assumes "binds_inv s"
  shows "binds_inv (app_subnet_evt [app_key_evt_srv] sub evt s)"
proof -
  have "binds_inv (fold (app_subnet_step [app_key_evt_srv] sub evt) l s')"
    if "binds_inv s'" "\<forall>i \<in> set l. i < length (apps s')" for l and s' :: "'a access_state_scheme"
    using that by (induction l arbitrary: s') (simp_all add: subnet_step_binds subnet_step_apps)
  with assms show ?thesis by (simp add: app_subnet_evt_def)
qed

lemma subnet_evt_binds:
  assumes "binds_inv s"
  shows "binds_inv (subnet_evt (srv_cbs tc) i evt s)"
proof -
  have "binds_inv (beacon_subnet_evt tc i evt s')" if "binds_inv s'" for s' :: "'a access_state_scheme"
    by (rule binds_keep [OF that]) (simp_all add: beacon_subnet_evt_def beacon_update_keeps)
  with app_subnet_evt_binds [OF assms] show ?thesis by (simp add: subnet_evt_def srv_cbs_def subnet_cbs_def)
qed

lemma binds_subs:
  assumes "binds_inv s"
  shows "binds_inv (upd_sub i f s)" "binds_inv (key_request k c s)" "binds_inv (bt_mesh_net_loopback_clear n s)"
proof -
  have "apps (bt_mesh_net_loopback_clear n s) = apps s" by (simp add: bt_mesh_net_loopback_clear_def)
  then show "binds_inv (bt_mesh_net_loopback_clear n s)" by (intro binds_keep [OF assms]) simp_all
  show "binds_inv (upd_sub i f s)" "binds_inv (key_request k c s)" by (rule binds_keep [OF assms]; simp)+
qed

lemma key_refresh_binds: "binds_inv s \<Longrightarrow> binds_inv (key_refresh (srv_cbs tc) i phase s)"
  by (simp add: key_refresh_def key_requests Let_def binds_subs subnet_evt_binds)

lemma kr_update_binds: "binds_inv s \<Longrightarrow> binds_inv (bt_mesh_kr_update (srv_cbs tc) i kr_flag new_key s)"
  by (simp add: bt_mesh_kr_update_def key_refresh_binds)

lemma kr_phase_set_binds: "binds_inv s \<Longrightarrow> binds_inv (snd (snd (bt_mesh_subnet_kr_phase_set (srv_cbs tc) n phase s)))"
  by (simp add: bt_mesh_subnet_kr_phase_set_def Let_def key_refresh_binds split: option.split)

lemma subnet_ops_binds:
  assumes "binds_inv s"
  shows "binds_inv (snd (bt_mesh_subnet_add tc (srv_cbs tc) n key s))"
    "binds_inv (snd (bt_mesh_subnet_update tc (srv_cbs tc) n key s))"
    "binds_inv (snd (bt_mesh_subnet_del (srv_cbs tc) n s))"
  by (simp_all add: bt_mesh_subnet_add_def bt_mesh_subnet_update_def bt_mesh_subnet_del_def subnet_del_def key_requests
      Let_def assms binds_subs subnet_evt_binds key_refresh_binds split: option.split sum.split)

lemma app_ops_binds:
  assumes "binds_inv s"
  shows "binds_inv (snd (bt_mesh_app_key_add tc [app_key_evt_srv] a n key s))"
    "binds_inv (snd (bt_mesh_app_key_update tc [app_key_evt_srv] a n key s))"
    "binds_inv (snd (bt_mesh_app_key_del [app_key_evt_srv] a n s))"
proof -
  show "binds_inv (snd (bt_mesh_app_key_add tc [app_key_evt_srv] a n key s))"
  proof (cases "\<exists>i. app_key_alloc a s = Some i \<and> app_app_idx (apps s ! i) \<noteq> a")
    case True
    then obtain i where i: "app_key_alloc a s = Some i" "app_app_idx (apps s ! i) \<noteq> a" by blast
    then have u: "app_app_idx (apps s ! i) = BT_MESH_KEY_UNUSED"
      by (auto simp: app_key_alloc_def dest!: find_idx_SomeD split: option.splits)
    have "binds_inv (app_key_evt [app_key_evt_srv] i BT_MESH_KEY_ADDED (key_request k c (upd_app i f s)))" for k c f
      by (rule app_key_put_binds [OF assms]) (simp_all add: u)
    then show ?thesis using assms i by (simp add: bt_mesh_app_key_add_def key_requests Let_def split: sum.split)
  next
    case False
    then show ?thesis using assms by (simp add: bt_mesh_app_key_add_def Let_def split: option.split)
  qed
  show "binds_inv (snd (bt_mesh_app_key_update tc [app_key_evt_srv] a n key s))"
  proof (cases "app_get a s")
    case (Some i)
    have "binds_inv (app_key_evt [app_key_evt_srv] i BT_MESH_KEY_UPDATED (key_request k c (upd_app i f s)))"
      if "\<And>app. app_app_idx (f app) = app_app_idx app" for k c f
      by (rule app_key_put_binds [OF assms]) (simp_all add: that)
    then show ?thesis
      using assms by (simp add: bt_mesh_app_key_update_def Some key_requests Let_def split: option.split sum.split)
  qed (simp add: bt_mesh_app_key_update_def assms)
  show "binds_inv (snd (bt_mesh_app_key_del [app_key_evt_srv] a n s))"
  proof (cases "app_get a s")
    case (Some i)
    then have "i < length (apps s)" unfolding app_get_def by (auto dest: find_idx_SomeD)
    from app_key_del_binds [OF assms this] show ?thesis using assms by (simp add: bt_mesh_app_key_del_def Some)
  qed (simp add: bt_mesh_app_key_del_def assms)
qed

lemma mod_bind_binds:
  assumes "binds_inv s"
  shows "binds_inv (snd (mod_bind m k s))"
proof -
  have "binds_inv (bt_mesh_store_mod_bind m (upd_mod m (\<lambda>md. md\<lparr>mo_keys := (mo_keys md)[i := k]\<rparr>) s))"
    if ex: "bt_mesh_app_key_exists k s" for i
  proof (cases "m < length (models s)")
    case True
    obtain c kss where p: "bind_part s = (c, kss)" by force
    have p': "bind_part (upd_mod m (\<lambda>md. md\<lparr>mo_keys := (mo_keys md)[i := k]\<rparr>) s) = (c, kss[m := (kss ! m)[i := k]])"
      using p True by (auto simp: bind_part_def upd_mod_def map_update)
    have a: "apps (bt_mesh_store_mod_bind m (upd_mod m f s)) = apps s" for f
      by (rule keys_partD(1)) simp
    have "set ((kss ! m)[i := k]) \<subseteq> insert k (set (kss ! m))" by (rule set_update_subset_insert)
    moreover have "kss ! m \<in> set kss" using p True by (auto simp: bind_part_def)
    ultimately show ?thesis
      using assms ex unfolding binds_inv_part bind_part_store_mod p' a
      by (auto simp: p exists_idxs dest!: set_update_subset_insert [THEN subsetD])
  next
    case False
    then show ?thesis by (intro binds_keep [OF assms]) (simp_all add: upd_mod_beyond keys_partD(1) [OF keys_part_upd(3)])
  qed
  then show ?thesis using assms by (simp add: mod_bind_def split: option.split)
qed

lemma other_ops_binds:
  assumes "binds_inv s"
  shows "binds_inv (snd (mod_unbind m k st s))" "binds_inv (snd (mod_pub_set_params m addr a c t p r st s))"
proof -
  have a: "apps (snd (mod_unbind m k st s)) = apps s" "apps (snd (mod_pub_set_params m addr a c t p r st s)) = apps s"
    by (rule keys_partD(1), simp)+
  show "binds_inv (snd (mod_pub_set_params m addr a c t p r st s))" by (rule binds_keep [OF assms]) (simp_all add: a)
  show "binds_inv (snd (mod_unbind m k st s))"
  proof (cases "bt_mesh_app_key_exists k s")
    case True
    obtain q kss where p: "bind_part s = (q, kss)" by force
    have inv: "set [0..<length kss] \<subseteq> (snd \<circ> snd) ` set (comp_models (cp_elem q))"
      "\<And>ks j. ks \<in> set kss \<Longrightarrow> j \<in> set ks \<Longrightarrow> j < 2 ^ 12 \<Longrightarrow> j \<in> set (map app_app_idx (apps s))"
      using assms unfolding binds_inv_part p by simp_all
    have "j \<in> set (map app_app_idx (apps s))"
      if ks: "ks \<in> set (kss[m := map (drop_key k) (kss ! m)])" and j: "j \<in> set ks" "j < 2 ^ 12" for ks j
    proof (cases "ks \<in> set kss")
      case False
      with ks have m: "m < length kss" by (cases "m < length kss") (simp_all add: list_update_beyond)
      moreover have "ks = map (drop_key k) (kss ! m)"
        using False ks set_update_subset_insert [of kss m "map (drop_key k) (kss ! m)"] by blast
      ultimately have "ks = map (drop_key k) (kss ! m)" "m < length kss" by blast+
      with j drop_key_cases [of j k "kss ! m"] inv(2) [of "kss ! m" j] show ?thesis by simp
    qed (use inv(2) j in blast)
    with inv(1) show ?thesis unfolding binds_inv_part unbind_part [OF p True] a by simp
  next
    case False
    then show ?thesis using assms by (simp add: mod_unbind_def)
  qed
qed

lemma key_op_binds: "binds_inv s \<Longrightarrow> binds_inv (key_op_exec tc op s)"
  by (cases op) (simp_all add: app_ops_binds subnet_ops_binds kr_phase_set_binds kr_update_binds mod_bind_binds other_ops_binds)

section \<open>The invariant of the keys\<close>

lemma keys_ok_part: "keys_part s' = keys_part s \<Longrightarrow> keys_ok s \<Longrightarrow> keys_ok s'"
proof -
  assume p: "keys_part s' = keys_part s" and ok: "keys_ok s"
  from p have e: "subnets s' = subnets s" "apps s' = apps s" "key_updates s' = key_updates s" "flash s' = flash s"
    by (simp_all add: keys_part_eq)
  have r: "ram_key s' = ram_key s" by (rule ram_key_cong [OF e(1,2)])
  have f: "flushed s' k = flushed s k" for k unfolding flushed_def e r ..
  show "keys_ok s'" using ok by (simp add: keys_ok_def subnets_ok_def apps_ok_def persist_def bind_ok_def e r f)
qed

lemma key_op_keys_ok:
  assumes "keys_ok s" "key_op_ok op"
  shows "keys_ok (key_op_exec tc op s)"
proof -
  have n: "a \<noteq> BT_MESH_KEY_UNUSED" if "a < 2 ^ 12" for a :: u16 using that by (auto simp: mesh_key_defs)
  have p: "keys_ok (snd (mod_bind m k s))" for m k
    by (rule keys_ok_part [OF _ assms(1)]) (simp add: mod_bind_def split: option.split)
  have q: "keys_ok (snd (mod_unbind m k st s))" "keys_ok (snd (mod_pub_set_params m addr a c t p r st s))" for m k st addr a c t p r
    by (rule keys_ok_part [OF _ assms(1)], simp)+
  show ?thesis
    using assms n p q
    by (cases op) (simp_all add: key_op_ok_def srv_cbs_def srv.app_key_add_keys_ok srv.app_key_update_keys_ok
        srv.bt_mesh_app_key_del_keys_ok srv.subnet_add_keys_ok srv.subnet_update_keys_ok srv.bt_mesh_subnet_del_keys_ok
        srv.kr_phase_set_keys_ok srv.kr_update_keys_ok)
qed


text \<open>A node that has no keys yet is well-formed.\<close>

lemma no_keys_ok:
  assumes "subnets s = [unused_subnet, unused_subnet]" "apps s = [unused_app_key, unused_app_key]"
    "\<forall>u \<in> set (key_updates s). \<not> ku_valid u" "flash s = (\<lambda>_. None)"
  shows "keys_ok s"
proof -
  have u: "sub_net_idx unused_subnet = BT_MESH_KEY_UNUSED" "app_app_idx unused_app_key = BT_MESH_KEY_UNUSED"
    by (simp_all add: unused_subnet_def unused_app_key_def)
  have m: "\<not> ku_match k (key_updates s ! j)" if "j < length (key_updates s)" for k j
    using assms(3) that by (auto simp: ku_match_def)
  have "pend (key_updates s) k = None" for k
    using assms(3) by (auto simp: pend_def find_last_idx_None_iff ku_match_def)
  moreover have "ram_key s k = None" if "snd k < 2 ^ 12" for k
  proof -
    have "snd k \<noteq> BT_MESH_KEY_UNUSED" using that by (auto simp: mesh_key_defs)
    then show ?thesis using assms(1,2) u
      by (auto simp: ram_key_def app_get_def bt_mesh_subnet_get_def find_idx_def)
  qed
  ultimately have "persist s {}" using m by (auto simp: persist_def ku_wf_def flushed_def assms(4))
  moreover have "subnets_ok s" using assms(1)
    by (simp add: subnets_ok_def subnet_ok_def unused_subnet_def zero_keys_def idx_distinct_def mesh_key_defs less_Suc_eq)
  moreover have "apps_ok s" using assms(2)
    by (simp add: apps_ok_def app_ok_def unused_app_key_def idx_distinct_def mesh_key_defs less_Suc_eq)
  moreover have "bind_ok s" using assms(2) u by (simp add: bind_ok_def)
  ultimately show ?thesis by (simp add: keys_ok_def)
qed


end
