(* ===== verification/Spec2Isabelle.thy ===== *)
theory Spec2Isabelle
  imports Net_Store Transport_Iv Transport_Va Access_Tree Access_Msg Cfg_Keys
begin

text \<open>
  Verification development of the mesh network project.
\<close>

end
